(* ===== verification/Prelude.thy ===== *)
theory Prelude
  imports Main "HOL-Library.Word"
begin

text \<open>
  Shared vocabulary of the development: the Rust \<open>Result\<close> type, byte strings, little-endian
  codecs, and the checked and saturating integer operations the sources use, each with the
  lemmas that the component theories rely on.
\<close>

named_theorems le_simps \<open>little-endian encoding and decoding\<close>
named_theorems sat_simps \<open>saturating and checked arithmetic read as natural numbers\<close>

type_synonym byte = "8 word"
type_synonym bytes = "byte list"
type_synonym u16 = "16 word"
type_synonym u32 = "32 word"
type_synonym u64 = "64 word"

section \<open>Results\<close>

text \<open>Rust's \<open>Result<T, E>\<close>; \<open>res_bind\<close> is the question-mark operator.\<close>

datatype ('a, 'e) result = Ok 'a | Err 'e

fun res_bind :: "('a, 'e) result \<Rightarrow> ('a \<Rightarrow> ('b, 'e) result) \<Rightarrow> ('b, 'e) result" where
  "res_bind (Ok x) f = f x"
| "res_bind (Err e) f = Err e"

fun is_ok :: "('a, 'e) result \<Rightarrow> bool" where
  "is_ok (Ok x) = True"
| "is_ok (Err e) = False"

fun is_err :: "('a, 'e) result \<Rightarrow> bool" where
  "is_err (Ok x) = False"
| "is_err (Err e) = True"

definition ok_or :: "'a option \<Rightarrow> 'e \<Rightarrow> ('a, 'e) result" where
  "ok_or x e = (case x of None \<Rightarrow> Err e | Some y \<Rightarrow> Ok y)"

lemma ok_or_simps [simp]: "ok_or None e = Err e" "ok_or (Some x) e = Ok x"
  by (simp_all add: ok_or_def)

lemma res_bind_eq_Ok [simp]: "res_bind m f = Ok y \<longleftrightarrow> (\<exists>x. m = Ok x \<and> f x = Ok y)"
  by (cases m) auto

lemma res_bind_eq_Err: "res_bind m f = Err e \<longleftrightarrow> m = Err e \<or> (\<exists>x. m = Ok x \<and> f x = Err e)"
  by (cases m) auto

lemma res_bind_assoc: "res_bind (res_bind m f) g = res_bind m (\<lambda>x. res_bind (f x) g)"
  by (cases m) auto

lemma res_bind_cong [fundef_cong]:
  "m = m' \<Longrightarrow> (\<And>x. m' = Ok x \<Longrightarrow> f x = f' x) \<Longrightarrow> res_bind m f = res_bind m' f'"
  by (cases m') auto

lemma is_ok_iff: "is_ok r \<longleftrightarrow> (\<exists>x. r = Ok x)"
  by (cases r) auto

lemma is_err_iff: "is_err r \<longleftrightarrow> \<not> is_ok r"
  by (cases r) auto

lemma is_ok_res_bind: "is_ok (res_bind m f) \<longleftrightarrow> (\<exists>x. m = Ok x \<and> is_ok (f x))"
  by (cases m) auto

text \<open>A loop with early return over a list: each item is one fallible step on the state.\<close>

fun res_fold :: "('i \<Rightarrow> 's \<Rightarrow> ('s, 'e) result) \<Rightarrow> 'i list \<Rightarrow> 's \<Rightarrow> ('s, 'e) result" where
  "res_fold f [] s = Ok s"
| "res_fold f (x # xs) s = res_bind (f x s) (res_fold f xs)"

lemma res_fold_append: "res_fold f (xs @ ys) s = res_bind (res_fold f xs s) (res_fold f ys)"
  by (induction xs arbitrary: s) (auto simp: res_bind_assoc intro!: res_bind_cong)

text \<open>Steps with a contract: an invariant every step keeps, a measure it grows by at most \<open>k\<close>.\<close>

locale res_step =
  fixes step :: "'i \<Rightarrow> 's \<Rightarrow> ('s, 'e) result"
    and inv :: "'s \<Rightarrow> bool"
    and size_of :: "'s \<Rightarrow> nat"
    and growth :: nat
  assumes step_inv: "inv s \<Longrightarrow> step x s = Ok s' \<Longrightarrow> inv s'"
    and step_growth: "inv s \<Longrightarrow> step x s = Ok s' \<Longrightarrow> size_of s' \<le> size_of s + growth"
begin

lemma fold_inv: "inv s \<Longrightarrow> res_fold step xs s = Ok s' \<Longrightarrow> inv s'"
  by (induction xs arbitrary: s) (auto dest: step_inv)

lemma fold_growth:
  "inv s \<Longrightarrow> res_fold step xs s = Ok s' \<Longrightarrow> size_of s' \<le> size_of s + growth * length xs"
proof (induction xs arbitrary: s)
  case (Cons x xs)
  then obtain s1 where s1: "step x s = Ok s1" and rest: "res_fold step xs s1 = Ok s'" by auto
  from Cons.IH [OF step_inv [OF Cons.prems(1) s1] rest] step_growth [OF Cons.prems(1) s1]
  show ?case by simp
qed simp

end

section \<open>Little-endian byte strings\<close>

text \<open>
  \<open>le_bytes k n\<close> is \<open>to_le_bytes\<close> of the low \<open>k\<close> bytes of \<open>n\<close>; \<open>le_value\<close> is the number
  that \<open>from_le_bytes\<close> reads.
\<close>

fun le_bytes :: "nat \<Rightarrow> nat \<Rightarrow> bytes" where
  "le_bytes 0 n = []"
| "le_bytes (Suc k) n = of_nat (n mod 256) # le_bytes k (n div 256)"

fun le_value :: "bytes \<Rightarrow> nat" where
  "le_value [] = 0"
| "le_value (b # bs) = unat b + 256 * le_value bs"

lemma length_le_bytes [simp, le_simps]: "length (le_bytes k n) = k"
  by (induction k arbitrary: n) auto

lemma unat_byte_of_nat [simp]: "unat (of_nat n :: byte) = n mod 256"
  by (simp add: unat_of_nat)

lemma unat_byte_lt [simp]: "unat (b :: byte) < 256"
  using unsigned_less [where 'b = 8 and 'a = nat, of b] by simp

lemma le_value_le_bytes [le_simps]: "le_value (le_bytes k n) = n mod 256 ^ k"
proof (induction k arbitrary: n)
  case 0
  then show ?case by simp
next
  case (Suc k)
  have "n mod 256 ^ Suc k = n mod 256 + 256 * (n div 256 mod 256 ^ k)"
    by (simp add: mod_mult2_eq)
  with Suc.IH show ?case by simp
qed

lemma le_value_less: "le_value bs < 256 ^ length bs"
proof (induction bs)
  case Nil
  then show ?case by simp
next
  case (Cons b bs)
  have "unat b < 256" by simp
  with Cons.IH have "unat b + 256 * le_value bs < 256 * 256 ^ length bs"
    by linarith
  then show ?case by simp
qed

lemma le_bytes_le_value [le_simps]: "le_bytes (length bs) (le_value bs) = bs"
proof (induction bs)
  case Nil
  then show ?case by simp
next
  case (Cons b bs)
  have "(unat b + 256 * le_value bs) div 256 = le_value bs"
    using unat_byte_lt [of b] by simp
  moreover have "(unat b + 256 * le_value bs) mod 256 = unat b"
    using unat_byte_lt [of b] by simp
  ultimately show ?case using Cons.IH by simp
qed

lemma le_bytes_inj: "n < 256 ^ k \<Longrightarrow> m < 256 ^ k \<Longrightarrow> le_bytes k n = le_bytes k m \<longleftrightarrow> n = m"
  by (metis le_value_le_bytes mod_less)

text \<open>The fixed-width codecs share one contract.\<close>

locale le_codec =
  fixes width :: nat
    and enc :: "'a \<Rightarrow> bytes"
    and dec :: "bytes \<Rightarrow> 'a"
  assumes length_enc: "length (enc x) = width"
    and dec_enc: "dec (enc x) = x"
begin

lemma enc_inject: "enc x = enc y \<longleftrightarrow> x = y"
  by (metis dec_enc)

lemma enc_append_inject: "enc x @ r = enc y @ r' \<longleftrightarrow> x = y \<and> r = r'"
  by (auto simp: length_enc enc_inject)

lemma dec_take: "dec (take width (enc x @ r)) = x"
  by (simp add: length_enc dec_enc)

lemma drop_enc: "drop width (enc x @ r) = r"
  by (simp add: length_enc)

end

definition u16_le :: "u16 \<Rightarrow> bytes" where "u16_le w = le_bytes 2 (unat w)"
definition u32_le :: "u32 \<Rightarrow> bytes" where "u32_le w = le_bytes 4 (unat w)"
definition u64_le :: "u64 \<Rightarrow> bytes" where "u64_le w = le_bytes 8 (unat w)"
definition u16_of_le :: "bytes \<Rightarrow> u16" where "u16_of_le bs = of_nat (le_value bs)"
definition u32_of_le :: "bytes \<Rightarrow> u32" where "u32_of_le bs = of_nat (le_value bs)"
definition u64_of_le :: "bytes \<Rightarrow> u64" where "u64_of_le bs = of_nat (le_value bs)"

interpretation u16c: le_codec 2 u16_le u16_of_le
  using unsigned_less [where 'b = 16 and 'a = nat]
  by unfold_locales (simp_all add: u16_le_def u16_of_le_def le_value_le_bytes)

interpretation u32c: le_codec 4 u32_le u32_of_le
  using unsigned_less [where 'b = 32 and 'a = nat]
  by unfold_locales (simp_all add: u32_le_def u32_of_le_def le_value_le_bytes)

interpretation u64c: le_codec 8 u64_le u64_of_le
  using unsigned_less [where 'b = 64 and 'a = nat]
  by unfold_locales (simp_all add: u64_le_def u64_of_le_def le_value_le_bytes)

lemmas codec_simps = u16c.length_enc u32c.length_enc u64c.length_enc
  u16c.dec_enc u32c.dec_enc u64c.dec_enc

declare codec_simps [simp]

section \<open>Checked and saturating unsigned arithmetic\<close>

definition sat_add :: "'a::len word \<Rightarrow> 'a word \<Rightarrow> 'a word" where
  "sat_add a b = (if unat a + unat b < 2 ^ LENGTH('a) then a + b else -1)"

definition sat_sub :: "'a::len word \<Rightarrow> 'a word \<Rightarrow> 'a word" where
  "sat_sub a b = (if a < b then 0 else a - b)"

definition sat_mul :: "'a::len word \<Rightarrow> 'a word \<Rightarrow> 'a word" where
  "sat_mul a b = (if unat a * unat b < 2 ^ LENGTH('a) then a * b else -1)"

definition checked_add :: "'a::len word \<Rightarrow> 'a word \<Rightarrow> 'a word option" where
  "checked_add a b = (if unat a + unat b < 2 ^ LENGTH('a) then Some (a + b) else None)"

definition checked_sub :: "'a::len word \<Rightarrow> 'a word \<Rightarrow> 'a word option" where
  "checked_sub a b = (if a < b then None else Some (a - b))"

lemma unat_minus_one_word_len: "unat (-1 :: 'a::len word) = 2 ^ LENGTH('a) - 1"
  by (simp add: unsigned_minus_1_eq_mask mask_eq_exp_minus_1)

lemma unat_sat_add [sat_simps]:
  "unat (sat_add (a::'a::len word) b) = min (unat a + unat b) (2 ^ LENGTH('a) - 1)"
proof (cases "unat a + unat b < 2 ^ LENGTH('a)")
  case True
  then show ?thesis by (simp add: sat_add_def unat_word_ariths)
next
  case False
  then show ?thesis by (simp add: sat_add_def unat_minus_one_word_len)
qed

lemma unat_sat_sub [sat_simps]: "unat (sat_sub (a::'a::len word) b) = unat a - unat b"
  by (auto simp: sat_sub_def word_less_nat_alt unat_sub word_le_nat_alt not_less)

lemma unat_sat_mul [sat_simps]:
  "unat (sat_mul (a::'a::len word) b) = min (unat a * unat b) (2 ^ LENGTH('a) - 1)"
proof (cases "unat a * unat b < 2 ^ LENGTH('a)")
  case True
  then show ?thesis by (simp add: sat_mul_def unat_word_ariths)
next
  case False
  then show ?thesis by (simp add: sat_mul_def unat_minus_one_word_len)
qed

lemma checked_add_Some [sat_simps]:
  "checked_add (a::'a::len word) b = Some c \<longleftrightarrow>
     unat a + unat b < 2 ^ LENGTH('a) \<and> unat c = unat a + unat b"
proof -
  have "unat a + unat b < 2 ^ LENGTH('a) \<Longrightarrow> a + b = c \<longleftrightarrow> unat c = unat a + unat b"
    by (auto simp: word_unat_eq_iff unat_word_ariths)
  then show ?thesis by (auto simp: checked_add_def)
qed

lemma checked_sub_Some [sat_simps]:
  "checked_sub (a::'a::len word) b = Some c \<longleftrightarrow> unat b \<le> unat a \<and> unat c = unat a - unat b"
proof -
  have "\<not> a < b \<Longrightarrow> a - b = c \<longleftrightarrow> unat c = unat a - unat b"
    by (auto simp: word_unat_eq_iff unat_sub word_le_nat_alt not_less)
  then show ?thesis
    by (auto simp: checked_sub_def word_less_nat_alt not_less)
qed

end
