(* ===== verification/Opcode.thy ===== *)
theory Opcode
  imports Prelude
begin

text \<open>
  The opcode enumeration of \<open>vtorrent-script/src/opcode.rs\<close>: its discriminants and the parser
  \<open>from_byte\<close>. The interpreter in \<open>Engine\<close> matches on raw bytes, as the source does.
\<close>

datatype (plugins only: size) opcode =
   Op0 | OpPushData1 | OpPushData2 | OpPushData4 | Op1Negate | Op1 | Op2 | Op3 | Op4 | Op5 | Op6
    | Op7 | Op8 | Op9 | Op10 | Op11 | Op12 | Op13 | Op14 | Op15 | Op16 | OpNop | OpIf | OpNotIf
    | OpElse | OpEndIf | OpVerify | OpReturn | OpToAltStack | OpFromAltStack | OpIfDup | OpDepth
    | OpDrop | OpDup | OpNip | OpPick | OpOver | OpRoll | OpRot | OpSwap | OpTuck | Op2Drop
    | Op2Dup | Op3Dup | Op2Over | Op2Rot | Op2Swap | OpSize | OpEqual | OpEqualVerify | Op1Add
    | Op1Sub | OpNegate | OpAbs | OpNot | Op0NotEqual | OpAdd | OpSub | OpBoolAnd | OpBoolOr
    | OpNumEqual | OpNumEqualVerify | OpNumNotEqual | OpLessThan | OpGreaterThan
    | OpLessThanOrEqual | OpGreaterThanOrEqual | OpMin | OpMax | OpWithin | OpRipemd160 | OpSha1
    | OpSha256 | OpHash160 | OpHash256 | OpCodeSeparator | OpCheckSig | OpCheckSigVerify
    | OpCheckMultiSig | OpCheckMultiSigVerify | OpCheckLockTimeVerify | OpCheckSequenceVerify

text \<open>The \<open>repr(u8)\<close> discriminants.\<close>

primrec opcode_byte :: "opcode \<Rightarrow> byte" where
  "opcode_byte Op0 = 0x00"
| "opcode_byte OpPushData1 = 0x4c"
| "opcode_byte OpPushData2 = 0x4d"
| "opcode_byte OpPushData4 = 0x4e"
| "opcode_byte Op1Negate = 0x4f"
| "opcode_byte Op1 = 0x51"
| "opcode_byte Op2 = 0x52"
| "opcode_byte Op3 = 0x53"
| "opcode_byte Op4 = 0x54"
| "opcode_byte Op5 = 0x55"
| "opcode_byte Op6 = 0x56"
| "opcode_byte Op7 = 0x57"
| "opcode_byte Op8 = 0x58"
| "opcode_byte Op9 = 0x59"
| "opcode_byte Op10 = 0x5a"
| "opcode_byte Op11 = 0x5b"
| "opcode_byte Op12 = 0x5c"
| "opcode_byte Op13 = 0x5d"
| "opcode_byte Op14 = 0x5e"
| "opcode_byte Op15 = 0x5f"
| "opcode_byte Op16 = 0x60"
| "opcode_byte OpNop = 0x61"
| "opcode_byte OpIf = 0x63"
| "opcode_byte OpNotIf = 0x64"
| "opcode_byte OpElse = 0x67"
| "opcode_byte OpEndIf = 0x68"
| "opcode_byte OpVerify = 0x69"
| "opcode_byte OpReturn = 0x6a"
| "opcode_byte OpToAltStack = 0x6b"
| "opcode_byte OpFromAltStack = 0x6c"
| "opcode_byte OpIfDup = 0x73"
| "opcode_byte OpDepth = 0x74"
| "opcode_byte OpDrop = 0x75"
| "opcode_byte OpDup = 0x76"
| "opcode_byte OpNip = 0x77"
| "opcode_byte OpPick = 0x78"
| "opcode_byte OpOver = 0x79"
| "opcode_byte OpRoll = 0x7a"
| "opcode_byte OpRot = 0x7b"
| "opcode_byte OpSwap = 0x7c"
| "opcode_byte OpTuck = 0x7d"
| "opcode_byte Op2Drop = 0x6d"
| "opcode_byte Op2Dup = 0x6e"
| "opcode_byte Op3Dup = 0x6f"
| "opcode_byte Op2Over = 0x70"
| "opcode_byte Op2Rot = 0x71"
| "opcode_byte Op2Swap = 0x72"
| "opcode_byte OpSize = 0x82"
| "opcode_byte OpEqual = 0x87"
| "opcode_byte OpEqualVerify = 0x88"
| "opcode_byte Op1Add = 0x8b"
| "opcode_byte Op1Sub = 0x8c"
| "opcode_byte OpNegate = 0x8f"
| "opcode_byte OpAbs = 0x90"
| "opcode_byte OpNot = 0x91"
| "opcode_byte Op0NotEqual = 0x92"
| "opcode_byte OpAdd = 0x93"
| "opcode_byte OpSub = 0x94"
| "opcode_byte OpBoolAnd = 0x9a"
| "opcode_byte OpBoolOr = 0x9b"
| "opcode_byte OpNumEqual = 0x9c"
| "opcode_byte OpNumEqualVerify = 0x9d"
| "opcode_byte OpNumNotEqual = 0x9e"
| "opcode_byte OpLessThan = 0x9f"
| "opcode_byte OpGreaterThan = 0xa0"
| "opcode_byte OpLessThanOrEqual = 0xa1"
| "opcode_byte OpGreaterThanOrEqual = 0xa2"
| "opcode_byte OpMin = 0xa3"
| "opcode_byte OpMax = 0xa4"
| "opcode_byte OpWithin = 0xa5"
| "opcode_byte OpRipemd160 = 0xa6"
| "opcode_byte OpSha1 = 0xa7"
| "opcode_byte OpSha256 = 0xa8"
| "opcode_byte OpHash160 = 0xa9"
| "opcode_byte OpHash256 = 0xaa"
| "opcode_byte OpCodeSeparator = 0xab"
| "opcode_byte OpCheckSig = 0xac"
| "opcode_byte OpCheckSigVerify = 0xad"
| "opcode_byte OpCheckMultiSig = 0xae"
| "opcode_byte OpCheckMultiSigVerify = 0xaf"
| "opcode_byte OpCheckLockTimeVerify = 0xb1"
| "opcode_byte OpCheckSequenceVerify = 0xb2"

definition from_byte :: "byte \<Rightarrow> opcode option" where
  "from_byte b =
     (if b = 0x00 then Some Op0
      else if b = 0x4c then Some OpPushData1
      else if b = 0x4d then Some OpPushData2
      else if b = 0x4e then Some OpPushData4
      else if b = 0x4f then Some Op1Negate
      else if b = 0x51 then Some Op1
      else if b = 0x52 then Some Op2
      else if b = 0x53 then Some Op3
      else if b = 0x54 then Some Op4
      else if b = 0x55 then Some Op5
      else if b = 0x56 then Some Op6
      else if b = 0x57 then Some Op7
      else if b = 0x58 then Some Op8
      else if b = 0x59 then Some Op9
      else if b = 0x5a then Some Op10
      else if b = 0x5b then Some Op11
      else if b = 0x5c then Some Op12
      else if b = 0x5d then Some Op13
      else if b = 0x5e then Some Op14
      else if b = 0x5f then Some Op15
      else if b = 0x60 then Some Op16
      else if b = 0x61 then Some OpNop
      else if b = 0x63 then Some OpIf
      else if b = 0x64 then Some OpNotIf
      else if b = 0x67 then Some OpElse
      else if b = 0x68 then Some OpEndIf
      else if b = 0x69 then Some OpVerify
      else if b = 0x6a then Some OpReturn
      else if b = 0x6b then Some OpToAltStack
      else if b = 0x6c then Some OpFromAltStack
      else if b = 0x6d then Some Op2Drop
      else if b = 0x6e then Some Op2Dup
      else if b = 0x6f then Some Op3Dup
      else if b = 0x70 then Some Op2Over
      else if b = 0x71 then Some Op2Rot
      else if b = 0x72 then Some Op2Swap
      else if b = 0x73 then Some OpIfDup
      else if b = 0x74 then Some OpDepth
      else if b = 0x75 then Some OpDrop
      else if b = 0x76 then Some OpDup
      else if b = 0x77 then Some OpNip
      else if b = 0x78 then Some OpPick
      else if b = 0x79 then Some OpOver
      else if b = 0x7a then Some OpRoll
      else if b = 0x7b then Some OpRot
      else if b = 0x7c then Some OpSwap
      else if b = 0x7d then Some OpTuck
      else if b = 0x82 then Some OpSize
      else if b = 0x87 then Some OpEqual
      else if b = 0x88 then Some OpEqualVerify
      else if b = 0x8b then Some Op1Add
      else if b = 0x8c then Some Op1Sub
      else if b = 0x8f then Some OpNegate
      else if b = 0x90 then Some OpAbs
      else if b = 0x91 then Some OpNot
      else if b = 0x92 then Some Op0NotEqual
      else if b = 0x93 then Some OpAdd
      else if b = 0x94 then Some OpSub
      else if b = 0x9a then Some OpBoolAnd
      else if b = 0x9b then Some OpBoolOr
      else if b = 0x9c then Some OpNumEqual
      else if b = 0x9d then Some OpNumEqualVerify
      else if b = 0x9e then Some OpNumNotEqual
      else if b = 0x9f then Some OpLessThan
      else if b = 0xa0 then Some OpGreaterThan
      else if b = 0xa1 then Some OpLessThanOrEqual
      else if b = 0xa2 then Some OpGreaterThanOrEqual
      else if b = 0xa3 then Some OpMin
      else if b = 0xa4 then Some OpMax
      else if b = 0xa5 then Some OpWithin
      else if b = 0xa6 then Some OpRipemd160
      else if b = 0xa7 then Some OpSha1
      else if b = 0xa8 then Some OpSha256
      else if b = 0xa9 then Some OpHash160
      else if b = 0xaa then Some OpHash256
      else if b = 0xab then Some OpCodeSeparator
      else if b = 0xac then Some OpCheckSig
      else if b = 0xad then Some OpCheckSigVerify
      else if b = 0xae then Some OpCheckMultiSig
      else if b = 0xaf then Some OpCheckMultiSigVerify
      else if b = 0xb1 then Some OpCheckLockTimeVerify
      else if b = 0xb2 then Some OpCheckSequenceVerify
      else None)"

section \<open>The table and the discriminants agree\<close>

lemma from_byte_opcode_byte: "from_byte (opcode_byte op) = Some op"
  by (cases op) (simp_all add: from_byte_def)

lemma from_byte_Some: "from_byte b = Some op \<Longrightarrow> opcode_byte op = b"
  by (simp add: from_byte_def split: if_splits)

lemma opcode_byte_inject: "opcode_byte op = opcode_byte op' \<longleftrightarrow> op = op'"
  by (metis from_byte_opcode_byte option.inject)

end
