(* ===== verification/Codec.thy ===== *)
theory Codec
  imports Prelude
begin

text \<open>
  Self-delimiting binary encodings. The node hashes transactions, outputs and unspent outputs by
  concatenating such encodings, so that two different values never give the same preimage. One
  contract, \<open>prefix_code\<close>, carries the argument from the integer codecs to whole transactions.
\<close>

locale prefix_code =
  fixes valid :: "'a \<Rightarrow> bool"
    and enc :: "'a \<Rightarrow> bytes"
  assumes enc_append: "valid x \<Longrightarrow> valid y \<Longrightarrow> enc x @ r = enc y @ s \<longleftrightarrow> x = y \<and> r = s"
begin

lemma enc_inj: "valid x \<Longrightarrow> valid y \<Longrightarrow> enc x = enc y \<longleftrightarrow> x = y"
  using enc_append [of x y "[]" "[]"] by simp

text \<open>Items of a known number, one after the other.\<close>

lemma concat_append:
  "length xs = length ys \<Longrightarrow> list_all valid xs \<Longrightarrow> list_all valid ys \<Longrightarrow>
     concat (map enc xs) @ r = concat (map enc ys) @ s \<longleftrightarrow> xs = ys \<and> r = s"
  by (induction xs ys rule: list_induct2) (auto simp: enc_append)

end

section \<open>Vectors, byte strings and options\<close>

text \<open>A \<open>Vec\<close>: its length as a 64-bit little-endian number, then the items.\<close>

definition vec_enc :: "('a \<Rightarrow> bytes) \<Rightarrow> 'a list \<Rightarrow> bytes" where
  "vec_enc enc xs = u64_le (of_nat (length xs)) @ concat (map enc xs)"

definition vec_wf :: "('a \<Rightarrow> bool) \<Rightarrow> 'a list \<Rightarrow> bool" where
  "vec_wf valid xs \<longleftrightarrow> length xs < 2 ^ 64 \<and> list_all valid xs"

definition bytes_enc :: "bytes \<Rightarrow> bytes" where
  "bytes_enc b = u64_le (of_nat (length b)) @ b"

definition bytes_wf :: "bytes \<Rightarrow> bool" where
  "bytes_wf b \<longleftrightarrow> length b < 2 ^ 64"

fun opt_enc :: "('a \<Rightarrow> bytes) \<Rightarrow> 'a option \<Rightarrow> bytes" where
  "opt_enc enc None = [0]"
| "opt_enc enc (Some x) = 1 # enc x"

lemma u64_of_nat_inj: "m < 2 ^ 64 \<Longrightarrow> n < 2 ^ 64 \<Longrightarrow> (of_nat m :: u64) = of_nat n \<longleftrightarrow> m = n"
  by (auto simp: word_unat_eq_iff unat_of_nat)

context prefix_code
begin

lemma vec_append:
  assumes "vec_wf valid xs" "vec_wf valid ys"
  shows "vec_enc enc xs @ r = vec_enc enc ys @ s \<longleftrightarrow> xs = ys \<and> r = s"
proof -
  have "length xs = length ys \<Longrightarrow> ?thesis"
    using assms concat_append [of xs ys r s] by (simp add: vec_enc_def vec_wf_def)
  moreover have "vec_enc enc xs @ r = vec_enc enc ys @ s \<Longrightarrow> length xs = length ys"
    using assms by (auto simp: vec_enc_def vec_wf_def u64c.enc_append_inject u64_of_nat_inj)
  ultimately show ?thesis by blast
qed

lemma opt_append:
  "pred_option valid a \<Longrightarrow> pred_option valid b \<Longrightarrow> opt_enc enc a @ r = opt_enc enc b @ s \<longleftrightarrow> a = b \<and> r = s"
  by (cases a; cases b) (auto simp: enc_append)

end

interpretation u32p: prefix_code "\<lambda>_. True" u32_le
  by unfold_locales (rule u32c.enc_append_inject)

interpretation u64p: prefix_code "\<lambda>_. True" u64_le
  by unfold_locales (rule u64c.enc_append_inject)

interpretation hashp: prefix_code "\<lambda>b. length b = 32" "\<lambda>b. b"
  by unfold_locales simp

interpretation bytesp: prefix_code bytes_wf bytes_enc
  by unfold_locales (auto simp: bytes_enc_def bytes_wf_def u64c.enc_append_inject u64_of_nat_inj)

section \<open>The variable-length integer prefix\<close>

text \<open>
  The prefix of \<open>hash_utxo\<close> and of the signed-message hash: one byte below \<open>0xfd\<close>, else a marker
  and a wider integer.
\<close>

definition varint :: "nat \<Rightarrow> bytes" where
  "varint n =
     (if n < 0xfd then [of_nat n]
      else if n \<le> 0xffff then 0xfd # u16_le (of_nat n)
      else if n \<le> 0xffffffff then 0xfe # u32_le (of_nat n)
      else 0xff # u64_le (of_nat n))"

lemma varint_small_head: "n < 0xfd \<Longrightarrow> (of_nat n :: byte) \<noteq> 0xfd \<and> (of_nat n :: byte) \<noteq> 0xfe \<and>
    (of_nat n :: byte) \<noteq> 0xff"
  by (auto simp: word_unat_eq_iff)

lemma small_of_nat_inj:
  "m < 2 ^ 8 \<Longrightarrow> n < 2 ^ 8 \<Longrightarrow> (of_nat m :: byte) = of_nat n \<longleftrightarrow> m = n"
  "m < 2 ^ 16 \<Longrightarrow> n < 2 ^ 16 \<Longrightarrow> (of_nat m :: u16) = of_nat n \<longleftrightarrow> m = n"
  "m < 2 ^ 32 \<Longrightarrow> n < 2 ^ 32 \<Longrightarrow> (of_nat m :: u32) = of_nat n \<longleftrightarrow> m = n"
  by (auto simp: word_unat_eq_iff unat_of_nat)

interpretation varintp: prefix_code "\<lambda>n. n < 2 ^ 64" varint
proof
  fix m n :: nat and r s
  assume "m < 2 ^ 64" "n < 2 ^ 64"
  then show "varint m @ r = varint n @ s \<longleftrightarrow> m = n \<and> r = s"
    using varint_small_head [of m] varint_small_head [of n]
    by (auto simp: varint_def u16c.enc_append_inject u32c.enc_append_inject u64c.enc_append_inject
        small_of_nat_inj u64_of_nat_inj)
qed

end
