(* ===== verification/Script.thy ===== *)
theory Script
  imports Prelude
begin

text \<open>
  The script byte format of \<open>vtorrent-script/src/script.rs\<close> and the opcode table of
  \<open>opcode.rs\<close>: builders (\<open>push_data\<close>, \<open>push_opcode\<close>, \<open>push_int\<close>), the item iterator, and the
  up-front check \<open>validate\<close>. A Rust \<open>Script\<close> is a newtype over \<open>Vec<u8>\<close> and is modelled by its
  bytes. The iterator state (a slice and a position) is modelled by the unread suffix.
\<close>

section \<open>Errors\<close>

datatype script_error =
    EmptyStack
  | VerifyFailed
  | InvalidOpcode byte
  | StackOverflow
  | UnbalancedConditional
  | InvalidSignature
  | InvalidPublicKey
  | SignatureVerification
  | ScriptTooLarge nat
  | TruncatedPush
  | PushTooLarge nat
  | MultisigKeyCount nat nat
  | InvalidScriptNumber
  | HtlcHashMismatch
  | HtlcLocktimeNotExpired
  | NegativeLocktime
  | UnsatisfiedLocktime
  | UnsatisfiedSequence
  | NegativeSequence
  | OpReturnUnspendable
  | UnknownScriptType
  | Serialization script_error

type_synonym script = bytes
type_synonym 'a sresult = "('a, script_error) result"

definition MAX_SCRIPT_SIZE :: nat where "MAX_SCRIPT_SIZE = 10000"
definition MAX_PUSH_SIZE :: nat where "MAX_PUSH_SIZE = 520"

section \<open>Builders\<close>

definition from_bytes :: "bytes \<Rightarrow> script sresult" where
  "from_bytes bs =
     (if length bs > MAX_SCRIPT_SIZE then Err (ScriptTooLarge (length bs)) else Ok bs)"

definition push_data :: "script \<Rightarrow> bytes \<Rightarrow> script sresult" where
  "push_data s d =
     (let n = length d in
      if n > MAX_PUSH_SIZE then Err (PushTooLarge n)
      else if n = 0 then Ok (s @ [0x00])
      else if n \<le> 75 then Ok (s @ [of_nat n] @ d)
      else if n \<le> 255 then Ok (s @ [0x4c, of_nat n] @ d)
      else if n \<le> 65535 then Ok (s @ [0x4d] @ le_bytes 2 n @ d)
      else Ok (s @ [0x4e] @ le_bytes 4 n @ d))"

definition push_opcode :: "script \<Rightarrow> byte \<Rightarrow> script" where
  "push_opcode s op = s @ [op]"

definition push_int :: "script \<Rightarrow> byte \<Rightarrow> script" where
  "push_int s n =
     (if n = 0 then s @ [0x00]
      else if n \<le> 16 then s @ [0x50 + n]
      else if n < 0x80 then s @ [n]
      else s @ [n, 0x00])"

section \<open>The item iterator\<close>

datatype script_item = Opcode byte | PushData bytes

text \<open>\<open>take_push n r\<close> is the common tail of the push branches: read \<open>n\<close> bytes or stop.\<close>

definition take_push :: "nat \<Rightarrow> bytes \<Rightarrow> (script_item \<times> bytes) option" where
  "take_push n r = (if n > length r then None else Some (PushData (take n r), drop n r))"

fun script_next :: "bytes \<Rightarrow> (script_item \<times> bytes) option" where
  "script_next [] = None"
| "script_next (b # r) =
     (if b = 0x00 then Some (PushData [], r)
      else if b \<le> 75 then take_push (unat b) r
      else if b = 0x4c then
        (case r of [] \<Rightarrow> None | l # r' \<Rightarrow> take_push (unat l) r')
      else if b = 0x4d then
        (if 2 > length r then None
         else take_push (unat (u16_of_le (take 2 r))) (drop 2 r))
      else if b = 0x4e then
        (if 4 > length r then None
         else take_push (unat (u32_of_le (take 4 r))) (drop 4 r))
      else Some (Opcode b, r))"

lemma take_push_length: "take_push n r = Some (it, r') \<Longrightarrow> length r' \<le> length r"
  by (auto simp: take_push_def split: if_splits)

lemma script_next_length: "script_next s = Some (it, r) \<Longrightarrow> length r < length s"
  by (cases s) (auto split: if_splits list.splits dest!: take_push_length)

text \<open>Everything the iterator yields, and the suffix at which it stops.\<close>

function script_items :: "bytes \<Rightarrow> script_item list" where
  "script_items s =
     (case script_next s of None \<Rightarrow> [] | Some (it, r) \<Rightarrow> it # script_items r)"
  by pat_completeness auto
termination
  by (relation "measure length") (auto dest: script_next_length)

function script_end :: "bytes \<Rightarrow> bytes" where
  "script_end s = (case script_next s of None \<Rightarrow> s | Some (it, r) \<Rightarrow> script_end r)"
  by pat_completeness auto
termination
  by (relation "measure length") (auto dest: script_next_length)

declare script_items.simps [simp del] script_end.simps [simp del]

section \<open>Validation of push lengths\<close>

text \<open>
  The number of bytes one iteration of the \<open>validate\<close> loop advances, or the early
  \<open>TruncatedPush\<close> when a length prefix itself is cut off.
\<close>

fun validate_advance :: "bytes \<Rightarrow> nat sresult" where
  "validate_advance [] = Ok 0"
| "validate_advance (b # r) =
     (if b = 0x00 then Ok 1
      else if b \<le> 75 then Ok (1 + unat b)
      else if b = 0x4c then
        (if 2 > length (b # r) then Err TruncatedPush else Ok (2 + unat (r ! 0)))
      else if b = 0x4d then
        (if 3 > length (b # r) then Err TruncatedPush
         else Ok (3 + unat (u16_of_le [r ! 0, r ! 1])))
      else if b = 0x4e then
        (if 5 > length (b # r) then Err TruncatedPush
         else Ok (5 + unat (u32_of_le [r ! 0, r ! 1, r ! 2, r ! 3])))
      else Ok 1)"

lemma validate_advance_pos: "validate_advance (b # r) = Ok n \<Longrightarrow> 0 < n"
  by (auto split: if_splits)

function validate :: "bytes \<Rightarrow> unit sresult" where
  "validate s =
     (if s = [] then Ok ()
      else case validate_advance s of
             Err e \<Rightarrow> Err e
           | Ok n \<Rightarrow> if n > length s then Err TruncatedPush else validate (drop n s))"
  by pat_completeness auto
termination
  by (relation "measure length")
    (auto simp del: validate_advance.simps simp: neq_Nil_conv dest!: validate_advance_pos)

declare validate.simps [simp del]


section \<open>The iterator and validation agree\<close>

lemma script_items_Nil [simp]: "script_items [] = []"
  by (simp add: script_items.simps)

lemma script_end_Nil [simp]: "script_end [] = []"
  by (simp add: script_end.simps)

lemma validate_Nil [simp]: "validate [] = Ok ()"
  by (simp add: validate.simps)

lemma nth_two: "2 \<le> length r \<Longrightarrow> [r ! 0, r ! Suc 0] = take 2 r"
  by (cases r; cases "tl r") (auto simp: numeral_2_eq_2)

lemma nth_four: "4 \<le> length r \<Longrightarrow> [r ! 0, r ! Suc 0, r ! 2, r ! 3] = take 4 r"
  by (rule nth_equalityI) (auto simp: less_Suc_eq numeral_eq_Suc)

lemma drop_prefix:
  "drop (3 + k) (b # r) = drop (k + 2) r" "drop (5 + k) (b # r) = drop (k + 4) r"
  by (simp_all add: numeral_eq_Suc)

text \<open>
  One loop iteration of \<open>validate\<close> advances exactly past the item the iterator reads, and
  reports a truncation exactly where the iterator would stop early.
\<close>

lemma byte_kind_cases [case_names zero small pushdata1 pushdata2 pushdata4 opcode]:
  fixes b :: byte
  obtains "b = 0" | "b \<noteq> 0" "b \<le> 75" | "b = 0x4c" | "b = 0x4d" | "b = 0x4e"
    | "b \<noteq> 0" "\<not> b \<le> 75" "b \<noteq> 0x4c" "b \<noteq> 0x4d" "b \<noteq> 0x4e"
  by blast

lemma small_not_pushdata: "b \<le> 75 \<Longrightarrow> b \<noteq> 0x4c \<and> b \<noteq> 0x4d \<and> b \<noteq> (0x4e :: byte)"
  by auto

lemma script_next_validate:
  "script_next (b # r) =
     (case validate_advance (b # r) of
        Err e \<Rightarrow> None
      | Ok n \<Rightarrow> if n > length (b # r) then None
               else Some (fst (the (script_next (b # r))), drop n (b # r)))"
proof (cases b rule: byte_kind_cases)
  case pushdata1
  then show ?thesis by (cases r) (auto simp: take_push_def)
next
  case pushdata2
  then show ?thesis
    by (auto simp: take_push_def nth_two drop_prefix not_less)
next
  case pushdata4
  then show ?thesis
    by (auto simp: take_push_def nth_four drop_prefix not_less)
qed (auto simp: take_push_def small_not_pushdata)

lemma validate_step:
  assumes "s \<noteq> []"
  shows "validate s =
     (case script_next s of None \<Rightarrow> Err TruncatedPush | Some (it, r) \<Rightarrow> validate r)"
proof -
  obtain b r where s: "s = b # r" using assms by (cases s) auto
  have err: "validate_advance (b # r) = Err e \<Longrightarrow> e = TruncatedPush" for e
    by (auto split: if_splits)
  show ?thesis
    unfolding s by (subst validate.simps, subst script_next_validate)
      (auto simp del: validate_advance.simps split: result.splits dest: err)
qed

lemma script_items_step:
  "script_next s = Some (it, r) \<Longrightarrow> script_items s = it # script_items r"
  by (subst script_items.simps) simp

lemma script_end_step:
  "script_next s = Some (it, r) \<Longrightarrow> script_end s = script_end r"
  by (subst script_end.simps) simp

text \<open>
  C19: the up-front truncation check accepts a script exactly when the item iterator reads it to
  its last byte. \<open>validate\<close> walks the bytes with its own length arithmetic, so this says that no
  script passes the check and is then cut short by the iterator, and none is refused that the
  iterator would have read completely.
\<close>

theorem validate_Ok_iff_end: "validate s = Ok () \<longleftrightarrow> script_end s = []"
proof (induction s rule: script_end.induct)
  case (1 s)
  show ?case
  proof (cases "script_next s")
    case None
    then show ?thesis
      by (cases "s = []") (auto simp: validate_step script_end.simps [of s])
  next
    case (Some p)
    obtain it r where p: "p = (it, r)" by (cases p)
    with Some have "s \<noteq> []" by auto
    with Some p "1.IH" [OF Some] show ?thesis
      by (simp add: validate_step script_end_step)
  qed
qed

lemma validate_cases: "validate s = Ok () \<or> validate s = Err TruncatedPush"
proof (induction s rule: script_end.induct)
  case (1 s)
  show ?case
    by (cases "s = []"; cases "script_next s")
      (auto simp: validate_step dest: "1.IH")
qed

section \<open>Concatenation\<close>

lemma take_push_append:
  "take_push n r = Some (it, r') \<Longrightarrow> take_push n (r @ t) = Some (it, r' @ t)"
  by (auto simp: take_push_def split: if_splits)

lemma script_next_append:
  assumes "script_next s = Some (it, r)"
  shows "script_next (s @ t) = Some (it, r @ t)"
proof (cases s)
  case Nil
  with assms show ?thesis by simp
next
  case (Cons b u)
  show ?thesis
  proof (cases b rule: byte_kind_cases)
    case pushdata1
    with assms Cons show ?thesis by (cases u) (auto dest: take_push_append)
  next
    case small
    with assms Cons show ?thesis by (simp add: small_not_pushdata take_push_append)
  qed (use assms Cons in \<open>auto dest: take_push_append split: if_splits\<close>)
qed

lemma validate_append: "validate s = Ok () \<Longrightarrow> validate (s @ t) = validate t"
proof (induction s rule: script_end.induct)
  case (1 s)
  show ?case
  proof (cases "s = []")
    case False
    with "1.prems" obtain it r where nx: "script_next s = Some (it, r)" and r: "validate r = Ok ()"
      by (auto simp: validate_step split: option.splits)
    from "1.IH" [OF nx refl r] False nx show ?thesis
      by (simp add: validate_step [of "s @ t"] script_next_append)
  qed simp
qed

lemma script_items_append:
  "validate s = Ok () \<Longrightarrow> script_items (s @ t) = script_items s @ script_items t"
proof (induction s rule: script_end.induct)
  case (1 s)
  show ?case
  proof (cases "s = []")
    case False
    with "1.prems" obtain it r where nx: "script_next s = Some (it, r)" and r: "validate r = Ok ()"
      by (auto simp: validate_step split: option.splits)
    from "1.IH" [OF nx refl r] nx show ?thesis
      by (simp add: script_items_step [OF nx] script_items_step [OF script_next_append [OF nx]])
  qed simp
qed

section \<open>What the builders append\<close>

definition is_push_byte :: "byte \<Rightarrow> bool" where
  "is_push_byte b \<longleftrightarrow> b \<le> 0x4e"

lemma script_next_opcode:
  assumes "\<not> is_push_byte op"
  shows "script_next (op # t) = Some (Opcode op, t)"
proof -
  from assms have "\<not> op \<le> 75" and "op \<noteq> 0x4c" and "op \<noteq> 0x4d" and "op \<noteq> 0x4e" and "op \<noteq> 0"
    by (auto simp: is_push_byte_def word_le_nat_alt)
  then show ?thesis by simp
qed

lemma push_opcode_items:
  assumes "validate s = Ok ()" and "\<not> is_push_byte op"
  shows "validate (push_opcode s op) = Ok ()"
    and "script_items (push_opcode s op) = script_items s @ [Opcode op]"
  using assms
  by (simp_all add: push_opcode_def validate_append script_items_append script_next_opcode
      validate_step [of "[op]"] script_items_step [OF script_next_opcode]
      del: script_next.simps)

text \<open>The bytes that \<open>push_data\<close> appends.\<close>

definition push_prefix :: "nat \<Rightarrow> bytes" where
  "push_prefix n =
     (if n = 0 then [0x00] else if n \<le> 75 then [of_nat n]
      else if n \<le> 255 then [0x4c, of_nat n] else [0x4d] @ le_bytes 2 n)"

lemma push_data_Ok:
  "length d \<le> MAX_PUSH_SIZE \<Longrightarrow> push_data s d = Ok (s @ push_prefix (length d) @ d)"
  by (auto simp: push_data_def push_prefix_def MAX_PUSH_SIZE_def)

lemma push_data_Err:
  "\<not> length d \<le> MAX_PUSH_SIZE \<Longrightarrow> push_data s d = Err (PushTooLarge (length d))"
  by (simp add: push_data_def)

lemma push_data_eq_Ok:
  "push_data s d = Ok s' \<longleftrightarrow>
     length d \<le> MAX_PUSH_SIZE \<and> s' = s @ push_prefix (length d) @ d"
  using push_data_Ok [of d s] push_data_Err [of d s] by (cases "length d \<le> MAX_PUSH_SIZE") auto

lemma script_next_push:
  assumes "length d \<le> MAX_PUSH_SIZE"
  shows "script_next (push_prefix (length d) @ d @ t) = Some (PushData d, t)"
proof -
  have b: "(of_nat (length d) :: byte) \<noteq> 0" "(of_nat (length d) :: byte) \<le> 75"
    if "0 < length d" "length d \<le> 75"
    using that by (auto simp: word_unat_eq_iff word_le_nat_alt)
  have v: "unat (u16_of_le (le_bytes 2 (length d))) = length d"
    using assms by (simp add: u16_of_le_def le_value_le_bytes unat_of_nat MAX_PUSH_SIZE_def)
  from assms b v show ?thesis
    by (auto simp: push_prefix_def take_push_def)
qed

lemma push_data_items:
  assumes "validate s = Ok ()" and "push_data s d = Ok s'"
  shows "validate s' = Ok ()" and "script_items s' = script_items s @ [PushData d]"
proof -
  let ?p = "push_prefix (length d) @ d"
  from assms(2) have len: "length d \<le> MAX_PUSH_SIZE" and s': "s' = s @ ?p"
    by (auto simp: push_data_eq_Ok)
  have nx: "script_next ?p = Some (PushData d, [])"
    using script_next_push [OF len, of "[]"] by simp
  then have "?p \<noteq> []" by auto
  with nx have "validate ?p = Ok ()" by (simp add: validate_step)
  with assms(1) s' show "validate s' = Ok ()" by (simp add: validate_append)
  show "script_items s' = script_items s @ [PushData d]"
    using assms(1) by (simp add: s' script_items_append script_items_step [OF nx])
qed

text \<open>
  C20: pushing data onto a well-formed script yields a well-formed script whose items are the old
  ones followed by exactly that push, for each of the four push encodings; a push above the limit
  is an error.
\<close>

theorem push_data_roundtrip:
  assumes "validate s = Ok ()"
  shows "case push_data s d of
      Ok s' \<Rightarrow> length d \<le> MAX_PUSH_SIZE \<and> validate s' = Ok () \<and> script_items s' = script_items s @ [PushData d]
    | Err e \<Rightarrow> MAX_PUSH_SIZE < length d \<and> e = PushTooLarge (length d)"
proof (cases "length d \<le> MAX_PUSH_SIZE")
  case True
  then have "push_data s d = Ok (s @ push_prefix (length d) @ d)" by (rule push_data_Ok)
  then show ?thesis using True push_data_items [OF assms] by simp
next
  case False
  then show ?thesis by (simp add: push_data_Err)
qed

theorem push_data_roundtrip_witness:
  "case push_data [0x76] [1, 2, 3] of
      Ok s' \<Rightarrow> validate s' = Ok () \<and> script_items s' = script_items [0x76] @ [PushData [1, 2, 3]]
    | Err e \<Rightarrow> False"
proof -
  have "validate [0x76] = Ok ()" by code_simp
  from push_data_roundtrip [OF this, of "[1, 2, 3]"] show ?thesis
    by (simp add: push_data_Ok MAX_PUSH_SIZE_def)
qed

end
