(* ===== verification/ScriptNum.thy ===== *)
theory ScriptNum
  imports Script
begin

text \<open>
  Truth values and sign-magnitude script numbers of \<open>vtorrent-script/src/engine.rs\<close>
  (\<open>is_true\<close>, \<open>bool_to_bytes\<close>, \<open>decode_script_num\<close>, \<open>int_to_bytes\<close>, \<open>push_arith_result\<close>).
  An \<open>i64\<close> is an \<open>int\<close>; the operations that could leave its range are the checked ones, and
  \<open>checked_i64\<close> writes their range test out.
\<close>

unbundle bit_operations_syntax

definition MAX_ARITH_NUM_LEN :: nat where "MAX_ARITH_NUM_LEN = 4"

section \<open>Definitions\<close>

fun is_true :: "bytes \<Rightarrow> bool" where
  "is_true [] = False"
| "is_true [b] = (b AND 0x7f \<noteq> 0)"
| "is_true (b # bs) = (b \<noteq> 0 \<or> is_true bs)"

definition bool_to_bytes :: "bool \<Rightarrow> bytes" where
  "bool_to_bytes b = (if b then [1] else [])"

text \<open>The accumulation loop of \<open>decode_script_num\<close>, at the width of its \<open>u64\<close> accumulator.\<close>

fun num_magnitude :: "nat \<Rightarrow> bytes \<Rightarrow> u64 \<Rightarrow> u64" where
  "num_magnitude i [] m = m"
| "num_magnitude i [b] m = m OR push_bit (8 * i) (ucast (b AND 0x7f))"
| "num_magnitude i (b # bs) m = num_magnitude (Suc i) bs (m OR push_bit (8 * i) (ucast b))"

definition decode_script_num :: "bytes \<Rightarrow> nat \<Rightarrow> int sresult" where
  "decode_script_num bs max_len =
     (if bs = [] then Ok 0
      else if length bs > max_len then Err InvalidScriptNumber
      else let m = num_magnitude 0 bs 0; negative = (last bs AND 0x80 \<noteq> 0) in
        if m > 0x7fffffffffffffff then Err InvalidScriptNumber
        else Ok (if negative then - uint m else uint m))"

function abs_bytes :: "nat \<Rightarrow> bytes" where
  "abs_bytes a = (if a = 0 then [] else of_nat (a mod 256) # abs_bytes (a div 256))"
  by pat_completeness auto
termination
  by (relation "measure id") auto

declare abs_bytes.simps [simp del]

definition int_to_bytes :: "int \<Rightarrow> bytes" where
  "int_to_bytes n =
     (if n = 0 then []
      else let negative = n < 0; r = abs_bytes (nat \<bar>n\<bar>) in
        if last r AND 0x80 \<noteq> 0 then r @ [if negative then 0x80 else 0x00]
        else if negative then butlast r @ [last r OR 0x80]
        else r)"

definition checked_i64 :: "int \<Rightarrow> int option" where
  "checked_i64 z = (if - (2 ^ 63) \<le> z \<and> z < 2 ^ 63 then Some z else None)"

text \<open>Rust division and remainder truncate towards zero; a zero divisor is \<open>None\<close>.\<close>

definition checked_div :: "int \<Rightarrow> int \<Rightarrow> int option" where
  "checked_div a b = (if b = 0 then None else checked_i64 (sgn a * sgn b * (\<bar>a\<bar> div \<bar>b\<bar>)))"

definition checked_rem :: "int \<Rightarrow> int \<Rightarrow> int option" where
  "checked_rem a b =
     (if b = 0 \<or> checked_div a b = None then None else Some (sgn a * (\<bar>a\<bar> mod \<bar>b\<bar>)))"

definition push_arith_result :: "bytes list \<Rightarrow> int option \<Rightarrow> bytes list sresult" where
  "push_arith_result st v =
     (case v of None \<Rightarrow> Err InvalidScriptNumber
      | Some n \<Rightarrow> let bs = int_to_bytes n in
          if length bs > MAX_ARITH_NUM_LEN then Err InvalidScriptNumber else Ok (bs # st))"

section \<open>The magnitude loop computes the little-endian value\<close>

definition clear_sign :: "bytes \<Rightarrow> bytes" where
  "clear_sign bs = (if bs = [] then [] else butlast bs @ [last bs AND 0x7f])"

lemma clear_sign_simps [simp]:
  "clear_sign [] = []" "clear_sign [b] = [b AND 0x7f]"
  "bs \<noteq> [] \<Longrightarrow> clear_sign (b # bs) = b # clear_sign bs"
  by (auto simp: clear_sign_def)

lemma length_clear_sign [simp]: "length (clear_sign bs) = length bs"
  by (cases bs) (auto simp: clear_sign_def)

lemma or_push_bit_uint:
  fixes m w :: u64
  assumes "uint m < 2 ^ k" and "uint w * 2 ^ k < 2 ^ 64"
  shows "uint (m OR push_bit k w) = uint m + uint w * 2 ^ k"
proof -
  have "uint (push_bit k w) = uint w * 2 ^ k"
    using assms(2)
    by (simp add: unsigned_push_bit_eq take_bit_int_eq_self push_bit_nonnegative_int_iff)
      (simp add: push_bit_eq_mult take_bit_int_eq_self)
  moreover have "uint m OR push_bit k (uint w) = uint m + push_bit k (uint w)"
    using concat_bit_eq [of k "uint m" "uint w"] assms(1)
    by (simp add: concat_bit_def take_bit_int_eq_self)
  ultimately show ?thesis
    by (simp add: unsigned_or_eq push_bit_eq_mult)
qed

lemma uint_byte_lt: "uint (b :: byte) < 256"
  using unsigned_less [where 'b = 8 and 'a = int, of b] by simp

lemma uint_ucast_byte: "uint (ucast (b :: byte) :: u64) = int (unat b)"
  by (simp add: unsigned_ucast_eq take_bit_int_eq_self order.strict_trans2 [OF uint_byte_lt])


lemma uint_num_magnitude:
  assumes "uint m < 256 ^ i" and "i + length bs \<le> 8"
  shows "uint (num_magnitude i bs m) = uint m + 256 ^ i * int (le_value (clear_sign bs))"
  using assms
proof (induction i bs m rule: num_magnitude.induct)
  case (1 i m)
  then show ?case by simp
next
  case (2 i b m)
  have "uint (ucast (b AND 0x7f) :: u64) * 2 ^ (8 * i) < 2 ^ 64"
  proof -
    have "uint (ucast (b AND 0x7f) :: u64) * 2 ^ (8 * i) < 256 * 256 ^ i"
      using uint_byte_lt [of "b AND 0x7f"] by (simp add: uint_ucast_byte power_mult)
    also have "\<dots> \<le> 256 ^ 8"
      using 2(2) power_increasing [of "Suc i" 8 "256::int"] by simp
    finally show ?thesis by simp
  qed
  with 2(1) show ?case
    by (simp add: or_push_bit_uint power_mult uint_ucast_byte)
next
  case (3 i b c bs m)
  let ?m = "m OR push_bit (8 * i) (ucast b)"
  have le: "256 * 256 ^ i \<le> (256 :: int) ^ 8"
    using 3(3) power_increasing [of "Suc i" 8 "256::int"] by simp
  have "uint (ucast b :: u64) * 2 ^ (8 * i) < 256 * 256 ^ i"
    using uint_byte_lt [of b] by (simp add: uint_ucast_byte power_mult)
  with le have "uint (ucast b :: u64) * 2 ^ (8 * i) < 2 ^ 64" by simp
  with 3(2) have m: "uint ?m = uint m + int (unat b) * 256 ^ i"
    by (simp add: or_push_bit_uint power_mult uint_ucast_byte)
  have "int (unat b) + 1 \<le> 256" using unat_byte_lt [of b] by linarith
  then have "(int (unat b) + 1) * 256 ^ i \<le> 256 * 256 ^ i"
    by (rule mult_right_mono) simp
  then have "int (unat b) * 256 ^ i + 256 ^ i \<le> 256 ^ Suc i"
    by (simp only: distrib_right mult_1_left power_Suc)
  with 3(2) have "uint ?m < 256 ^ Suc i" unfolding m by linarith
  from 3(1) [OF this] 3(3) m show ?case
    by (simp add: algebra_simps)
qed

lemma double_digit_bound:
  "u \<le> 255 \<Longrightarrow> v + 1 \<le> 128 * x \<Longrightarrow> 2 * (u + 256 * v) < 256 * (256 * x)" for u v x :: nat
proof -
  assume u: "u \<le> 255" and v: "v + 1 \<le> 128 * x"
  from u have "2 * (u + 256 * v) < 512 * (v + 1)" by simp
  also from v have "512 * (v + 1) \<le> 512 * (128 * x)" by (rule mult_le_mono2)
  finally show ?thesis by simp
qed

lemma le_value_clear_sign:
  "bs \<noteq> [] \<Longrightarrow> 2 * le_value (clear_sign bs) < 256 ^ length bs"
proof (induction bs rule: list_nonempty_induct)
  case (single b)
  have "unat (b AND 0x7f) \<le> unat (0x7f :: byte)"
    by (rule word_and_le1 [THEN word_le_nat_alt [THEN iffD1]])
  then show ?case by simp
next
  case (cons b bs)
  then obtain k where k: "length bs = Suc k" by (cases "length bs") auto
  have "unat b \<le> 255" using unat_byte_lt [of b] by linarith
  moreover have "le_value (clear_sign bs) + 1 \<le> 128 * 256 ^ k"
    using cons.IH by (simp add: k)
  ultimately have "2 * (unat b + 256 * le_value (clear_sign bs)) < 256 * (256 * 256 ^ k)"
    by (rule double_digit_bound)
  then have "2 * (unat b + 256 * le_value (clear_sign bs)) < 256 * 256 ^ length bs"
    by (simp only: k power_Suc)
  with cons show ?case by simp
qed

definition script_num_value :: "bytes \<Rightarrow> int" where
  "script_num_value bs =
     (if bs \<noteq> [] \<and> last bs AND 0x80 \<noteq> 0 then - int (le_value (clear_sign bs))
      else int (le_value (clear_sign bs)))"

text \<open>The decoder accepts every string within the limit and reads its sign-magnitude value.\<close>

lemma decode_script_num_eq:
  assumes "max_len \<le> 8"
  shows "decode_script_num bs max_len =
     (if length bs > max_len then Err InvalidScriptNumber else Ok (script_num_value bs))"
proof (cases "bs = [] \<or> length bs > max_len")
  case True
  then show ?thesis by (auto simp: decode_script_num_def script_num_value_def)
next
  case False
  with assms have m: "uint (num_magnitude 0 bs 0) = int (le_value (clear_sign bs))"
    by (subst uint_num_magnitude) auto
  have "(256::nat) ^ length bs \<le> 256 ^ 8"
    using False assms by (intro power_increasing) auto
  with le_value_clear_sign [of bs] False have "le_value (clear_sign bs) < 2 ^ 63" by simp
  with m have "\<not> num_magnitude 0 bs 0 > 0x7fffffffffffffff"
    by (simp add: word_less_alt not_less)
  with False m show ?thesis
    by (simp add: decode_script_num_def script_num_value_def Let_def)
qed

lemma script_num_value_bound:
  assumes "length bs \<le> k" "0 < k"
  shows "\<bar>script_num_value bs\<bar> < 2 ^ (8 * k - 1)"
proof (cases "bs = []")
  case True
  then show ?thesis by (simp add: script_num_value_def)
next
  case False
  from assms(2) obtain j where k: "k = Suc j" by (cases k) auto
  have "2 * le_value (clear_sign bs) < 256 ^ length bs"
    using False by (rule le_value_clear_sign)
  also have "\<dots> \<le> 256 ^ k" using assms by (intro power_increasing) auto
  also have "(256::nat) ^ k = 2 * 2 ^ (8 * k - 1)"
    by (simp add: k power_add power_mult)
  finally have "le_value (clear_sign bs) < 2 ^ (8 * k - 1)" by simp
  then have "int (le_value (clear_sign bs)) < 2 ^ (8 * k - 1)"
    by (metis of_nat_less_iff of_nat_numeral of_nat_power)
  then show ?thesis by (simp add: script_num_value_def)
qed


section \<open>Encoding\<close>

lemma abs_bytes_0 [simp]: "abs_bytes 0 = []"
  by (simp add: abs_bytes.simps)

lemma le_value_abs_bytes: "le_value (abs_bytes a) = a"
  by (induction a rule: abs_bytes.induct) (subst abs_bytes.simps, auto)

lemma abs_bytes_eq_Nil [simp]: "abs_bytes a = [] \<longleftrightarrow> a = 0"
  by (subst abs_bytes.simps) simp

lemma length_abs_bytes: "length (abs_bytes a) \<le> k \<longleftrightarrow> a < 256 ^ k"
proof (induction a arbitrary: k rule: abs_bytes.induct)
  case (1 a)
  show ?case
  proof (cases "a = 0")
    case False
    show ?thesis
    proof (cases k)
      case 0
      with False show ?thesis by simp
    next
      case (Suc j)
      from "1.IH" [OF False, of j] have "length (abs_bytes a) \<le> Suc j \<longleftrightarrow> a div 256 < 256 ^ j"
        using False by (subst abs_bytes.simps) simp
      also have "\<dots> \<longleftrightarrow> a < 256 ^ Suc j"
        by (simp add: div_less_iff_less_mult mult.commute)
      finally show ?thesis by (simp add: Suc)
    qed
  qed simp
qed

lemma byte_sign_bits:
  fixes b :: byte
  shows "(b OR 0x80) AND 0x7f = b AND 0x7f" "(b OR 0x80) AND 0x80 = 0x80"
proof -
  have "(b OR 0x80) AND 0x7f = (b AND 0x7f) OR ((0x80 :: byte) AND 0x7f)"
    by (rule bit.conj_disj_distrib2)
  then show "(b OR 0x80) AND 0x7f = b AND 0x7f" by simp
  show "(b OR 0x80) AND 0x80 = 0x80"
    by (simp add: bit.conj_disj_distrib2)
qed

lemma byte_clear_sign:
  fixes b :: byte
  assumes "b AND 0x80 = 0"
  shows "b AND 0x7f = b"
proof -
  have "(0x7f :: byte) OR 0x80 = -1" by code_simp
  then have "b = b AND (0x7f OR 0x80)" by (simp only: bit.conj_one_right)
  also have "\<dots> = (b AND 0x7f) OR (b AND 0x80)"
    by (rule bit.conj_disj_distrib)
  finally show ?thesis using assms by simp
qed


lemma byte_no_sign:
  fixes b :: byte
  assumes "unat b < 128"
  shows "b AND 0x80 = 0"
proof -
  have "\<not> bit (unat b) 7" using assms by (simp add: bit_iff_odd)
  then have "\<not> bit b 7" by (simp add: bit_unsigned_iff)
  then have "b AND 2 ^ 7 = 0" by (simp only: and_exp_eq_0_iff_not_bit not_False_eq_True)
  then show ?thesis by simp
qed

lemma last_snoc_clear: "clear_sign (r @ [b]) = r @ [b AND 0x7f]"
  by (simp add: clear_sign_def)

lemma le_value_snoc_0 [simp]: "le_value (r @ [0]) = le_value r"
  by (induction r) auto

text \<open>The encoder is the right inverse of the decoder's value function.\<close>

lemma script_num_value_int_to_bytes: "script_num_value (int_to_bytes n) = n"
proof (cases "n = 0")
  case True
  then show ?thesis by (simp add: int_to_bytes_def script_num_value_def)
next
  case False
  define r where "r = abs_bytes (nat \<bar>n\<bar>)"
  have ne: "r \<noteq> []" and val: "int (le_value r) = \<bar>n\<bar>"
    using False by (simp_all add: r_def le_value_abs_bytes)
  have enc: "int_to_bytes n =
      (if last r AND 0x80 \<noteq> 0 then r @ [if n < 0 then 0x80 else 0x00]
       else if n < 0 then butlast r @ [last r OR 0x80] else r)"
    using False by (simp add: int_to_bytes_def Let_def r_def)
  show ?thesis
  proof (cases "last r AND 0x80 = 0")
    case False
    then show ?thesis
      using val by (simp add: enc script_num_value_def last_snoc_clear)
  next
    case True
    then have clr: "last r AND 0x7f = last r" by (rule byte_clear_sign)
    then have "clear_sign r = r"
      using ne by (simp add: clear_sign_def)
    moreover have "clear_sign (butlast r @ [last r OR 0x80]) = r"
      using clr ne by (simp add: last_snoc_clear byte_sign_bits)
    ultimately show ?thesis
      using val True ne by (simp add: enc script_num_value_def byte_sign_bits)
  qed
qed

lemma length_int_to_bytes_abs:
  "length (int_to_bytes n) \<le> length (abs_bytes (nat \<bar>n\<bar>)) +
     (if last (abs_bytes (nat \<bar>n\<bar>)) AND 0x80 = 0 then 0 else 1)"
proof (cases "n = 0")
  case False
  define r where "r = abs_bytes (nat \<bar>n\<bar>)"
  then have "r \<noteq> []" using False by simp
  moreover have "int_to_bytes n =
      (if last r AND 0x80 \<noteq> 0 then r @ [if n < 0 then 0x80 else 0x00]
       else if n < 0 then butlast r @ [last r OR 0x80] else r)"
    using False by (simp add: int_to_bytes_def Let_def r_def)
  ultimately show ?thesis by (simp flip: r_def)
qed (simp add: int_to_bytes_def)

lemma length_int_to_bytes:
  assumes "0 < k"
  shows "length (int_to_bytes n) \<le> k \<longleftrightarrow> \<bar>n\<bar> < 2 ^ (8 * k - 1)"
proof
  assume "length (int_to_bytes n) \<le> k"
  with assms show "\<bar>n\<bar> < 2 ^ (8 * k - 1)"
    using script_num_value_bound [of "int_to_bytes n" k]
    by (simp add: script_num_value_int_to_bytes)
next
  assume small: "\<bar>n\<bar> < 2 ^ (8 * k - 1)"
  let ?r = "abs_bytes (nat \<bar>n\<bar>)"
  obtain j where k: "k = Suc j" using assms by (cases k) auto
  have pow: "(2::int) ^ (8 * k - 1) = 128 * 256 ^ j"
    by (simp add: k power_add power_mult)
  then have a: "nat \<bar>n\<bar> < 128 * 256 ^ j"
    using small by (simp add: nat_less_iff)
  have len: "length ?r \<le> Suc j"
    using a by (simp add: length_abs_bytes)
  have "last ?r AND 0x80 = 0" if full: "length ?r = Suc j"
  proof -
    have ne: "?r \<noteq> []" using full by auto
    have "nat \<bar>n\<bar> = le_value (butlast ?r @ [last ?r])"
      using ne by (simp add: le_value_abs_bytes)
    also have "\<dots> \<ge> 256 ^ j * unat (last ?r)"
    proof -
      have "le_value (xs @ [b]) = le_value xs + 256 ^ length xs * unat b" for xs b
        by (induction xs) (auto simp: algebra_simps)
      then show ?thesis using full by simp
    qed
    finally have "256 ^ j * unat (last ?r) < 128 * 256 ^ j" using a by (rule order.strict_trans1)
    then have "unat (last ?r) < 128" by (simp add: mult.commute)
    then show ?thesis by (rule byte_no_sign)
  qed
  moreover have "length (int_to_bytes n) \<le> length ?r + (if last ?r AND 0x80 = 0 then 0 else 1)"
    by (rule length_int_to_bytes_abs)
  ultimately show "length (int_to_bytes n) \<le> k"
    using len k by (cases "length ?r = Suc j") (simp_all split: if_splits)
qed

text \<open>
  C21: a script number written by the encoder is read back unchanged by the decoder, for every
  width \<open>k\<close> up to eight bytes and every integer whose magnitude fits \<open>8k - 1\<close> bits.
\<close>

theorem decode_int_to_bytes:
  assumes "0 < k" "k \<le> 8" "\<bar>n\<bar> < 2 ^ (8 * k - 1)"
  shows "decode_script_num (int_to_bytes n) k = Ok n"
  using assms length_int_to_bytes [OF assms(1), of n]
  by (simp add: decode_script_num_eq script_num_value_int_to_bytes)

theorem decode_int_to_bytes_witness: "decode_script_num (int_to_bytes (-255)) 4 = Ok (-255)"
  by (rule decode_int_to_bytes) simp_all

lemma is_true_iff_value: "is_true bs \<longleftrightarrow> script_num_value bs \<noteq> 0"
proof -
  have "is_true bs \<longleftrightarrow> le_value (clear_sign bs) \<noteq> 0"
    by (induction bs rule: is_true.induct) (auto simp: unat_eq_0)
  then show ?thesis by (simp add: script_num_value_def)
qed

text \<open>
  Pushing an arithmetic result succeeds exactly when it fits a 4-byte script number, and the
  pushed operand reads back as that number.
\<close>

lemma push_arith_result_Some:
  "push_arith_result st (Some n) =
     (if \<bar>n\<bar> < 2 ^ 31 then Ok (int_to_bytes n # st) else Err InvalidScriptNumber)"
  using length_int_to_bytes [of 4 n] by (auto simp: push_arith_result_def MAX_ARITH_NUM_LEN_def)

end
