(* ===== verification/Engine.thy ===== *)
theory Engine
  imports ScriptNum
begin

text \<open>
  The script interpreter of \<open>vtorrent-script/src/engine.rs\<close>. The main and alternative stacks are
  lists with the top of the \<open>Vec\<close> first, so \<open>stack[len - 1 - n]\<close> is \<open>stack ! n\<close>. Every opcode of
  the interpreter's match has one definition; the tables \<open>stack_ops\<close> \dots \<open>env_ops\<close> are the match
  arms that act only when \<open>executing\<close> holds, \<open>exec_flow\<close> the arms that act regardless.
  Hash functions and ECDSA come from third-party crates and are the fields of \<open>crypto\<close>.
\<close>

section \<open>State\<close>

record ('sig, 'pk) crypto =
  sha256 :: "bytes \<Rightarrow> bytes"
  sha1 :: "bytes \<Rightarrow> bytes"
  ripemd160 :: "bytes \<Rightarrow> bytes"
  sig_from_der :: "bytes \<Rightarrow> 'sig option"
  pk_from_slice :: "bytes \<Rightarrow> 'pk option"
  verify_ecdsa :: "bytes \<Rightarrow> 'sig \<Rightarrow> 'pk \<Rightarrow> bool"

definition hash160 :: "('sig, 'pk, 'x) crypto_scheme \<Rightarrow> bytes \<Rightarrow> bytes" where
  "hash160 cr x = ripemd160 cr (sha256 cr x)"

definition sha256d :: "('sig, 'pk, 'x) crypto_scheme \<Rightarrow> bytes \<Rightarrow> bytes" where
  "sha256d cr x = sha256 cr (sha256 cr x)"

record script_env =
  tx_hash :: bytes
  block_height :: u32
  block_time :: u32
  tx_lock_time :: u32
  input_sequence :: u32
  utxo_height :: u32
  utxo_timestamp :: u32

type_synonym vstack = "bytes list"

record engine =
  stack :: vstack
  alt_stack :: vstack
  env :: script_env

definition MAX_STACK_DEPTH :: nat where "MAX_STACK_DEPTH = 1000"
definition MAX_SCRIPT_EXEC_STEPS :: nat where "MAX_SCRIPT_EXEC_STEPS = 200"

definition new_engine :: "script_env \<Rightarrow> engine" where
  "new_engine ev = \<lparr>stack = [], alt_stack = [], env = ev\<rparr>"

section \<open>Stack opcodes\<close>

fun op_dup :: "vstack \<Rightarrow> vstack sresult" where
  "op_dup (x # st) = Ok (x # x # st)"
| "op_dup [] = Err EmptyStack"

fun op_drop :: "vstack \<Rightarrow> vstack sresult" where
  "op_drop (x # st) = Ok st"
| "op_drop [] = Err EmptyStack"

fun op_swap :: "vstack \<Rightarrow> vstack sresult" where
  "op_swap (y # x # st) = Ok (x # y # st)"
| "op_swap _ = Err EmptyStack"

fun op_over :: "vstack \<Rightarrow> vstack sresult" where
  "op_over (y # x # st) = Ok (x # y # x # st)"
| "op_over _ = Err EmptyStack"

fun op_rot :: "vstack \<Rightarrow> vstack sresult" where
  "op_rot (z # y # x # st) = Ok (x # z # y # st)"
| "op_rot _ = Err EmptyStack"

fun op_2dup :: "vstack \<Rightarrow> vstack sresult" where
  "op_2dup (y # x # st) = Ok (y # x # y # x # st)"
| "op_2dup _ = Err EmptyStack"

fun op_2drop :: "vstack \<Rightarrow> vstack sresult" where
  "op_2drop (y # x # st) = Ok st"
| "op_2drop _ = Err EmptyStack"

fun op_ifdup :: "vstack \<Rightarrow> vstack sresult" where
  "op_ifdup (x # st) = Ok (if is_true x then x # x # st else x # st)"
| "op_ifdup [] = Err EmptyStack"

fun op_3dup :: "vstack \<Rightarrow> vstack sresult" where
  "op_3dup (z # y # x # st) = Ok (z # y # x # z # y # x # st)"
| "op_3dup _ = Err EmptyStack"

fun op_2over :: "vstack \<Rightarrow> vstack sresult" where
  "op_2over (d # c # b # a # st) = Ok (b # a # d # c # b # a # st)"
| "op_2over _ = Err EmptyStack"

fun op_2rot :: "vstack \<Rightarrow> vstack sresult" where
  "op_2rot (f # e # d # c # b # a # st) = Ok (b # a # f # e # d # c # st)"
| "op_2rot _ = Err EmptyStack"

fun op_2swap :: "vstack \<Rightarrow> vstack sresult" where
  "op_2swap (d # c # b # a # st) = Ok (b # a # d # c # st)"
| "op_2swap _ = Err EmptyStack"

definition op_depth :: "vstack \<Rightarrow> vstack sresult" where
  "op_depth st = Ok (int_to_bytes (int (length st)) # st)"

fun op_nip :: "vstack \<Rightarrow> vstack sresult" where
  "op_nip (y # x # st) = Ok (y # st)"
| "op_nip _ = Err EmptyStack"

fun op_tuck :: "vstack \<Rightarrow> vstack sresult" where
  "op_tuck (y # x # st) = Ok (y # x # y # st)"
| "op_tuck _ = Err EmptyStack"

text \<open>Pop the top item and read it as an arithmetic operand.\<close>

fun pop_num :: "vstack \<Rightarrow> (int \<times> vstack) sresult" where
  "pop_num [] = Err EmptyStack"
| "pop_num (x # st) = res_bind (decode_script_num x MAX_ARITH_NUM_LEN) (\<lambda>n. Ok (n, st))"

definition op_roll :: "vstack \<Rightarrow> vstack sresult" where
  "op_roll st0 = res_bind (pop_num st0) (\<lambda>(n, st).
     if n < 0 \<or> nat n \<ge> length st then Err InvalidScriptNumber
     else Ok (st ! nat n # take (nat n) st @ drop (Suc (nat n)) st))"

definition op_pick :: "vstack \<Rightarrow> vstack sresult" where
  "op_pick st0 = res_bind (pop_num st0) (\<lambda>(n, st).
     if n < 0 \<or> nat n \<ge> length st then Err InvalidScriptNumber
     else Ok (st ! nat n # st))"

fun op_verify :: "vstack \<Rightarrow> vstack sresult" where
  "op_verify (x # st) = (if is_true x then Ok st else Err VerifyFailed)"
| "op_verify [] = Err EmptyStack"

definition stack_ops :: "byte \<Rightarrow> (vstack \<Rightarrow> vstack sresult) option" where
  "stack_ops op =
     (if op = 0x69 then Some op_verify
      else if op = 0x76 then Some op_dup
      else if op = 0x75 then Some op_drop
      else if op = 0x7c then Some op_swap
      else if op = 0x79 then Some op_over
      else if op = 0x7b then Some op_rot
      else if op = 0x6e then Some op_2dup
      else if op = 0x6d then Some op_2drop
      else if op = 0x73 then Some op_ifdup
      else if op = 0x6f then Some op_3dup
      else if op = 0x70 then Some op_2over
      else if op = 0x71 then Some op_2rot
      else if op = 0x72 then Some op_2swap
      else if op = 0x74 then Some op_depth
      else if op = 0x77 then Some op_nip
      else if op = 0x7a then Some op_roll
      else if op = 0x78 then Some op_pick
      else if op = 0x7d then Some op_tuck
      else None)"

section \<open>Equality and hashing\<close>

fun op_equal :: "vstack \<Rightarrow> vstack sresult" where
  "op_equal (b # a # st) = Ok (bool_to_bytes (a = b) # st)"
| "op_equal _ = Err EmptyStack"

fun op_equalverify :: "vstack \<Rightarrow> vstack sresult" where
  "op_equalverify (b # a # st) = (if a \<noteq> b then Err VerifyFailed else Ok st)"
| "op_equalverify _ = Err EmptyStack"

fun op_hash :: "(bytes \<Rightarrow> bytes) \<Rightarrow> vstack \<Rightarrow> vstack sresult" where
  "op_hash h (x # st) = Ok (h x # st)"
| "op_hash h [] = Err EmptyStack"

definition hash_ops ::
  "('sig, 'pk, 'x) crypto_scheme \<Rightarrow> byte \<Rightarrow> (vstack \<Rightarrow> vstack sresult) option" where
  "hash_ops cr op =
     (if op = 0x87 then Some op_equal
      else if op = 0x88 then Some op_equalverify
      else if op = 0xa7 then Some (op_hash (sha1 cr))
      else if op = 0xa8 then Some (op_hash (sha256 cr))
      else if op = 0xa9 then Some (op_hash (hash160 cr))
      else if op = 0xaa then Some (op_hash (sha256d cr))
      else if op = 0xa6 then Some (op_hash (ripemd160 cr))
      else None)"

section \<open>Arithmetic\<close>

text \<open>The operand order of the source: \<open>b\<close> is popped and decoded before \<open>a\<close>.\<close>

definition pop_num2 :: "vstack \<Rightarrow> (int \<times> int \<times> vstack) sresult" where
  "pop_num2 st0 = res_bind (pop_num st0) (\<lambda>(b, st1).
     res_bind (pop_num st1) (\<lambda>(a, st2). Ok (a, b, st2)))"

definition op_arith2 :: "(int \<Rightarrow> int \<Rightarrow> int option) \<Rightarrow> vstack \<Rightarrow> vstack sresult" where
  "op_arith2 f st0 = res_bind (pop_num2 st0) (\<lambda>(a, b, st). push_arith_result st (f a b))"

definition op_arith1 :: "(int \<Rightarrow> int option) \<Rightarrow> vstack \<Rightarrow> vstack sresult" where
  "op_arith1 f st0 = res_bind (pop_num st0) (\<lambda>(a, st). push_arith_result st (f a))"

definition op_num2 :: "(int \<Rightarrow> int \<Rightarrow> bytes) \<Rightarrow> vstack \<Rightarrow> vstack sresult" where
  "op_num2 f st0 = res_bind (pop_num2 st0) (\<lambda>(a, b, st). Ok (f a b # st))"

definition op_numequalverify :: "vstack \<Rightarrow> vstack sresult" where
  "op_numequalverify st0 = res_bind (pop_num2 st0) (\<lambda>(a, b, st).
     if a \<noteq> b then Err VerifyFailed else Ok st)"

fun op_not :: "vstack \<Rightarrow> vstack sresult" where
  "op_not (x # st) = Ok (bool_to_bytes (\<not> is_true x) # st)"
| "op_not [] = Err EmptyStack"

definition op_0notequal :: "vstack \<Rightarrow> vstack sresult" where
  "op_0notequal st0 = res_bind (pop_num st0) (\<lambda>(n, st). Ok (bool_to_bytes (n \<noteq> 0) # st))"

fun op_bool2 :: "(bool \<Rightarrow> bool \<Rightarrow> bool) \<Rightarrow> vstack \<Rightarrow> vstack sresult" where
  "op_bool2 f (b # a # st) = Ok (bool_to_bytes (f (is_true a) (is_true b)) # st)"
| "op_bool2 f _ = Err EmptyStack"

definition op_within :: "vstack \<Rightarrow> vstack sresult" where
  "op_within st0 = res_bind (pop_num st0) (\<lambda>(mx, st1). res_bind (pop_num st1) (\<lambda>(mn, st2).
     res_bind (pop_num st2) (\<lambda>(x, st3). Ok (bool_to_bytes (x \<ge> mn \<and> x < mx) # st3))))"

definition arith_ops :: "byte \<Rightarrow> (vstack \<Rightarrow> vstack sresult) option" where
  "arith_ops op =
     (if op = 0x93 then Some (op_arith2 (\<lambda>a b. checked_i64 (a + b)))
      else if op = 0x94 then Some (op_arith2 (\<lambda>a b. checked_i64 (a - b)))
      else if op = 0x95 then Some (op_arith2 (\<lambda>a b. checked_i64 (a * b)))
      else if op = 0x96 then Some (op_arith2 checked_div)
      else if op = 0x97 then Some (op_arith2 checked_rem)
      else if op = 0x8b then Some (op_arith1 (\<lambda>a. checked_i64 (a + 1)))
      else if op = 0x8c then Some (op_arith1 (\<lambda>a. checked_i64 (a - 1)))
      else if op = 0x8f then Some (op_arith1 (\<lambda>a. checked_i64 (- a)))
      else if op = 0x90 then Some (op_arith1 (\<lambda>a. checked_i64 \<bar>a\<bar>))
      else if op = 0x91 then Some op_not
      else if op = 0x92 then Some op_0notequal
      else None)"

definition compare_ops :: "byte \<Rightarrow> (vstack \<Rightarrow> vstack sresult) option" where
  "compare_ops op =
     (if op = 0x9a then Some (op_bool2 (\<and>))
      else if op = 0x9b then Some (op_bool2 (\<or>))
      else if op = 0x9c then Some (op_num2 (\<lambda>a b. bool_to_bytes (a = b)))
      else if op = 0x9d then Some op_numequalverify
      else if op = 0x9e then Some (op_num2 (\<lambda>a b. bool_to_bytes (a \<noteq> b)))
      else if op = 0x9f then Some (op_num2 (\<lambda>a b. bool_to_bytes (a < b)))
      else if op = 0xa0 then Some (op_num2 (\<lambda>a b. bool_to_bytes (a > b)))
      else if op = 0xa1 then Some (op_num2 (\<lambda>a b. bool_to_bytes (a \<le> b)))
      else if op = 0xa2 then Some (op_num2 (\<lambda>a b. bool_to_bytes (a \<ge> b)))
      else if op = 0xa3 then Some (op_num2 (\<lambda>a b. int_to_bytes (min a b)))
      else if op = 0xa4 then Some (op_num2 (\<lambda>a b. int_to_bytes (max a b)))
      else if op = 0xa5 then Some op_within
      else None)"

section \<open>Constants and size\<close>

definition op_push :: "bytes \<Rightarrow> vstack \<Rightarrow> vstack sresult" where
  "op_push x st = Ok (x # st)"

fun op_size :: "vstack \<Rightarrow> vstack sresult" where
  "op_size (x # st) = Ok (int_to_bytes (int (length x)) # x # st)"
| "op_size [] = Err EmptyStack"

definition const_ops :: "byte \<Rightarrow> (vstack \<Rightarrow> vstack sresult) option" where
  "const_ops op =
     (if op = 0x00 then Some (op_push [])
      else if 0x51 \<le> op \<and> op \<le> 0x60 then Some (op_push [op - 0x50])
      else if op = 0x4f then Some (op_push [0x81])
      else if op = 0x82 then Some op_size
      else None)"


section \<open>Signatures\<close>

definition check_sig ::
  "('sig, 'pk, 'x) crypto_scheme \<Rightarrow> script_env \<Rightarrow> bytes \<Rightarrow> bytes \<Rightarrow> unit sresult" where
  "check_sig cr ev sig_bytes pubkey_bytes =
     (if sig_bytes = [] then Err InvalidSignature
      else if last sig_bytes \<noteq> 0x01 then Err InvalidSignature
      else case sig_from_der cr (butlast sig_bytes) of
        None \<Rightarrow> Err InvalidSignature
      | Some sg \<Rightarrow> (case pk_from_slice cr pubkey_bytes of
          None \<Rightarrow> Err InvalidPublicKey
        | Some pk \<Rightarrow> if verify_ecdsa cr (tx_hash ev) sg pk then Ok ()
                    else Err SignatureVerification))"

fun op_checksig :: "('sig, 'pk, 'x) crypto_scheme \<Rightarrow> script_env \<Rightarrow> vstack \<Rightarrow> vstack sresult" where
  "op_checksig cr ev (pk # sg # st) = Ok (bool_to_bytes (is_ok (check_sig cr ev sg pk)) # st)"
| "op_checksig cr ev _ = Err EmptyStack"

fun op_checksigverify ::
  "('sig, 'pk, 'x) crypto_scheme \<Rightarrow> script_env \<Rightarrow> vstack \<Rightarrow> vstack sresult" where
  "op_checksigverify cr ev (pk # sg # st) = res_bind (check_sig cr ev sg pk) (\<lambda>_. Ok st)"
| "op_checksigverify cr ev _ = Err EmptyStack"

text \<open>
  The \<open>'sig_loop\<close> of \<open>exec_checkmultisig\<close>: the second list is \<open>keys[key_idx..]\<close>, the result the
  number of matched signatures.
\<close>

fun sig_loop :: "(bytes \<Rightarrow> bytes \<Rightarrow> bool) \<Rightarrow> bytes list \<Rightarrow> bytes list \<Rightarrow> nat" where
  "sig_loop chk [] keys = 0"
| "sig_loop chk (s # sigs) [] = sig_loop chk sigs []"
| "sig_loop chk (s # sigs) (k # keys) =
     (if chk s k then Suc (sig_loop chk sigs keys) else sig_loop chk (s # sigs) keys)"

definition exec_checkmultisig ::
  "('sig, 'pk, 'x) crypto_scheme \<Rightarrow> script_env \<Rightarrow> bool \<Rightarrow> vstack \<Rightarrow> vstack sresult" where
  "exec_checkmultisig cr ev verify st0 = res_bind (pop_num st0) (\<lambda>(nk, st1).
     if nk < 0 \<or> nat nk > length st1 then Err InvalidScriptNumber
     else let n_keys = nat nk; keys = take n_keys st1; st2 = drop n_keys st1 in
     res_bind (pop_num st2) (\<lambda>(ns, st3).
       if ns < 0 \<or> nat ns > length st3 then Err InvalidScriptNumber
       else let n_sigs = nat ns; sigs = take n_sigs st3; st4 = drop 1 (drop n_sigs st3) in
       if n_sigs > n_keys then Err (MultisigKeyCount n_sigs n_keys)
       else let success = (sig_loop (\<lambda>s k. is_ok (check_sig cr ev s k)) sigs keys \<ge> n_sigs) in
       if verify \<and> \<not> success then Err SignatureVerification
       else Ok (bool_to_bytes success # st4)))"

section \<open>Time locks\<close>

definition LOCKTIME_THRESHOLD :: u32 where "LOCKTIME_THRESHOLD = 500000000"

text \<open>The checks of \<open>OP_CHECKLOCKTIMEVERIFY\<close> on the top item, which stays on the stack.\<close>

definition check_locktime :: "script_env \<Rightarrow> bytes \<Rightarrow> unit sresult" where
  "check_locktime ev item = res_bind (decode_script_num item 5) (\<lambda>lt.
     if lt < 0 then Err NegativeLocktime
     else if lt > 0xffffffff then Err UnsatisfiedLocktime
     else if lt > 0x7fffffff then Err UnsatisfiedLocktime
     else let locktime = (word_of_int lt :: u32) in
       if input_sequence ev = 0xffffffff then Err UnsatisfiedLocktime
       else let locktime_is_time = (locktime \<ge> LOCKTIME_THRESHOLD);
                tx_is_time = (tx_lock_time ev \<ge> LOCKTIME_THRESHOLD) in
       if locktime_is_time \<noteq> tx_is_time then Err UnsatisfiedLocktime
       else if tx_lock_time ev < locktime then Err HtlcLocktimeNotExpired
       else let chain_reached = (if locktime_is_time then block_time ev \<ge> locktime
                                 else block_height ev \<ge> locktime) in
       if \<not> chain_reached then Err HtlcLocktimeNotExpired else Ok ())"

definition check_sequence :: "script_env \<Rightarrow> bytes \<Rightarrow> unit sresult" where
  "check_sequence ev item = res_bind (decode_script_num item 5) (\<lambda>sq.
     if sq < 0 then Err NegativeSequence
     else if sq > 0xffffffff then Err UnsatisfiedSequence
     else let seq = (word_of_int sq :: u32) in
       if seq AND 0x80000000 \<noteq> 0 then Ok ()
       else if input_sequence ev = 0xffffffff then Err UnsatisfiedSequence
       else let seq_is_time = (seq AND 0x00400000 \<noteq> 0);
                input_is_time = (input_sequence ev AND 0x00400000 \<noteq> 0) in
       if seq_is_time \<noteq> input_is_time then Err UnsatisfiedSequence
       else let arg = seq AND 0x0000ffff; inp = input_sequence ev AND 0x0000ffff in
       if inp < arg then Err UnsatisfiedSequence
       else let age_satisfied =
         (if seq_is_time then
            let arg_secs = unat arg * 512;
                age_secs = unat (sat_sub (block_time ev) (utxo_timestamp ev))
            in unat inp * 512 \<ge> arg_secs \<and> age_secs \<ge> arg_secs
          else sat_sub (block_height ev) (utxo_height ev) \<ge> arg) in
       if \<not> age_satisfied then Err UnsatisfiedSequence else Ok ())"

fun op_check_top :: "(bytes \<Rightarrow> unit sresult) \<Rightarrow> vstack \<Rightarrow> vstack sresult" where
  "op_check_top chk (x # st) = res_bind (chk x) (\<lambda>_. Ok (x # st))"
| "op_check_top chk [] = Err EmptyStack"

definition env_ops :: "('sig, 'pk, 'x) crypto_scheme \<Rightarrow> script_env \<Rightarrow> byte \<Rightarrow>
    (vstack \<Rightarrow> vstack sresult) option" where
  "env_ops cr ev op =
     (if op = 0xac then Some (op_checksig cr ev)
      else if op = 0xad then Some (op_checksigverify cr ev)
      else if op = 0xae then Some (exec_checkmultisig cr ev False)
      else if op = 0xaf then Some (exec_checkmultisig cr ev True)
      else if op = 0xb1 then Some (op_check_top (check_locktime ev))
      else if op = 0xb2 then Some (op_check_top (check_sequence ev))
      else None)"

section \<open>Dispatch, the item loop, and execution\<close>

fun first_some :: "'a option list \<Rightarrow> 'a option" where
  "first_some [] = None"
| "first_some (Some x # xs) = Some x"
| "first_some (None # xs) = first_some xs"

definition vstack_op :: "('sig, 'pk, 'x) crypto_scheme \<Rightarrow> script_env \<Rightarrow> byte \<Rightarrow>
    (vstack \<Rightarrow> vstack sresult) option" where
  "vstack_op cr ev op =
     first_some [stack_ops op, hash_ops cr op, env_ops cr ev op, arith_ops op, compare_ops op,
       const_ops op]"

definition exec_op ::
  "('sig, 'pk, 'x) crypto_scheme \<Rightarrow> byte \<Rightarrow> engine \<Rightarrow> engine sresult" where
  "exec_op cr op e =
     (if op = 0x6b then
        (case stack e of [] \<Rightarrow> Err EmptyStack
         | x # st \<Rightarrow> Ok (e\<lparr>stack := st, alt_stack := x # alt_stack e\<rparr>))
      else if op = 0x6c then
        (case alt_stack e of [] \<Rightarrow> Err EmptyStack
         | x # alt \<Rightarrow> Ok (e\<lparr>stack := x # stack e, alt_stack := alt\<rparr>))
      else case vstack_op cr (env e) op of
        Some f \<Rightarrow> res_bind (f (stack e)) (\<lambda>st. Ok (e\<lparr>stack := st\<rparr>))
      | None \<Rightarrow> Err (InvalidOpcode op))"

text \<open>
  The loop state of \<open>run\<close>: whether the current branch executes, the enclosing values of that
  flag (innermost first), and the engine.
\<close>

type_synonym run_state = "bool \<times> bool list \<times> engine"

definition exec_if :: "bool \<Rightarrow> run_state \<Rightarrow> run_state sresult" where
  "exec_if sense s =
     (case s of (executing, ifs, e) \<Rightarrow>
       if executing then
         (case stack e of [] \<Rightarrow> Err EmptyStack
          | x # st \<Rightarrow> Ok (executing \<and> (is_true x = sense), executing # ifs, e\<lparr>stack := st\<rparr>))
       else Ok (False, executing # ifs, e))"

definition exec_flow :: "byte \<Rightarrow> run_state \<Rightarrow> run_state sresult option" where
  "exec_flow op s =
     (case s of (executing, ifs, e) \<Rightarrow>
       if op = 0x63 then Some (exec_if True s)
       else if op = 0x64 then Some (exec_if False s)
       else if op = 0x67 then
         Some (Ok ((case ifs of [] \<Rightarrow> True | p # _ \<Rightarrow> p) \<and> \<not> executing, ifs, e))
       else if op = 0x68 then
         Some (Ok ((case ifs of [] \<Rightarrow> True | p # _ \<Rightarrow> p), drop 1 ifs, e))
       else if op = 0x61 then Some (Ok s)
       else if op = 0x6a then Some (Err OpReturnUnspendable)
       else if op = 0xab then Some (Ok s)
       else None)"

definition exec_item ::
  "('sig, 'pk, 'x) crypto_scheme \<Rightarrow> script_item \<Rightarrow> run_state \<Rightarrow> run_state sresult" where
  "exec_item cr it s =
     (case s of (executing, ifs, e) \<Rightarrow>
       (case it of
          PushData d \<Rightarrow>
            if executing then
              (if length (stack e) \<ge> MAX_STACK_DEPTH then Err StackOverflow
               else Ok (executing, ifs, e\<lparr>stack := d # stack e\<rparr>))
            else Ok s
        | Opcode op \<Rightarrow>
            (case exec_flow op s of
               Some r \<Rightarrow> r
             | None \<Rightarrow> if executing
                 then res_bind (exec_op cr op e) (\<lambda>e'. Ok (executing, ifs, e'))
                 else Ok s)))"

fun run_items :: "('sig, 'pk, 'x) crypto_scheme \<Rightarrow> nat \<Rightarrow> script_item list \<Rightarrow> run_state \<Rightarrow>
    run_state sresult" where
  "run_items cr steps [] s = Ok s"
| "run_items cr steps (it # its) s =
     (if steps + 1 > MAX_SCRIPT_EXEC_STEPS then Err StackOverflow
      else res_bind (exec_item cr it s) (run_items cr (steps + 1) its))"

definition run :: "('sig, 'pk, 'x) crypto_scheme \<Rightarrow> script \<Rightarrow> engine \<Rightarrow> engine sresult" where
  "run cr script e =
     res_bind (validate script) (\<lambda>_.
     res_bind (run_items cr 0 (script_items script) (True, [], e)) (\<lambda>(executing, ifs, e').
       if ifs \<noteq> [] then Err UnbalancedConditional else Ok e'))"

definition is_p2sh :: "script \<Rightarrow> bool" where
  "is_p2sh b \<longleftrightarrow> length b = 23 \<and> b ! 0 = 0xa9 \<and> b ! 1 = 0x14 \<and> b ! 22 = 0x87"

text \<open>\<open>check_top\<close> is the test that the script pair left a true value.\<close>

definition check_top :: "engine \<Rightarrow> unit sresult" where
  "check_top e =
     (case stack e of [] \<Rightarrow> Err EmptyStack
      | x # _ \<Rightarrow> if \<not> is_true x then Err VerifyFailed else Ok ())"

definition execute :: "('sig, 'pk, 'x) crypto_scheme \<Rightarrow> engine \<Rightarrow> script \<Rightarrow> script \<Rightarrow>
    unit sresult" where
  "execute cr e0 script_sig script_pubkey =
     res_bind (run cr script_sig (e0\<lparr>stack := [], alt_stack := []\<rparr>)) (\<lambda>e1.
     res_bind (run cr script_pubkey e1) (\<lambda>e2.
     res_bind (check_top e2) (\<lambda>_.
       if is_p2sh script_pubkey then
         (case stack e1 of
            [] \<Rightarrow> Err EmptyStack
          | redeem_script_bytes # st \<Rightarrow>
              res_bind (from_bytes redeem_script_bytes) (\<lambda>redeem_script.
              res_bind (run cr redeem_script (e2\<lparr>stack := st\<rparr>)) check_top))
       else Ok ())))"

end
