(* ===== verification/EngineProps.thy ===== *)
theory EngineProps
  imports Engine "HOL-Library.Sublist"
begin

text \<open>
  General facts of the interpreter: the item loop as a bounded fold, the growth of the stacks,
  frame properties, the specification of the multi-signature matching loop, and the conditions
  that the two time-lock opcodes enforce.
\<close>

named_theorems exec_simps \<open>one interpreter step on a known item\<close>

section \<open>The loop as a fold\<close>

lemma run_items_Ok_iff:
  "run_items cr n its s = Ok s' \<longleftrightarrow>
     (its = [] \<or> n + length its \<le> MAX_SCRIPT_EXEC_STEPS) \<and> res_fold (exec_item cr) its s = Ok s'"
proof (induction its arbitrary: n s)
  case (Cons it its)
  have "run_items cr n (it # its) s = Ok s' \<longleftrightarrow>
      Suc n \<le> MAX_SCRIPT_EXEC_STEPS \<and>
      (\<exists>t. exec_item cr it s = Ok t \<and> run_items cr (Suc n) its t = Ok s')"
    by (simp add: not_less)
  then show ?case
    unfolding Cons.IH by (cases "its = []") (auto simp: neq_Nil_conv)
qed simp

lemma run_items_fold:
  "length its \<le> MAX_SCRIPT_EXEC_STEPS - n \<Longrightarrow> n \<le> MAX_SCRIPT_EXEC_STEPS \<Longrightarrow>
     run_items cr n its s = res_fold (exec_item cr) its s"
  by (induction its arbitrary: n s) (auto intro!: res_bind_cong)

lemma run_Ok_iff:
  "run cr s e = Ok e' \<longleftrightarrow>
     validate s = Ok () \<and> length (script_items s) \<le> MAX_SCRIPT_EXEC_STEPS \<and>
     (\<exists>ex. res_fold (exec_item cr) (script_items s) (True, [], e) = Ok (ex, [], e'))"
  by (auto simp: run_def run_items_Ok_iff MAX_SCRIPT_EXEC_STEPS_def split: if_splits)

section \<open>Growth of the stacks\<close>

lemma pop_num_length: "pop_num st = Ok (n, st') \<Longrightarrow> length st = Suc (length st')"
  by (cases st) auto

lemma pop_num2_length: "pop_num2 st = Ok (a, b, st') \<Longrightarrow> length st = Suc (Suc (length st'))"
  by (auto simp: pop_num2_def dest!: pop_num_length)

lemma push_arith_result_length: "push_arith_result st v = Ok st' \<Longrightarrow> length st' = Suc (length st)"
  by (auto simp: push_arith_result_def Let_def split: option.splits if_splits)

lemmas pop_lengths = pop_num_length pop_num2_length push_arith_result_length

text \<open>Each opcode that only rearranges the stack adds at most three items.\<close>

lemma op_verify_length: "op_verify st = Ok st' \<Longrightarrow> length st' \<le> length st + 3"
  by (cases st rule: op_verify.cases) (auto split: if_splits)

lemma op_dup_length: "op_dup st = Ok st' \<Longrightarrow> length st' \<le> length st + 3"
  by (cases st rule: op_dup.cases) (auto split: if_splits)

lemma op_drop_length: "op_drop st = Ok st' \<Longrightarrow> length st' \<le> length st + 3"
  by (cases st rule: op_drop.cases) (auto split: if_splits)

lemma op_swap_length: "op_swap st = Ok st' \<Longrightarrow> length st' \<le> length st + 3"
  by (cases st rule: op_swap.cases) (auto split: if_splits)

lemma op_over_length: "op_over st = Ok st' \<Longrightarrow> length st' \<le> length st + 3"
  by (cases st rule: op_over.cases) (auto split: if_splits)

lemma op_rot_length: "op_rot st = Ok st' \<Longrightarrow> length st' \<le> length st + 3"
  by (cases st rule: op_rot.cases) (auto split: if_splits)

lemma op_2dup_length: "op_2dup st = Ok st' \<Longrightarrow> length st' \<le> length st + 3"
  by (cases st rule: op_2dup.cases) (auto split: if_splits)

lemma op_2drop_length: "op_2drop st = Ok st' \<Longrightarrow> length st' \<le> length st + 3"
  by (cases st rule: op_2drop.cases) (auto split: if_splits)

lemma op_ifdup_length: "op_ifdup st = Ok st' \<Longrightarrow> length st' \<le> length st + 3"
  by (cases st rule: op_ifdup.cases) (auto split: if_splits)

lemma op_3dup_length: "op_3dup st = Ok st' \<Longrightarrow> length st' \<le> length st + 3"
  by (cases st rule: op_3dup.cases) (auto split: if_splits)

lemma op_2over_length: "op_2over st = Ok st' \<Longrightarrow> length st' \<le> length st + 3"
  by (cases st rule: op_2over.cases) (auto split: if_splits)

lemma op_2rot_length: "op_2rot st = Ok st' \<Longrightarrow> length st' \<le> length st + 3"
  by (cases st rule: op_2rot.cases) (auto split: if_splits)

lemma op_2swap_length: "op_2swap st = Ok st' \<Longrightarrow> length st' \<le> length st + 3"
  by (cases st rule: op_2swap.cases) (auto split: if_splits)

lemma op_nip_length: "op_nip st = Ok st' \<Longrightarrow> length st' \<le> length st + 3"
  by (cases st rule: op_nip.cases) (auto split: if_splits)

lemma op_tuck_length: "op_tuck st = Ok st' \<Longrightarrow> length st' \<le> length st + 3"
  by (cases st rule: op_tuck.cases) (auto split: if_splits)

lemma op_depth_length: "op_depth st = Ok st' \<Longrightarrow> length st' \<le> length st + 3"
  by (auto simp: op_depth_def)

lemma op_roll_length: "op_roll st = Ok st' \<Longrightarrow> length st' \<le> length st + 3"
  by (auto simp: op_roll_def split: if_splits dest!: pop_lengths)

lemma op_pick_length: "op_pick st = Ok st' \<Longrightarrow> length st' \<le> length st + 3"
  by (auto simp: op_pick_def split: if_splits dest!: pop_lengths)

lemmas stack_op_lengths =
  op_verify_length op_dup_length op_drop_length op_swap_length op_over_length
  op_rot_length op_2dup_length op_2drop_length op_ifdup_length op_3dup_length
  op_2over_length op_2rot_length op_2swap_length op_nip_length op_tuck_length
  op_depth_length op_roll_length op_pick_length

lemma stack_ops_growth:
  "stack_ops op = Some f \<Longrightarrow> f st = Ok st' \<Longrightarrow> length st' \<le> length st + 3"
  by (auto simp: stack_ops_def split: if_splits dest: stack_op_lengths)

lemma hash_ops_growth:
  assumes "hash_ops cr op = Some f" "f st = Ok st'"
  shows "length st' \<le> length st + 3"
proof -
  have "op_equal st = Ok st' \<Longrightarrow> ?thesis" by (cases st rule: op_equal.cases) auto
  moreover have "op_equalverify st = Ok st' \<Longrightarrow> ?thesis"
    by (cases st rule: op_equalverify.cases) (auto split: if_splits)
  moreover have "op_hash h st = Ok st' \<Longrightarrow> ?thesis" for h by (cases st) auto
  ultimately show ?thesis
    using assms by (auto simp: hash_ops_def split: if_splits)
qed

lemma exec_checkmultisig_length:
  "exec_checkmultisig cr ev v st = Ok st' \<Longrightarrow> length st' \<le> length st"
  by (auto simp: exec_checkmultisig_def Let_def split: if_splits dest!: pop_lengths)

lemma env_ops_growth:
  assumes "env_ops cr ev op = Some f" "f st = Ok st'"
  shows "length st' \<le> length st + 3"
proof -
  have "op_checksig cr ev st = Ok st' \<Longrightarrow> ?thesis" by (cases "(cr, ev, st)" rule: op_checksig.cases) auto
  moreover have "op_checksigverify cr ev st = Ok st' \<Longrightarrow> ?thesis"
    by (cases "(cr, ev, st)" rule: op_checksigverify.cases) auto
  moreover have "op_check_top g st = Ok st' \<Longrightarrow> ?thesis" for g by (cases st) auto
  ultimately show ?thesis
    using assms by (auto simp: env_ops_def split: if_splits dest: exec_checkmultisig_length)
qed

lemma arith_ops_growth:
  assumes "arith_ops op = Some f" "f st = Ok st'"
  shows "length st' \<le> length st + 3"
proof -
  have "op_arith2 g st = Ok st' \<Longrightarrow> ?thesis" for g by (auto simp: op_arith2_def dest!: pop_lengths)
  moreover have "op_arith1 g st = Ok st' \<Longrightarrow> ?thesis" for g
    by (auto simp: op_arith1_def dest!: pop_lengths)
  moreover have "op_not st = Ok st' \<Longrightarrow> ?thesis" by (cases st) auto
  moreover have "op_0notequal st = Ok st' \<Longrightarrow> ?thesis"
    by (auto simp: op_0notequal_def dest!: pop_lengths)
  ultimately show ?thesis
    using assms by (auto simp: arith_ops_def split: if_splits)
qed

lemma compare_ops_growth:
  assumes "compare_ops op = Some f" "f st = Ok st'"
  shows "length st' \<le> length st + 3"
proof -
  have "op_bool2 g st = Ok st' \<Longrightarrow> ?thesis" for g by (cases "(g, st)" rule: op_bool2.cases) auto
  moreover have "op_num2 g st = Ok st' \<Longrightarrow> ?thesis" for g
    by (auto simp: op_num2_def dest!: pop_lengths)
  moreover have "op_numequalverify st = Ok st' \<Longrightarrow> ?thesis"
    by (auto simp: op_numequalverify_def split: if_splits dest!: pop_lengths)
  moreover have "op_within st = Ok st' \<Longrightarrow> ?thesis"
    by (auto simp: op_within_def dest!: pop_lengths)
  ultimately show ?thesis
    using assms by (auto simp: compare_ops_def split: if_splits)
qed

lemma const_ops_growth:
  assumes "const_ops op = Some f" "f st = Ok st'"
  shows "length st' \<le> length st + 3"
proof -
  have "op_size st = Ok st' \<Longrightarrow> ?thesis" by (cases st) auto
  then show ?thesis
    using assms by (auto simp: const_ops_def op_push_def split: if_splits)
qed

lemma first_some_SomeD: "first_some xs = Some x \<Longrightarrow> Some x \<in> set xs"
  by (induction xs rule: first_some.induct) auto

lemma vstack_op_growth:
  assumes "vstack_op cr ev op = Some f" "f st = Ok st'"
  shows "length st' \<le> length st + 3"
  using first_some_SomeD [OF assms(1) [unfolded vstack_op_def]] assms(2)
  by (auto dest!: sym [of "Some f"] dest: stack_ops_growth hash_ops_growth env_ops_growth
      arith_ops_growth compare_ops_growth const_ops_growth)

text \<open>The number of items on both stacks.\<close>

fun run_size :: "run_state \<Rightarrow> nat" where
  "run_size (ex, ifs, e) = length (stack e) + length (alt_stack e)"

lemma exec_op_growth:
  "exec_op cr op e = Ok e' \<Longrightarrow>
     length (stack e') + length (alt_stack e') \<le> length (stack e) + length (alt_stack e) + 3"
  by (auto simp: exec_op_def split: if_splits list.splits option.splits dest: vstack_op_growth)

lemma exec_op_env: "exec_op cr op e = Ok e' \<Longrightarrow> env e' = env e"
  by (auto simp: exec_op_def split: if_splits list.splits option.splits)

lemma exec_flow_size:
  "exec_flow op (ex, ifs, e) = Some (Ok (ex', ifs', e')) \<Longrightarrow>
     length (stack e') + length (alt_stack e') \<le> length (stack e) + length (alt_stack e) \<and>
     env e' = env e"
  by (auto simp: exec_flow_def exec_if_def split: if_splits list.splits)

lemma exec_item_frame:
  assumes "exec_item cr it (ex, ifs, e) = Ok (ex', ifs', e')"
  shows "run_size (ex', ifs', e') \<le> run_size (ex, ifs, e) + 3 \<and> env e' = env e"
  using assms
  by (auto simp: exec_item_def split: script_item.splits option.splits if_splits
      dest: exec_flow_size exec_op_growth exec_op_env)

interpretation ex: res_step "exec_item cr" "\<lambda>(b, ifs, e). env e = ev" run_size 3 for cr ev
  by unfold_locales (auto dest: exec_item_frame)

lemma run_env: "run cr s e = Ok e' \<Longrightarrow> env e' = env e"
  using ex.fold_inv [of "env e" "(True, [], e)" cr "script_items s"]
  by (fastforce simp: run_Ok_iff)

lemma run_growth:
  assumes "run cr s e = Ok e'"
  shows "length (stack e') + length (alt_stack e') \<le>
    length (stack e) + length (alt_stack e) + 3 * MAX_SCRIPT_EXEC_STEPS"
proof -
  from assms obtain b where
    fold: "res_fold (exec_item cr) (script_items s) (True, [], e) = Ok (b, [], e')" and
    len: "length (script_items s) \<le> MAX_SCRIPT_EXEC_STEPS"
    by (auto simp: run_Ok_iff)
  from ex.fold_growth [OF _ fold, of "env e"] len show ?thesis by simp
qed


section \<open>Multi-signature matching\<close>

lemma sig_loop_le: "sig_loop chk sigs keys \<le> length sigs"
  by (induction chk sigs keys rule: sig_loop.induct) auto

lemma subseq_tail: "subseq (k' # ks) (k # keys) \<Longrightarrow> subseq ks keys"
  by (metis subseq_Cons2_iff subseq_Cons')

text \<open>
  The greedy scan finds a key for every signature exactly when the signatures can be matched,
  in order, against some subsequence of the keys.
\<close>

lemma sig_loop_complete:
  "sig_loop chk sigs keys = length sigs \<longleftrightarrow> (\<exists>ks. subseq ks keys \<and> list_all2 chk sigs ks)"
proof (induction chk sigs keys rule: sig_loop.induct)
  case (1 chk keys)
  then show ?case by auto
next
  case (2 chk s sigs)
  have "sig_loop chk sigs [] < length (s # sigs)"
    using sig_loop_le [of chk sigs "[]"] by simp
  then show ?case by (auto simp: list_all2_Cons1)
next
  case (3 chk s sigs k keys)
  show ?case
  proof (cases "chk s k")
    case True
    have "(\<exists>ks. subseq ks (k # keys) \<and> list_all2 chk (s # sigs) ks) \<longleftrightarrow>
        (\<exists>ks. subseq ks keys \<and> list_all2 chk sigs ks)"
    proof
      assume "\<exists>ks. subseq ks (k # keys) \<and> list_all2 chk (s # sigs) ks"
      then obtain k' ks where "subseq (k' # ks) (k # keys)" and "list_all2 chk sigs ks"
        by (auto simp: list_all2_Cons1)
      then show "\<exists>ks. subseq ks keys \<and> list_all2 chk sigs ks"
        by (blast dest: subseq_tail)
    next
      assume "\<exists>ks. subseq ks keys \<and> list_all2 chk sigs ks"
      then obtain ks where "subseq ks keys" and "list_all2 chk sigs ks" by blast
      with True have "subseq (k # ks) (k # keys)" and "list_all2 chk (s # sigs) (k # ks)"
        by auto
      then show "\<exists>ks. subseq ks (k # keys) \<and> list_all2 chk (s # sigs) ks" by blast
    qed
    with True "3.IH"(1) show ?thesis by simp
  next
    case False
    then have "subseq ks (k # keys) \<and> list_all2 chk (s # sigs) ks \<longleftrightarrow>
        subseq ks keys \<and> list_all2 chk (s # sigs) ks" for ks
      by (cases ks) (auto simp: subseq_Cons2_neq elim: list_emb.cases)
    with False "3.IH"(2) show ?thesis by simp
  qed
qed

section \<open>What the time-lock opcodes enforce\<close>

lemma uint_word_of_int_31: "0 \<le> lt \<Longrightarrow> lt \<le> 0x7fffffff \<Longrightarrow> uint (word_of_int lt :: u32) = lt"
  by (simp add: uint_word_of_int_eq take_bit_int_eq_self)

lemma check_locktime_Ok:
  "check_locktime ev item = Ok () \<longleftrightarrow>
     length item \<le> 5 \<and> (let lt = script_num_value item; w = (word_of_int lt :: u32) in
       0 \<le> lt \<and> lt < 2 ^ 31 \<and> input_sequence ev \<noteq> 0xffffffff \<and>
       (w \<ge> LOCKTIME_THRESHOLD \<longleftrightarrow> tx_lock_time ev \<ge> LOCKTIME_THRESHOLD) \<and>
       w \<le> tx_lock_time ev \<and>
       (if w \<ge> LOCKTIME_THRESHOLD then w \<le> block_time ev else w \<le> block_height ev))"
  by (auto simp: check_locktime_def decode_script_num_eq Let_def not_less not_le split: if_splits)

section \<open>Single steps\<close>

lemma exec_item_push [exec_simps]:
  "exec_item cr (PushData d) (ex, ifs, e) =
     (if ex then (if MAX_STACK_DEPTH \<le> length (stack e) then Err StackOverflow
                  else Ok (True, ifs, e\<lparr>stack := d # stack e\<rparr>))
      else Ok (False, ifs, e))"
  by (simp add: exec_item_def)

lemma exec_item_flow [exec_simps]:
  "exec_item cr (Opcode 0x63) (ex, ifs, e) = exec_if True (ex, ifs, e)"
  "exec_item cr (Opcode 0x67) (ex, p # ifs, e) = Ok (p \<and> \<not> ex, p # ifs, e)"
  "exec_item cr (Opcode 0x68) (ex, p # ifs, e) = Ok (p, ifs, e)"
  "exec_item cr (Opcode 0x6a) (ex, ifs, e) = Err OpReturnUnspendable"
  by (simp_all add: exec_item_def exec_flow_def)

text \<open>Items that act on the main stack only when the branch executes.\<close>

lemma exec_item_vstack:
  assumes "exec_flow op (ex, ifs, e) = None" "op \<noteq> 0x6b" "op \<noteq> 0x6c"
    "vstack_op cr (env e) op = Some f"
  shows "exec_item cr (Opcode op) (ex, ifs, e) =
     (if ex then res_bind (f (stack e)) (\<lambda>st. Ok (True, ifs, e\<lparr>stack := st\<rparr>))
      else Ok (False, ifs, e))"
  using assms by (auto simp: exec_item_def exec_op_def res_bind_assoc)

lemma exec_item_std [exec_simps]:
  "exec_item cr (Opcode 0x76) (ex, ifs, e) =
     (if ex then res_bind (op_dup (stack e)) (\<lambda>st. Ok (True, ifs, e\<lparr>stack := st\<rparr>))
      else Ok (False, ifs, e))"
  "exec_item cr (Opcode 0x75) (ex, ifs, e) =
     (if ex then res_bind (op_drop (stack e)) (\<lambda>st. Ok (True, ifs, e\<lparr>stack := st\<rparr>))
      else Ok (False, ifs, e))"
  "exec_item cr (Opcode 0x87) (ex, ifs, e) =
     (if ex then res_bind (op_equal (stack e)) (\<lambda>st. Ok (True, ifs, e\<lparr>stack := st\<rparr>))
      else Ok (False, ifs, e))"
  "exec_item cr (Opcode 0x88) (ex, ifs, e) =
     (if ex then res_bind (op_equalverify (stack e)) (\<lambda>st. Ok (True, ifs, e\<lparr>stack := st\<rparr>))
      else Ok (False, ifs, e))"
  "exec_item cr (Opcode 0xa8) (ex, ifs, e) =
     (if ex then res_bind (op_hash (sha256 cr) (stack e)) (\<lambda>st. Ok (True, ifs, e\<lparr>stack := st\<rparr>))
      else Ok (False, ifs, e))"
  "exec_item cr (Opcode 0xa9) (ex, ifs, e) =
     (if ex then res_bind (op_hash (hash160 cr) (stack e)) (\<lambda>st. Ok (True, ifs, e\<lparr>stack := st\<rparr>))
      else Ok (False, ifs, e))"
  "exec_item cr (Opcode 0xac) (ex, ifs, e) =
     (if ex then res_bind (op_checksig cr (env e) (stack e)) (\<lambda>st. Ok (True, ifs, e\<lparr>stack := st\<rparr>))
      else Ok (False, ifs, e))"
  "exec_item cr (Opcode 0xb1) (ex, ifs, e) =
     (if ex then res_bind (op_check_top (check_locktime (env e)) (stack e))
        (\<lambda>st. Ok (True, ifs, e\<lparr>stack := st\<rparr>))
      else Ok (False, ifs, e))"
  by (rule exec_item_vstack;
      simp add: exec_flow_def vstack_op_def stack_ops_def hash_ops_def env_ops_def)+

end
