(* ===== verification/Samples.thy ===== *)
theory Samples
  imports Engine
begin

text \<open>
  A concrete instance of the cryptographic parameters, on which the hypotheses of the spending
  theorems are shown to hold. Hashing truncates or pads with zeros, a signature is valid when it
  equals the key.
\<close>

definition pad_to :: "nat \<Rightarrow> bytes \<Rightarrow> bytes" where
  "pad_to n b = take n (b @ replicate n 0)"

lemma length_pad_to [simp]: "length (pad_to n b) = n"
  by (simp add: pad_to_def)

definition sample_crypto :: "(bytes, bytes) crypto" where
  "sample_crypto = \<lparr>sha256 = pad_to 32, sha1 = pad_to 20, ripemd160 = pad_to 20,
     sig_from_der = Some, pk_from_slice = Some, verify_ecdsa = (\<lambda>h s p. s = p)\<rparr>"

definition sample_env :: script_env where
  "sample_env = \<lparr>tx_hash = replicate 32 0, block_height = 700, block_time = 1600000000,
     tx_lock_time = 650, input_sequence = 0, utxo_height = 10, utxo_timestamp = 1500000000\<rparr>"

text \<open>The key \<open>[7]\<close>, its hash, and the unlocking script that reveals both.\<close>

definition sample_hash :: bytes where
  "sample_hash = hash160 sample_crypto [7]"

lemma length_sample_hash [simp]: "length sample_hash = 20"
  by (simp add: sample_hash_def hash160_def sample_crypto_def)

end
