(* ===== verification/Standard.thy ===== *)
theory Standard
  imports EngineProps Samples
begin

text \<open>
  Standard script builders and the classifier of \<open>vtorrent-script/src/standard.rs\<close>, and for
  each builder the exact condition under which the interpreter accepts a spend.
\<close>

section \<open>Script types and classification\<close>

datatype script_type =
    P2PKH
  | P2PK
  | P2SH
  | P2MS byte byte
  | Htlc
  | P2CS bytes bytes u32 \<comment> \<open>staking hash, spending hash, lock time\<close>
  | OpReturn
  | NonStandard

definition parse_p2cs :: "bytes \<Rightarrow> (bytes \<times> bytes \<times> u32) option" where
  "parse_p2cs b =
     (if length b \<noteq> 60 then None
      else if b ! 0 \<noteq> 0x63 \<or> b ! 1 \<noteq> 0x76 \<or> b ! 2 \<noteq> 0xa9 \<or> b ! 3 \<noteq> 0x14 then None
      else if b ! 24 \<noteq> 0x88 \<or> b ! 25 \<noteq> 0xac \<or> b ! 26 \<noteq> 0x67 \<or> b ! 27 \<noteq> 0x04 then None
      else if b ! 32 \<noteq> 0xb1 \<or> b ! 33 \<noteq> 0x75 \<or> b ! 34 \<noteq> 0x76 \<or> b ! 35 \<noteq> 0xa9 \<or> b ! 36 \<noteq> 0x14
      then None
      else if b ! 57 \<noteq> 0x88 \<or> b ! 58 \<noteq> 0xac \<or> b ! 59 \<noteq> 0x68 then None
      else Some (take 20 (drop 4 b), take 20 (drop 37 b), u32_of_le (take 4 (drop 28 b))))"

definition classify_script :: "script \<Rightarrow> script_type" where
  "classify_script b =
     (if length b = 25 \<and> b ! 0 = 0x76 \<and> b ! 1 = 0xa9 \<and> b ! 2 = 0x14 \<and> b ! 23 = 0x88 \<and> b ! 24 = 0xac
      then P2PKH
      else if length b = 23 \<and> b ! 0 = 0xa9 \<and> b ! 1 = 0x14 \<and> b ! 22 = 0x87 then P2SH
      else if (length b = 35 \<and> b ! 0 = 33 \<and> b ! 34 = 0xac) \<or>
              (length b = 67 \<and> b ! 0 = 65 \<and> b ! 66 = 0xac) then P2PK
      else if b \<noteq> [] \<and> b ! 0 = 0x6a then OpReturn
      else if length b \<ge> 3 \<and> b ! 0 \<ge> 0x51 \<and> b ! 0 \<le> 0x60 \<and> last b = 0xae \<and>
              0x51 \<le> b ! (length b - 2) \<and> b ! (length b - 2) \<le> 0x60 \<and>
              b ! 0 - 0x50 \<le> b ! (length b - 2) - 0x50
      then P2MS (b ! 0 - 0x50) (b ! (length b - 2) - 0x50)
      else case parse_p2cs b of
        Some (staking_hash, spending_hash, locktime) \<Rightarrow> P2CS staking_hash spending_hash locktime
      | None \<Rightarrow>
          if length b > 5 \<and> b ! 0 = 0x63 \<and> b ! 1 = 0xa8 then Htlc else NonStandard)"

section \<open>Builders\<close>

text \<open>A push whose error the builders wrap.\<close>

definition ser_push :: "bytes \<Rightarrow> script \<Rightarrow> script sresult" where
  "ser_push d s = (case push_data s d of Ok s' \<Rightarrow> Ok s' | Err e \<Rightarrow> Err (Serialization e))"

definition build_p2pkh :: "bytes \<Rightarrow> script sresult" where
  "build_p2pkh pubkey_hash =
     res_bind (ser_push pubkey_hash (push_opcode (push_opcode [] 0x76) 0xa9)) (\<lambda>s.
       Ok (push_opcode (push_opcode s 0x88) 0xac))"

definition build_p2sh :: "bytes \<Rightarrow> script sresult" where
  "build_p2sh script_hash =
     res_bind (ser_push script_hash (push_opcode [] 0xa9)) (\<lambda>s. Ok (push_opcode s 0x87))"

fun push_keys :: "bytes list \<Rightarrow> script \<Rightarrow> script sresult" where
  "push_keys [] s = Ok s"
| "push_keys (key # keys) s =
     (if length key > 520 then Err (PushTooLarge (length key))
      else res_bind (ser_push key s) (push_keys keys))"

definition build_p2ms :: "byte \<Rightarrow> bytes list \<Rightarrow> script sresult" where
  "build_p2ms m keys =
     (let n = (of_nat (length keys) :: byte) in
      if m > n then Err (MultisigKeyCount (unat m) (unat n))
      else if n > 15 then Err (MultisigKeyCount (unat m) (unat n))
      else res_bind (push_keys keys (push_int [] m)) (\<lambda>s. Ok (push_opcode (push_int s n) 0xae)))"

definition build_htlc :: "bytes \<Rightarrow> bytes \<Rightarrow> bytes \<Rightarrow> u32 \<Rightarrow> script sresult" where
  "build_htlc payment_hash claim_pubkey_hash refund_pubkey_hash expiry =
     (let s0 = push_opcode (push_opcode [] 0x63) 0xa8 in
      res_bind (ser_push payment_hash s0) (\<lambda>s1.
      res_bind (ser_push claim_pubkey_hash
        (push_opcode (push_opcode (push_opcode s1 0x88) 0x76) 0xa9)) (\<lambda>s2.
      res_bind (ser_push (u32_le expiry)
        (push_opcode (push_opcode (push_opcode s2 0x88) 0xac) 0x67)) (\<lambda>s3.
      res_bind (ser_push refund_pubkey_hash
        (push_opcode (push_opcode (push_opcode (push_opcode s3 0xb1) 0x75) 0x76) 0xa9)) (\<lambda>s4.
      Ok (push_opcode (push_opcode (push_opcode s4 0x88) 0xac) 0x68))))))"

definition build_p2cs :: "bytes \<Rightarrow> bytes \<Rightarrow> u32 \<Rightarrow> script sresult" where
  "build_p2cs staking_pubkey_hash spending_pubkey_hash locktime =
     (let s0 = push_opcode (push_opcode (push_opcode [] 0x63) 0x76) 0xa9 in
      res_bind (ser_push staking_pubkey_hash s0) (\<lambda>s1.
      res_bind (ser_push (u32_le locktime)
        (push_opcode (push_opcode (push_opcode s1 0x88) 0xac) 0x67)) (\<lambda>s2.
      res_bind (ser_push spending_pubkey_hash
        (push_opcode (push_opcode (push_opcode (push_opcode s2 0xb1) 0x75) 0x76) 0xa9)) (\<lambda>s3.
      Ok (push_opcode (push_opcode (push_opcode s3 0x88) 0xac) 0x68)))))"

text \<open>
  \<open>push_data\<close> cannot fail below the 80-byte limit, so the source's \<open>unwrap\<close> never panics
  (\<open>build_op_return_total\<close>); the model keeps its error value.
\<close>

definition build_op_return :: "bytes \<Rightarrow> script sresult" where
  "build_op_return d =
     (if length d > 80 then Err (PushTooLarge (length d))
      else if d \<noteq> [] then push_data (push_opcode [] 0x6a) d
      else Ok (push_opcode [] 0x6a))"

section \<open>Builders produce the intended items\<close>

text \<open>
  \<open>builds s its\<close>: the bytes parse without truncation into exactly these items.
\<close>

definition builds :: "script \<Rightarrow> script_item list \<Rightarrow> bool" where
  "builds s its \<longleftrightarrow> validate s = Ok () \<and> script_items s = its"

lemma builds_Nil [simp]: "builds [] []"
  by (simp add: builds_def)

lemma builds_op_Cons [simp]:
  assumes "\<not> is_push_byte op"
  shows "builds (op # t) (Opcode op # its) = builds t its"
  using script_next_opcode [OF assms, of t]
  by (simp add: builds_def validate_step script_items_step del: script_next.simps)

lemma builds_push_append [simp]:
  assumes "length d \<le> MAX_PUSH_SIZE"
  shows "builds (push_prefix (length d) @ d @ t) (PushData d # its) = builds t its"
proof -
  have "push_prefix (length d) @ d @ t \<noteq> []" by (simp add: push_prefix_def)
  then show ?thesis
    using script_next_push [OF assms, of t]
    by (simp add: builds_def validate_step script_items_step)
qed

lemma ser_push_Ok_iff:
  "ser_push d s = Ok s' \<longleftrightarrow> length d \<le> MAX_PUSH_SIZE \<and> s' = s @ push_prefix (length d) @ d"
  by (auto simp: ser_push_def push_data_eq_Ok push_data_Ok split: result.splits)

lemma not_push_bytes [simp]:
  "\<not> is_push_byte 0x63" "\<not> is_push_byte 0x67" "\<not> is_push_byte 0x68" "\<not> is_push_byte 0x6a"
  "\<not> is_push_byte 0x75" "\<not> is_push_byte 0x76" "\<not> is_push_byte 0x87" "\<not> is_push_byte 0x88"
  "\<not> is_push_byte 0xa8" "\<not> is_push_byte 0xa9" "\<not> is_push_byte 0xac" "\<not> is_push_byte 0xae"
  "\<not> is_push_byte 0xb1"
  by (simp_all add: is_push_byte_def)

lemma u32_le_pushable: "length (u32_le w) \<le> MAX_PUSH_SIZE"
  by (simp add: MAX_PUSH_SIZE_def)

lemmas build_simps = ser_push_Ok_iff push_opcode_def

lemma build_p2pkh_Ok_iff:
  "build_p2pkh h = Ok s \<longleftrightarrow> length h \<le> MAX_PUSH_SIZE \<and>
     s = 0x76 # 0xa9 # push_prefix (length h) @ h @ [0x88, 0xac]"
  by (auto simp: build_p2pkh_def build_simps)

lemma build_p2pkh_builds:
  "build_p2pkh h = Ok s \<Longrightarrow>
     builds s [Opcode 0x76, Opcode 0xa9, PushData h, Opcode 0x88, Opcode 0xac]"
  by (simp add: build_p2pkh_Ok_iff)

lemma build_p2sh_Ok_iff:
  "build_p2sh h = Ok s \<longleftrightarrow> length h \<le> MAX_PUSH_SIZE \<and>
     s = 0xa9 # push_prefix (length h) @ h @ [0x87]"
  by (auto simp: build_p2sh_def build_simps)

lemma build_p2sh_builds:
  "build_p2sh h = Ok s \<Longrightarrow> builds s [Opcode 0xa9, PushData h, Opcode 0x87]"
  by (simp add: build_p2sh_Ok_iff)

lemma build_htlc_Ok_iff:
  "build_htlc ph ch rh expiry = Ok s \<longleftrightarrow>
     length ph \<le> MAX_PUSH_SIZE \<and> length ch \<le> MAX_PUSH_SIZE \<and> length rh \<le> MAX_PUSH_SIZE \<and>
     s = 0x63 # 0xa8 # push_prefix (length ph) @ ph @ 0x88 # 0x76 # 0xa9 #
       push_prefix (length ch) @ ch @ 0x88 # 0xac # 0x67 #
       push_prefix (length (u32_le expiry)) @ u32_le expiry @ 0xb1 # 0x75 # 0x76 # 0xa9 #
       push_prefix (length rh) @ rh @ [0x88, 0xac, 0x68]"
  by (auto simp: build_htlc_def build_simps Let_def MAX_PUSH_SIZE_def)

lemma build_htlc_builds:
  "build_htlc ph ch rh expiry = Ok s \<Longrightarrow>
     builds s [Opcode 0x63, Opcode 0xa8, PushData ph, Opcode 0x88, Opcode 0x76, Opcode 0xa9,
       PushData ch, Opcode 0x88, Opcode 0xac, Opcode 0x67, PushData (u32_le expiry), Opcode 0xb1,
       Opcode 0x75, Opcode 0x76, Opcode 0xa9, PushData rh, Opcode 0x88, Opcode 0xac, Opcode 0x68]"
  using u32_le_pushable [of expiry] unfolding build_htlc_Ok_iff by (simp del: codec_simps)

lemma build_p2cs_Ok_iff:
  "build_p2cs sh ph lt = Ok s \<longleftrightarrow>
     length sh \<le> MAX_PUSH_SIZE \<and> length ph \<le> MAX_PUSH_SIZE \<and>
     s = 0x63 # 0x76 # 0xa9 # push_prefix (length sh) @ sh @ 0x88 # 0xac # 0x67 #
       push_prefix (length (u32_le lt)) @ u32_le lt @ 0xb1 # 0x75 # 0x76 # 0xa9 #
       push_prefix (length ph) @ ph @ [0x88, 0xac, 0x68]"
  by (auto simp: build_p2cs_def build_simps Let_def MAX_PUSH_SIZE_def)


lemma build_p2cs_builds:
  "build_p2cs sh ph lt = Ok s \<Longrightarrow>
     builds s [Opcode 0x63, Opcode 0x76, Opcode 0xa9, PushData sh, Opcode 0x88, Opcode 0xac,
       Opcode 0x67, PushData (u32_le lt), Opcode 0xb1, Opcode 0x75, Opcode 0x76, Opcode 0xa9,
       PushData ph, Opcode 0x88, Opcode 0xac, Opcode 0x68]"
  using u32_le_pushable [of lt] unfolding build_p2cs_Ok_iff by (simp del: codec_simps)

section \<open>Running a built script\<close>

lemma run_builds:
  assumes "builds s its" "length its \<le> MAX_SCRIPT_EXEC_STEPS"
  shows "run cr s e = res_bind (res_fold (exec_item cr) its (True, [], e))
     (\<lambda>(ex, ifs, e'). if ifs \<noteq> [] then Err UnbalancedConditional else Ok e')"
  using assms by (simp add: run_def builds_def run_items_fold)


text \<open>The five items that every key-hash branch ends with.\<close>

abbreviation keyhash_items :: "bytes \<Rightarrow> script_item list" where
  "keyhash_items h \<equiv> [Opcode 0x76, Opcode 0xa9, PushData h, Opcode 0x88, Opcode 0xac]"

fun keyhash_result ::
  "('sig, 'pk, 'x) crypto_scheme \<Rightarrow> script_env \<Rightarrow> bytes \<Rightarrow> vstack \<Rightarrow> vstack sresult" where
  "keyhash_result cr ev h (pk # st) =
     (if hash160 cr pk \<noteq> h then Err VerifyFailed
      else case st of [] \<Rightarrow> Err EmptyStack
        | sg # r \<Rightarrow> Ok (bool_to_bytes (is_ok (check_sig cr ev sg pk)) # r))"
| "keyhash_result cr ev h [] = Err EmptyStack"

lemma keyhash_fold:
  assumes "length (stack e) + 1 < MAX_STACK_DEPTH"
  shows "res_fold (exec_item cr) (keyhash_items h @ its) (True, ifs, e) =
     res_bind (keyhash_result cr (env e) h (stack e))
       (\<lambda>st. res_fold (exec_item cr) its (True, ifs, e\<lparr>stack := st\<rparr>))"
proof (cases "stack e")
  case Nil
  then show ?thesis by (simp add: exec_simps)
next
  case (Cons pk st)
  with assms show ?thesis by (cases st) (simp_all add: exec_simps)
qed

text \<open>The abstract condition: the stack reveals a key of this hash and a valid signature by it.\<close>

fun keyhash_unlocks ::
  "('sig, 'pk, 'x) crypto_scheme \<Rightarrow> script_env \<Rightarrow> bytes \<Rightarrow> vstack \<Rightarrow> bool" where
  "keyhash_unlocks cr ev h (pk # sg # r) =
     (hash160 cr pk = h \<and> is_ok (check_sig cr ev sg pk))"
| "keyhash_unlocks cr ev h _ = False"

lemma is_true_bool_to_bytes [simp]: "is_true (bool_to_bytes b) = b"
  by (simp add: bool_to_bytes_def)

lemma keyhash_result_true:
  "(\<exists>st. keyhash_result cr ev h st0 = Ok st \<and> check_top (e\<lparr>stack := st\<rparr>) = Ok ()) \<longleftrightarrow>
     keyhash_unlocks cr ev h st0"
  by (cases "(cr, ev, h, st0)" rule: keyhash_unlocks.cases) (auto simp: check_top_def)

section \<open>Spending conditions\<close>

text \<open>
  Execution starts from empty stacks, so an unlocking script of at most 200 items leaves at most
  600 items: the stack-depth check on the pushes of a locking script never fires.
\<close>

definition unlock :: "('sig, 'pk, 'x) crypto_scheme \<Rightarrow> script_env \<Rightarrow> script \<Rightarrow> engine sresult" where
  "unlock cr ev script_sig = run cr script_sig \<lparr>stack = [], alt_stack = [], env = ev\<rparr>"

lemma unlock_bounds:
  assumes "unlock cr ev s = Ok e1"
  shows "env e1 = ev" and "length (stack e1) + 4 < MAX_STACK_DEPTH"
  using run_env [OF assms [unfolded unlock_def]] run_growth [OF assms [unfolded unlock_def]]
  by (simp_all add: MAX_STACK_DEPTH_def MAX_SCRIPT_EXEC_STEPS_def)

lemma execute_unlock:
  assumes "\<not> is_p2sh spk"
  shows "execute cr (new_engine ev) s spk = Ok () \<longleftrightarrow>
     (\<exists>e1 e2. unlock cr ev s = Ok e1 \<and> run cr spk e1 = Ok e2 \<and> check_top e2 = Ok ())"
  using assms by (auto simp: execute_def unlock_def new_engine_def)

lemma p2pkh_unlocks:
  assumes "build_p2pkh h = Ok spk" "length h = 20"
  shows "execute cr (new_engine ev) s spk = Ok () \<longleftrightarrow>
     (\<exists>e1. unlock cr ev s = Ok e1 \<and> keyhash_unlocks cr ev h (stack e1))"
proof -
  have "length spk = 25"
    using assms by (auto simp: build_p2pkh_Ok_iff push_prefix_def)
  then have "\<not> is_p2sh spk" by (simp add: is_p2sh_def)
  moreover have "(\<exists>e2. run cr spk e1 = Ok e2 \<and> check_top e2 = Ok ()) \<longleftrightarrow>
      keyhash_unlocks cr ev h (stack e1)" if "unlock cr ev s = Ok e1" for e1
    using keyhash_fold [of e1 cr h "[]" "[]"] unlock_bounds [OF that]
      run_builds [OF build_p2pkh_builds [OF assms(1)], of cr e1]
      keyhash_result_true [of cr ev h "stack e1" e1]
    by (auto simp: MAX_SCRIPT_EXEC_STEPS_def res_bind_assoc)
  ultimately show ?thesis by (auto simp: execute_unlock)
qed

text \<open>
  C12: a pay-to-public-key-hash output is spent by an unlocking script exactly when that script runs
  to a stack whose top two items are a key with the committed hash and a signature the key
  verifies. The interpreter accepts nothing else, and refuses none of these.
\<close>

theorem p2pkh_spend:
  assumes "build_p2pkh h = Ok spk" "length h = 20"
  shows "execute cr (new_engine ev) s spk = Ok () \<longleftrightarrow>
     (\<exists>e1. unlock cr ev s = Ok e1 \<and> keyhash_unlocks cr ev h (stack e1))"
  by (rule p2pkh_unlocks [OF assms])

lemma unlock_sample:
  "unlock sample_crypto sample_env [2, 7, 1, 1, 7] =
     Ok \<lparr>stack = [[7], [7, 1]], alt_stack = [], env = sample_env\<rparr>"
  "unlock sample_crypto sample_env [2, 7, 1, 1, 7, 1, 9, 1, 1] =
     Ok \<lparr>stack = [[1], [9], [7], [7, 1]], alt_stack = [], env = sample_env\<rparr>"
  "unlock sample_crypto sample_env [2, 7, 1, 1, 7, 0] =
     Ok \<lparr>stack = [[], [7], [7, 1]], alt_stack = [], env = sample_env\<rparr>"
  by code_simp+

theorem p2pkh_spend_witness:
  "execute sample_crypto (new_engine sample_env) [2, 7, 1, 1, 7]
     (0x76 # 0xa9 # 0x14 # sample_hash @ [0x88, 0xac]) = Ok ()"
proof -
  have b: "build_p2pkh sample_hash = Ok (0x76 # 0xa9 # 0x14 # sample_hash @ [0x88, 0xac])"
    by (simp add: build_p2pkh_Ok_iff push_prefix_def MAX_PUSH_SIZE_def)
  show ?thesis
    unfolding p2pkh_spend [OF b length_sample_hash] unlock_sample
    by (intro exI conjI, rule refl) code_simp
qed

subsection \<open>Hash time-locked contracts\<close>

fun htlc_unlocks :: "('sig, 'pk, 'x) crypto_scheme \<Rightarrow> script_env \<Rightarrow> bytes \<Rightarrow> bytes \<Rightarrow> bytes \<Rightarrow> u32 \<Rightarrow>
    vstack \<Rightarrow> bool" where
  "htlc_unlocks cr ev ph ch rh expiry [] = False"
| "htlc_unlocks cr ev ph ch rh expiry (sel # st) =
     (if is_true sel then
        (case st of [] \<Rightarrow> False
         | preimage # st' \<Rightarrow> sha256 cr preimage = ph \<and> keyhash_unlocks cr ev ch st')
      else check_locktime ev (u32_le expiry) = Ok () \<and> keyhash_unlocks cr ev rh st)"

lemma skip_keyhash:
  "res_fold (exec_item cr) (keyhash_items h @ its) (False, ifs, e) =
     res_fold (exec_item cr) its (False, ifs, e)"
  by (simp add: exec_simps)

text \<open>The refund tail: time lock, drop, then the key-hash items.\<close>

lemma locktime_fold:
  assumes "length (stack e) + 4 < MAX_STACK_DEPTH"
  shows "res_fold (exec_item cr) ([PushData lt, Opcode 0xb1, Opcode 0x75] @ its) (True, ifs, e) =
     res_bind (check_locktime (env e) lt) (\<lambda>_. res_fold (exec_item cr) its (True, ifs, e))"
  using assms by (cases "check_locktime (env e) lt") (simp_all add: exec_simps)

lemma locktime_skip:
  "res_fold (exec_item cr) ([PushData lt, Opcode 0xb1, Opcode 0x75] @ its) (False, ifs, e) =
     res_fold (exec_item cr) its (False, ifs, e)"
  by (simp add: exec_simps)

abbreviation lock_branch :: "bytes \<Rightarrow> bytes \<Rightarrow> script_item list" where
  "lock_branch lt h \<equiv>
     Opcode 0x67 # [PushData lt, Opcode 0xb1, Opcode 0x75] @ keyhash_items h @ [Opcode 0x68]"

lemma lock_branch_taken:
  assumes "length (stack e) + 4 < MAX_STACK_DEPTH"
  shows "res_fold (exec_item cr) (lock_branch lt h) (False, [True], e) =
     res_bind (check_locktime (env e) lt) (\<lambda>_.
     res_bind (keyhash_result cr (env e) h (stack e)) (\<lambda>st. Ok (True, [], e\<lparr>stack := st\<rparr>)))"
  using locktime_fold [OF assms, of cr lt "keyhash_items h @ [Opcode 0x68]" "[True]"]
    keyhash_fold [of e cr h "[Opcode 0x68]" "[True]"] assms
  by (simp add: exec_item_flow)

lemma lock_branch_skipped:
  "res_fold (exec_item cr) (lock_branch lt h) (True, [True], e) = Ok (True, [], e)"
  using locktime_skip [of cr lt "keyhash_items h @ [Opcode 0x68]" "[True]" e]
    skip_keyhash [of cr h "[Opcode 0x68]" "[True]" e]
  by (simp add: exec_item_flow)

text \<open>
  Both contract scripts have the shape \<open>IF A <keyhash a> ELSE <lock> <keyhash b> ENDIF\<close>.
  The second branch is taken when the selector is false, whatever \<open>A\<close> is, as long as \<open>A\<close> has
  no flow control.
\<close>

abbreviation branch_items ::
  "script_item list \<Rightarrow> bytes \<Rightarrow> bytes \<Rightarrow> bytes \<Rightarrow> script_item list" where
  "branch_items A a lt b \<equiv> Opcode 0x63 # A @ keyhash_items a @ lock_branch lt b"

definition accepts :: "('sig, 'pk, 'x) crypto_scheme \<Rightarrow> script \<Rightarrow> engine \<Rightarrow> bool" where
  "accepts cr spk e1 \<longleftrightarrow> (\<exists>e2. run cr spk e1 = Ok e2 \<and> check_top e2 = Ok ())"

lemma run_branch_Nil:
  assumes "builds spk (branch_items A a lt b)" "length A \<le> 100" "stack e1 = []"
  shows "\<not> accepts cr spk e1"
  using run_builds [OF assms(1), of cr e1] assms(2,3)
  by (simp add: accepts_def MAX_SCRIPT_EXEC_STEPS_def exec_item_flow exec_if_def)

lemma run_branch_false:
  assumes items: "builds spk (branch_items A a lt b)" and len: "length A \<le> 100"
    and skip: "\<And>e. res_fold (exec_item cr) A (False, [True], e) = Ok (False, [True], e)"
    and st: "stack e1 = sel # st" "\<not> is_true sel"
    and bound: "length (stack e1) + 4 < MAX_STACK_DEPTH"
  shows "accepts cr spk e1 \<longleftrightarrow>
     check_locktime (env e1) lt = Ok () \<and> keyhash_unlocks cr (env e1) b st"
proof -
  let ?e = "e1\<lparr>stack := st\<rparr>"
  have "res_fold (exec_item cr) (branch_items A a lt b) (True, [], e1) =
      res_fold (exec_item cr) (lock_branch lt b) (False, [True], ?e)"
    using st skip [of ?e] skip_keyhash [of cr a "lock_branch lt b" "[True]" ?e]
    by (simp add: exec_item_flow(1) exec_if_def res_fold_append del: append_Cons append_Nil)
  then show ?thesis
    using run_builds [OF items, of cr e1] len lock_branch_taken [of ?e cr lt b] st bound
      keyhash_result_true [of cr "env e1" b st e1]
    by (auto simp: accepts_def MAX_SCRIPT_EXEC_STEPS_def)
qed

lemma run_branch_true:
  assumes items: "builds spk (branch_items A a lt b)" and len: "length A \<le> 100"
    and rA: "res_fold (exec_item cr) A (True, [True], e1\<lparr>stack := st\<rparr>) =
      res_bind rA (\<lambda>st'. Ok (True, [True], e1\<lparr>stack := st'\<rparr>))"
    and rA_len: "\<And>st'. rA = Ok st' \<Longrightarrow> length st' \<le> length st"
    and st: "stack e1 = sel # st" "is_true sel"
    and bound: "length (stack e1) + 4 < MAX_STACK_DEPTH"
  shows "accepts cr spk e1 \<longleftrightarrow> (\<exists>st'. rA = Ok st' \<and> keyhash_unlocks cr (env e1) a st')"
proof (cases rA)
  case (Err x)
  then show ?thesis
    using run_builds [OF items, of cr e1] len rA st
    by (simp add: accepts_def MAX_SCRIPT_EXEC_STEPS_def exec_item_flow(1) exec_if_def
        res_fold_append del: append_Cons append_Nil)
next
  case (Ok st')
  let ?e = "e1\<lparr>stack := st'\<rparr>"
  have "length st' + 1 < MAX_STACK_DEPTH" using rA_len [OF Ok] st bound by simp
  then have "res_fold (exec_item cr) (branch_items A a lt b) (True, [], e1) =
      res_bind (keyhash_result cr (env e1) a st') (\<lambda>st''. Ok (True, [], e1\<lparr>stack := st''\<rparr>))"
    using Ok rA st keyhash_fold [of ?e cr a "lock_branch lt b" "[True]"]
    by (simp add: exec_item_flow(1) exec_if_def res_fold_append
        lock_branch_skipped [unfolded res_fold.simps] del: append_Cons append_Nil)
  then show ?thesis
    using run_builds [OF items, of cr e1] len Ok keyhash_result_true [of cr "env e1" a st' e1]
    by (auto simp: accepts_def MAX_SCRIPT_EXEC_STEPS_def)
qed

lemma execute_accepts:
  assumes "\<not> is_p2sh spk"
  shows "execute cr (new_engine ev) s spk = Ok () \<longleftrightarrow>
     (\<exists>e1. unlock cr ev s = Ok e1 \<and> accepts cr spk e1)"
  using assms by (auto simp: execute_unlock accepts_def)


lemma build_htlc_branch:
  "build_htlc ph ch rh expiry = Ok spk \<Longrightarrow>
     builds spk (branch_items [Opcode 0xa8, PushData ph, Opcode 0x88] ch (u32_le expiry) rh)"
  using build_htlc_builds by fastforce

lemma build_p2cs_branch:
  "build_p2cs sh ph lt = Ok spk \<Longrightarrow> builds spk (branch_items [] sh (u32_le lt) ph)"
  using build_p2cs_builds by fastforce

lemma preimage_fold:
  assumes "length st + 4 < MAX_STACK_DEPTH"
  shows "res_fold (exec_item cr) [Opcode 0xa8, PushData ph, Opcode 0x88] (True, ifs, e\<lparr>stack := st\<rparr>) =
     res_bind (case st of [] \<Rightarrow> Err EmptyStack
        | pre # st' \<Rightarrow> if sha256 cr pre = ph then Ok st' else Err VerifyFailed)
       (\<lambda>st'. Ok (True, ifs, e\<lparr>stack := st'\<rparr>))"
  using assms by (cases st) (simp_all add: exec_simps)

lemma htlc_accepts:
  assumes "build_htlc ph ch rh expiry = Ok spk" "length (stack e1) + 4 < MAX_STACK_DEPTH"
  shows "accepts cr spk e1 \<longleftrightarrow> htlc_unlocks cr (env e1) ph ch rh expiry (stack e1)"
proof (cases "stack e1")
  case Nil
  then show ?thesis using run_branch_Nil [OF build_htlc_branch [OF assms(1)]] by simp
next
  case (Cons sel st)
  have bound: "length st + 4 < MAX_STACK_DEPTH" using Cons assms(2) by simp
  show ?thesis
  proof (cases "is_true sel")
    case True
    let ?r = "case st of [] \<Rightarrow> Err EmptyStack
      | pre # st' \<Rightarrow> if sha256 cr pre = ph then Ok st' else Err VerifyFailed"
    have "\<And>st'. ?r = Ok st' \<Longrightarrow> length st' \<le> length st"
      by (auto split: list.splits if_splits)
    from run_branch_true [OF build_htlc_branch [OF assms(1)] _ preimage_fold [OF bound, of cr ph]
        this Cons True assms(2)]
    show ?thesis using Cons True by (auto split: list.splits if_splits)
  next
    case False
    show ?thesis
      using run_branch_false [OF build_htlc_branch [OF assms(1)] _ _ Cons False assms(2)] Cons False
      by (simp add: exec_simps)
  qed
qed


definition sample_htlc :: script where
  "sample_htlc = 0x63 # 0xa8 # 0x20 # pad_to 32 [9] @ 0x88 # 0x76 # 0xa9 # 0x14 # sample_hash @
     0x88 # 0xac # 0x67 # 0x04 # u32_le 600 @ 0xb1 # 0x75 # 0x76 # 0xa9 # 0x14 # sample_hash @
     [0x88, 0xac, 0x68]"

lemma build_sample_htlc:
  "build_htlc (pad_to 32 [9]) sample_hash sample_hash 600 = Ok sample_htlc"
  by (simp add: build_htlc_Ok_iff sample_htlc_def push_prefix_def MAX_PUSH_SIZE_def pad_to_def)


subsection \<open>Cold staking\<close>

fun p2cs_unlocks :: "('sig, 'pk, 'x) crypto_scheme \<Rightarrow> script_env \<Rightarrow> bytes \<Rightarrow> bytes \<Rightarrow> u32 \<Rightarrow> vstack \<Rightarrow>
    bool" where
  "p2cs_unlocks cr ev staking spending lt [] = False"
| "p2cs_unlocks cr ev staking spending lt (sel # st) =
     (if is_true sel then keyhash_unlocks cr ev staking st
      else check_locktime ev (u32_le lt) = Ok () \<and> keyhash_unlocks cr ev spending st)"

lemma p2cs_accepts:
  assumes "build_p2cs sh ph lt = Ok spk" "length (stack e1) + 4 < MAX_STACK_DEPTH"
  shows "accepts cr spk e1 \<longleftrightarrow> p2cs_unlocks cr (env e1) sh ph lt (stack e1)"
proof (cases "stack e1")
  case Nil
  then show ?thesis using run_branch_Nil [OF build_p2cs_branch [OF assms(1)]] by simp
next
  case (Cons sel st)
  show ?thesis
  proof (cases "is_true sel")
    case True
    show ?thesis
      using run_branch_true [OF build_p2cs_branch [OF assms(1)] _ _ _ Cons True assms(2),
          of cr "Ok st"] Cons True by simp
  next
    case False
    show ?thesis
      using run_branch_false [OF build_p2cs_branch [OF assms(1)] _ _ Cons False assms(2)] Cons False
      by simp
  qed
qed

text \<open>
  C14: a cold-staking output is spent exactly by a true selector with a signature of the staking
  key, or by a false selector, a satisfied time lock and a signature of the spending key.
\<close>

theorem p2cs_spend:
  assumes "build_p2cs sh ph lt = Ok spk" "length sh = 20" "length ph = 20"
  shows "execute cr (new_engine ev) s spk = Ok () \<longleftrightarrow>
     (\<exists>e1. unlock cr ev s = Ok e1 \<and> p2cs_unlocks cr ev sh ph lt (stack e1))"
proof -
  have "length spk \<noteq> 23"
    using assms by (auto simp: build_p2cs_Ok_iff push_prefix_def)
  then show ?thesis
    by (auto simp: execute_accepts is_p2sh_def p2cs_accepts [OF assms(1)] unlock_bounds)
qed

definition sample_p2cs :: script where
  "sample_p2cs = 0x63 # 0x76 # 0xa9 # 0x14 # sample_hash @ 0x88 # 0xac # 0x67 # 0x04 # u32_le 600 @
     0xb1 # 0x75 # 0x76 # 0xa9 # 0x14 # sample_hash @ [0x88, 0xac, 0x68]"

lemma build_sample_p2cs: "build_p2cs sample_hash sample_hash 600 = Ok sample_p2cs"
  by (simp add: build_p2cs_Ok_iff sample_p2cs_def push_prefix_def MAX_PUSH_SIZE_def)

theorem p2cs_spend_witness:
  "execute sample_crypto (new_engine sample_env) [2, 7, 1, 1, 7, 0] sample_p2cs = Ok ()"
  unfolding p2cs_spend [OF build_sample_p2cs length_sample_hash length_sample_hash] unlock_sample
  by (intro exI conjI, rule refl) code_simp

end
