(* ===== verification/Contracts.thy ===== *)
theory Contracts
  imports Standard
begin

text \<open>
  Further consequences of \<open>vtorrent-script/src/standard.rs\<close>: pay-to-script-hash, bare multisig and
  data outputs, the 4-byte expiry field of the contract scripts, and the classifier on what the
  builders produce.
\<close>

section \<open>Pay to script hash\<close>

text \<open>
  The hash item is popped, compared, and the revealed script then runs on the rest of the stack
  that the unlocking script left.
\<close>

fun p2sh_unlocks :: "('sig, 'pk, 'x) crypto_scheme \<Rightarrow> bytes \<Rightarrow> engine \<Rightarrow> vstack \<Rightarrow> bool" where
  "p2sh_unlocks cr h e [] = False"
| "p2sh_unlocks cr h e (redeem # st) =
     (hash160 cr redeem = h \<and> length redeem \<le> MAX_SCRIPT_SIZE \<and> accepts cr redeem (e\<lparr>stack := st\<rparr>))"

lemma run_p2sh:
  assumes "build_p2sh h = Ok spk" "length (stack e1) < MAX_STACK_DEPTH"
  shows "run cr spk e1 = (case stack e1 of [] \<Rightarrow> Err EmptyStack
     | redeem # st \<Rightarrow> Ok (e1\<lparr>stack := bool_to_bytes (hash160 cr redeem = h) # st\<rparr>))"
  using run_builds [OF build_p2sh_builds [OF assms(1)], of cr e1] assms(2)
  by (cases "stack e1") (simp_all add: exec_simps MAX_SCRIPT_EXEC_STEPS_def)

text \<open>
  C15: a pay-to-script-hash output is spent exactly when the unlocking script leaves on top a
  serialised script with the committed hash, no larger than the script limit, and that script
  accepts the rest of the stack.
\<close>

theorem p2sh_spend:
  assumes "build_p2sh h = Ok spk" "length h = 20"
  shows "execute cr (new_engine ev) s spk = Ok () \<longleftrightarrow>
     (\<exists>e1. unlock cr ev s = Ok e1 \<and> p2sh_unlocks cr h e1 (stack e1))"
proof (cases "unlock cr ev s")
  case (Ok e1)
  have p2sh: "is_p2sh spk"
    using assms by (auto simp: build_p2sh_Ok_iff push_prefix_def is_p2sh_def nth_append)
  have run: "run cr s \<lparr>stack = [], alt_stack = [], env = ev\<rparr> = Ok e1"
    using Ok by (simp add: unlock_def)
  show ?thesis
  proof (cases "stack e1")
    case Nil
    then show ?thesis
      using Ok run unlock_bounds [OF Ok] run_p2sh [OF assms(1), of e1 cr]
      by (simp add: execute_def new_engine_def)
  next
    case (Cons redeem st)
    then show ?thesis
      using Ok run p2sh unlock_bounds [OF Ok] run_p2sh [OF assms(1), of e1 cr]
      by (cases "hash160 cr redeem = h")
        (auto simp: execute_def new_engine_def check_top_def accepts_def from_bytes_def)
  qed
qed (simp add: execute_def unlock_def new_engine_def)

theorem p2sh_spend_witness:
  "execute sample_crypto (new_engine sample_env) [1, 0x51]
     (0xa9 # 0x14 # hash160 sample_crypto [0x51] @ [0x87]) = Ok ()"
proof -
  have len: "length (hash160 sample_crypto [0x51]) = 20" by code_simp
  then have b: "build_p2sh (hash160 sample_crypto [0x51]) =
      Ok (0xa9 # 0x14 # hash160 sample_crypto [0x51] @ [0x87])"
    by (simp add: build_p2sh_Ok_iff push_prefix_def MAX_PUSH_SIZE_def)
  have u: "unlock sample_crypto sample_env [1, 0x51] =
      Ok \<lparr>stack = [[0x51]], alt_stack = [], env = sample_env\<rparr>" by code_simp
  have "run sample_crypto [0x51] \<lparr>stack = [], alt_stack = [], env = sample_env\<rparr> =
      Ok \<lparr>stack = [[1]], alt_stack = [], env = sample_env\<rparr>" by code_simp
  then show ?thesis
    unfolding p2sh_spend [OF b len] u
    by (auto simp: accepts_def check_top_def MAX_SCRIPT_SIZE_def)
qed

section \<open>Data outputs\<close>

lemma run_op_return: "run cr (0x6a # t) e \<noteq> Ok e'"
  using script_next_opcode [of "0x6a" t]
  by (simp add: run_Ok_iff script_items_step exec_item_flow(4) del: script_next.simps)

lemma op_return_unspendable:
  "execute cr e s (0x6a # t) \<noteq> Ok ()"
  using run_op_return by (auto simp: execute_def)

lemma build_op_return_total: "length d \<le> 80 \<longleftrightarrow> is_ok (build_op_return d)"
  by (auto simp: build_op_return_def push_data_Ok MAX_PUSH_SIZE_def)

lemma build_op_return_head: "build_op_return d = Ok spk \<Longrightarrow> \<exists>t. spk = 0x6a # t"
  by (auto simp: build_op_return_def push_data_eq_Ok push_opcode_def split: if_splits)

section \<open>The 4-byte lock time\<close>

lemma byte_split_sign:
  fixes b :: byte
  shows "unat b = unat (b AND 0x7f) + (if b AND 0x80 = 0 then 0 else 128)"
proof -
  have "mask 7 = (0x7f :: byte)" by code_simp
  then have "b AND 0x7f = take_bit 7 b" by (simp add: take_bit_eq_mask)
  then have low: "unat (b AND 0x7f) = unat b mod 128"
    by (simp add: unat_mod take_bit_eq_mod)
  have "b AND 2 ^ 7 = 0 \<longleftrightarrow> \<not> bit (unat b) 7"
    by (simp only: and_exp_eq_0_iff_not_bit) (simp add: bit_unsigned_iff)
  then have high: "b AND 0x80 = 0 \<longleftrightarrow> even (unat b div 128)"
    by (simp add: bit_iff_odd)
  have "unat b < 2 * 128" using unat_byte_lt [of b] by linarith
  then have "unat b div 128 < 2" by (rule less_mult_imp_div_less)
  then have "unat b div 128 = 0 \<or> unat b div 128 = 1" by linarith
  then show ?thesis using low high div_mult_mod_eq [of "unat b" 128] by (elim disjE) simp_all
qed

lemma le_value_sign:
  "bs \<noteq> [] \<Longrightarrow> le_value bs = le_value (clear_sign bs) +
     (if last bs AND 0x80 = 0 then 0 else 128 * 256 ^ (length bs - 1))"
proof (induction bs rule: list_nonempty_induct)
  case (single b)
  then show ?case using byte_split_sign [of b] by simp
next
  case (cons b bs)
  then show ?case by (cases bs) auto
qed

text \<open>A lock time with bit 31 set is read back as a negative script number.\<close>

lemma script_num_value_u32:
  "script_num_value (u32_le w) =
     (if unat w < 2 ^ 31 then int (unat w) else - int (unat w - 2 ^ 31))"
proof -
  let ?bs = "u32_le w"
  have ne: "?bs \<noteq> []" and len: "length ?bs = 4" by (auto simp flip: length_greater_0_conv)
  have val: "le_value ?bs = unat w"
    using unsigned_less [where 'b = 32 and 'a = nat, of w] by (simp add: u32_le_def le_value_le_bytes)
  have "2 * le_value (clear_sign ?bs) < 256 ^ 4" using le_value_clear_sign [OF ne] len by simp
  then show ?thesis
    using le_value_sign [OF ne] val len ne by (auto simp: script_num_value_def)
qed

text \<open>
  C18: the time lock of the contract scripts is met exactly when the stored 32-bit value, read as a
  sign-magnitude number, is reached. For values below \<open>2\<^sup>3\<^sup>1\<close> this is the documented rule. The value
  \<open>0x80000000\<close> is read as zero, so it locks nothing, and every larger value is negative, so the
  branch can never be taken.
\<close>

theorem check_locktime_u32:
  "check_locktime ev (u32_le w) = Ok () \<longleftrightarrow>
     w \<le> 0x80000000 \<and> input_sequence ev \<noteq> 0xffffffff \<and>
     (let v = (if w = 0x80000000 then 0 else w) in
       (v \<ge> LOCKTIME_THRESHOLD \<longleftrightarrow> tx_lock_time ev \<ge> LOCKTIME_THRESHOLD) \<and>
       v \<le> tx_lock_time ev \<and>
       (if v \<ge> LOCKTIME_THRESHOLD then v \<le> block_time ev else v \<le> block_height ev))"
proof -
  have len: "length (u32_le w) \<le> 5" by simp
  have small: "unat w < 2 ^ 31 \<longleftrightarrow> w < 0x80000000" and eq: "unat w = 2 ^ 31 \<longleftrightarrow> w = 0x80000000"
    by (simp_all add: word_less_nat_alt word_unat_eq_iff)
  consider "w < 0x80000000" | "w = 0x80000000" | "w > 0x80000000" by fastforce
  then show ?thesis
  proof cases
    case 1
    moreover have "uint w < 2 ^ 31" using 1 by (simp add: word_less_def)
    ultimately show ?thesis using small len
      by (auto simp: check_locktime_Ok script_num_value_u32 Let_def)
  next
    case 2
    then show ?thesis using eq len
      by (auto simp: check_locktime_Ok script_num_value_u32 Let_def)
  next
    case 3
    then have "unat w > 2 ^ 31" by (simp add: word_less_nat_alt)
    moreover have "uint w > 2 ^ 31" using 3 by (simp add: word_less_def)
    ultimately have "script_num_value (u32_le w) < 0" unfolding script_num_value_u32 by simp
    then show ?thesis using 3 by (simp add: check_locktime_Ok Let_def not_le)
  qed
qed

section \<open>Bare multisig\<close>

text \<open>A small count is pushed as an empty item (zero) or by one of the constant opcodes.\<close>

definition count_item :: "byte \<Rightarrow> script_item" where
  "count_item n = (if n = 0 then PushData [] else Opcode (0x50 + n))"

definition count_bytes :: "byte \<Rightarrow> bytes" where
  "count_bytes n = (if n = 0 then [] else [n])"

lemma small_count_byte:
  fixes n :: byte
  assumes "n \<le> 15" "n \<noteq> 0"
  shows "0x51 \<le> 0x50 + n" "0x50 + n \<le> 0x60" "\<not> is_push_byte (0x50 + n)"
proof -
  have n: "unat n \<le> 15" "unat n \<noteq> 0" using assms by (simp_all add: word_le_nat_alt unat_eq_0)
  then have val: "unat (0x50 + n) = 0x50 + unat n" by (simp add: unat_word_ariths)
  show "0x51 \<le> 0x50 + n" "0x50 + n \<le> 0x60" "\<not> is_push_byte (0x50 + n)"
    using n by (simp_all add: word_le_nat_alt val is_push_byte_def)
qed

lemma builds_push_int:
  assumes "n \<le> 15"
  shows "builds (push_int [] n @ t) (count_item n # its) = builds t its"
proof (cases "n = 0")
  case True
  then show ?thesis
    using builds_push_append [of "[]" t its]
    by (simp add: push_int_def count_item_def push_prefix_def MAX_PUSH_SIZE_def)
next
  case False
  moreover have "n \<le> 16" using assms by (rule order.trans) simp
  ultimately show ?thesis
    using small_count_byte [OF assms] by (simp add: push_int_def count_item_def)
qed

lemma pop_count: "n \<le> 15 \<Longrightarrow> pop_num (count_bytes n # st) = Ok (int (unat n), st)"
proof -
  assume n: "n \<le> 15"
  then have "unat n < 128" by (simp add: word_le_nat_alt)
  then have "n AND 0x80 = 0" by (rule byte_no_sign)
  then have "script_num_value (count_bytes n) = int (unat n)"
    by (simp add: script_num_value_def count_bytes_def byte_clear_sign)
  then show ?thesis
    by (simp add: decode_script_num_eq MAX_ARITH_NUM_LEN_def count_bytes_def)
qed

lemma const_op:
  fixes op :: byte
  assumes "0x51 \<le> op" "op \<le> 0x60"
  shows "exec_flow op (ex, ifs, e) = None" "op \<noteq> 0x6b" "op \<noteq> 0x6c"
    "vstack_op cr ev op = Some (op_push [op - 0x50])"
proof -
  have ne: "op \<noteq> k" if "0x60 < k" for k using assms(2) that by auto
  have "stack_ops op = None" "hash_ops cr op = None" "env_ops cr ev op = None"
      "arith_ops op = None" "compare_ops op = None"
    by (simp_all add: stack_ops_def hash_ops_def env_ops_def arith_ops_def compare_ops_def ne)
  moreover have "const_ops op = Some (op_push [op - 0x50])"
    using assms by (auto simp: const_ops_def)
  ultimately show "vstack_op cr ev op = Some (op_push [op - 0x50])" by (simp add: vstack_op_def)
qed (use assms in \<open>auto simp: exec_flow_def\<close>)

lemma exec_count:
  assumes "n \<le> 15" "length (stack e) < MAX_STACK_DEPTH"
  shows "exec_item cr (count_item n) (True, ifs, e) =
     Ok (True, ifs, e\<lparr>stack := count_bytes n # stack e\<rparr>)"
proof (cases "n = 0")
  case True
  then show ?thesis using assms by (simp add: count_item_def count_bytes_def exec_simps)
next
  case False
  then show ?thesis
    using exec_item_vstack [OF const_op [OF small_count_byte(1,2) [OF assms(1) False]], of cr True]
    by (simp add: count_item_def count_bytes_def op_push_def)
qed

lemma exec_keys:
  "length (stack e) + length keys \<le> MAX_STACK_DEPTH \<Longrightarrow>
   res_fold (exec_item cr) (map PushData keys @ its) (True, ifs, e) =
     res_fold (exec_item cr) its (True, ifs, e\<lparr>stack := rev keys @ stack e\<rparr>)"
  by (induction keys arbitrary: e) (simp_all add: exec_simps)

lemma push_keys_Ok:
  assumes "push_keys keys s = Ok s'"
  shows "\<exists>t. s' = s @ t \<and>
    (\<forall>r its. builds (t @ r) (map PushData keys @ its) = builds r its)"
  using assms
proof (induction keys s rule: push_keys.induct)
  case (2 key keys s)
  then have key: "length key \<le> MAX_PUSH_SIZE" by (simp add: MAX_PUSH_SIZE_def split: if_splits)
  with 2 obtain t where "s' = (s @ push_prefix (length key) @ key) @ t"
    "\<forall>r its. builds (t @ r) (map PushData keys @ its) = builds r its"
    by (fastforce simp: ser_push_Ok_iff split: if_splits)
  then show ?case
    using builds_push_append [OF key] by (intro exI [of _ "push_prefix (length key) @ key @ t"]) simp
qed simp

abbreviation p2ms_items :: "byte \<Rightarrow> bytes list \<Rightarrow> script_item list" where
  "p2ms_items m keys \<equiv> count_item m # map PushData keys @
     [count_item (of_nat (length keys)), Opcode 0xae]"

lemma push_int_append: "push_int s n = s @ push_int [] n"
  by (simp add: push_int_def)

lemma build_p2ms_builds:
  assumes "build_p2ms m keys = Ok s"
  shows "m \<le> of_nat (length keys)" "(of_nat (length keys) :: byte) \<le> 15"
    "builds s (p2ms_items m keys)"
proof -
  let ?n = "of_nat (length keys) :: byte"
  show mn: "m \<le> ?n" and n: "?n \<le> 15"
    using assms by (auto simp: build_p2ms_def Let_def split: if_splits)
  from mn n have m: "m \<le> 15" by (rule order.trans)
  from assms mn n obtain s1 where s1: "push_keys keys (push_int [] m) = Ok s1"
    and s: "s = push_opcode (push_int s1 ?n) 0xae"
    by (auto simp: build_p2ms_def Let_def not_less split: if_splits)
  from push_keys_Ok [OF s1] obtain t where "s1 = push_int [] m @ t"
    and t: "\<And>r its. builds (t @ r) (map PushData keys @ its) = builds r its" by blast
  with s have "s = push_int [] m @ t @ push_int [] ?n @ [0xae]"
    using push_int_append [of s1 ?n] by (simp add: push_opcode_def)
  then show "builds s (p2ms_items m keys)"
    by (simp add: builds_push_int [OF m] builds_push_int [OF n] t)
qed

definition p2ms_unlocks ::
  "('sig, 'pk, 'x) crypto_scheme \<Rightarrow> script_env \<Rightarrow> nat \<Rightarrow> bytes list \<Rightarrow> vstack \<Rightarrow> bool" where
  "p2ms_unlocks cr ev m keys st \<longleftrightarrow> m \<le> length st \<and>
     (\<exists>ks. subseq ks keys \<and> list_all2 (\<lambda>s k. is_ok (check_sig cr ev s k)) (rev (take m st)) ks)"

lemma subseq_rev: "subseq xs ys \<Longrightarrow> subseq (rev xs) (rev ys)"
proof (induction xs ys rule: list_emb.induct)
  case (list_emb_Cons2 x y xs ys)
  then show ?case by (simp add: list_emb_append_mono)
qed (auto intro: subseq_rev_drop_many)

lemma checkmultisig_run:
  assumes "m \<le> of_nat (length keys)" "(of_nat (length keys) :: byte) \<le> 15" "length keys \<le> 15"
  shows "(\<exists>st'. exec_checkmultisig cr ev False
        (count_bytes (of_nat (length keys)) # rev keys @ count_bytes m # st) = Ok st' \<and>
        check_top (e\<lparr>stack := st'\<rparr>) = Ok ()) \<longleftrightarrow> p2ms_unlocks cr ev (unat m) keys st"
proof -
  let ?chk = "\<lambda>s k. is_ok (check_sig cr ev s k)"
  have n: "unat (of_nat (length keys) :: byte) = length keys" using assms(3) by simp
  then have m: "unat m \<le> length keys" using assms(1) by (simp add: word_le_nat_alt)
  have m15: "m \<le> 15" using assms(1,2) by (rule order.trans)
  have "sig_loop ?chk (take (unat m) st) (rev keys) \<ge> unat m \<longleftrightarrow>
      (\<exists>ks. subseq ks keys \<and> list_all2 ?chk (rev (take (unat m) st)) ks)" if "unat m \<le> length st"
  proof -
    have "sig_loop ?chk (take (unat m) st) (rev keys) \<ge> unat m \<longleftrightarrow>
        sig_loop ?chk (take (unat m) st) (rev keys) = length (take (unat m) st)"
      using that sig_loop_le [of ?chk "take (unat m) st" "rev keys"] by auto
    also have "\<dots> \<longleftrightarrow> (\<exists>ks. subseq ks (rev keys) \<and> list_all2 ?chk (take (unat m) st) ks)"
      by (rule sig_loop_complete)
    also have "\<dots> \<longleftrightarrow> (\<exists>ks. subseq ks keys \<and> list_all2 ?chk (rev (take (unat m) st)) ks)"
      by (metis list_all2_rev rev_rev_ident subseq_rev)
    finally show ?thesis .
  qed
  then show ?thesis
    using m by (auto simp: exec_checkmultisig_def pop_count [OF assms(2)] pop_count [OF m15] n Let_def
        p2ms_unlocks_def check_top_def simp del: unat_byte_of_nat pop_num.simps)
qed

lemma exec_item_multisig:
  "exec_item cr (Opcode 0xae) (True, ifs, e) =
     res_bind (exec_checkmultisig cr (env e) False (stack e)) (\<lambda>st. Ok (True, ifs, e\<lparr>stack := st\<rparr>))"
  using exec_item_vstack [of "0xae" True ifs e cr "exec_checkmultisig cr (env e) False"]
  by (simp add: exec_flow_def vstack_op_def stack_ops_def hash_ops_def env_ops_def)

lemma p2ms_accepts:
  assumes "build_p2ms m keys = Ok spk" "length keys \<le> 15"
    "length (stack e1) + 20 < MAX_STACK_DEPTH"
  shows "accepts cr spk e1 \<longleftrightarrow> p2ms_unlocks cr (env e1) (unat m) keys (stack e1)"
proof -
  note b = build_p2ms_builds [OF assms(1)]
  have m15: "m \<le> 15" using b(1,2) by (rule order.trans)
  let ?st = "count_bytes (of_nat (length keys)) # rev keys @ count_bytes m # stack e1"
  have "res_fold (exec_item cr) (p2ms_items m keys) (True, [], e1) =
      res_bind (exec_checkmultisig cr (env e1) False ?st) (\<lambda>st. Ok (True, [], e1\<lparr>stack := st\<rparr>))"
    using assms(2,3)
      exec_keys [of "e1\<lparr>stack := count_bytes m # stack e1\<rparr>" keys cr
        "[count_item (of_nat (length keys)), Opcode 0xae]" "[]"]
    by (simp add: exec_count [OF m15] exec_count [OF b(2)] exec_item_multisig res_bind_assoc)
  then show ?thesis
    using run_builds [OF b(3), of cr e1] assms(2) checkmultisig_run [OF b(1,2) assms(2), of cr "env e1"
        "stack e1" e1]
    by (auto simp: accepts_def MAX_SCRIPT_EXEC_STEPS_def)
qed

text \<open>
  C16: an \<open>m\<close>-of-\<open>n\<close> output with at most 15 keys is spent exactly by \<open>m\<close> signatures that verify, in
  order, against a subsequence of the keys. The interpreter's greedy scan therefore never misses
  a valid assignment of signatures to keys.
\<close>

theorem p2ms_spend:
  assumes "build_p2ms m keys = Ok spk" "length keys \<le> 15"
  shows "execute cr (new_engine ev) s spk = Ok () \<longleftrightarrow>
     (\<exists>e1. unlock cr ev s = Ok e1 \<and> p2ms_unlocks cr ev (unat m) keys (stack e1))"
proof -
  have "length (stack e1) + 20 < MAX_STACK_DEPTH" if "unlock cr ev s = Ok e1" for e1
    using run_growth [OF that [unfolded unlock_def]]
    by (simp add: MAX_STACK_DEPTH_def MAX_SCRIPT_EXEC_STEPS_def)
  moreover have "\<not> is_p2sh spk"
  proof
    assume "is_p2sh spk"
    then obtain t where "spk = 0xa9 # t" by (cases spk) (auto simp: is_p2sh_def)
    then have "script_items spk = Opcode 0xa9 # script_items t"
      using script_next_opcode [of "0xa9" t] by (simp add: script_items_step del: script_next.simps)
    then have "count_item m = Opcode 0xa9"
      using build_p2ms_builds(3) [OF assms(1)] by (simp add: builds_def)
    moreover have "m \<le> 15" using build_p2ms_builds(1,2) [OF assms(1)] by (rule order.trans)
    ultimately show False
      using small_count_byte(2) [of m] by (auto simp: count_item_def split: if_splits)
  qed
  ultimately show ?thesis
    by (auto simp: execute_accepts p2ms_accepts [OF assms] unlock_bounds)
qed

theorem p2ms_spend_witness:
  "\<exists>spk. build_p2ms 2 [[5], [6], [7]] = Ok spk \<and>
     execute sample_crypto (new_engine sample_env) [0, 2, 5, 1, 2, 7, 1] spk = Ok ()"
proof -
  have "is_ok (build_p2ms 2 [[5], [6], [7]])" by code_simp
  then obtain spk where b: "build_p2ms 2 [[5], [6], [7]] = Ok spk" by (auto simp: is_ok_iff)
  have u: "unlock sample_crypto sample_env [0, 2, 5, 1, 2, 7, 1] =
      Ok \<lparr>stack = [[7, 1], [5, 1], []], alt_stack = [], env = sample_env\<rparr>" by code_simp
  have c: "is_ok (check_sig sample_crypto sample_env [5, 1] [5])"
    "is_ok (check_sig sample_crypto sample_env [7, 1] [7])" by code_simp+
  have "p2ms_unlocks sample_crypto sample_env (unat (2 :: byte)) [[5], [6], [7]] [[7, 1], [5, 1], []]"
    unfolding p2ms_unlocks_def using c
    by (intro conjI exI [of _ "[[5], [7]]"]) simp_all
  then have "execute sample_crypto (new_engine sample_env) [0, 2, 5, 1, 2, 7, 1] spk = Ok ()"
    unfolding p2ms_spend [OF b, simplified] u by simp
  with b show ?thesis by blast
qed

section \<open>Classification of built scripts\<close>

lemma drop_split:
  "j = i + k \<Longrightarrow> j \<le> length b \<Longrightarrow> v = take k (drop i b) \<Longrightarrow> drop i b = v @ drop j b"
  by (metis append_take_drop_id drop_drop add.commute)

lemma drop_nth: "b ! i = x \<Longrightarrow> i < length b \<Longrightarrow> j = Suc i \<Longrightarrow> drop i b = x # drop j b"
  by (metis Cons_nth_drop_Suc)

lemma build_p2pkh_20:
  "length h = 20 \<Longrightarrow> build_p2pkh h = Ok b \<longleftrightarrow> b = 0x76 # 0xa9 # 0x14 # h @ [0x88, 0xac]"
  by (auto simp: build_p2pkh_Ok_iff push_prefix_def MAX_PUSH_SIZE_def)

lemma build_p2sh_20:
  "length h = 20 \<Longrightarrow> build_p2sh h = Ok b \<longleftrightarrow> b = 0xa9 # 0x14 # h @ [0x87]"
  by (auto simp: build_p2sh_Ok_iff push_prefix_def MAX_PUSH_SIZE_def)

lemma build_p2cs_20:
  "length sh = 20 \<Longrightarrow> length ph = 20 \<Longrightarrow> build_p2cs sh ph lt = Ok b \<longleftrightarrow>
     b = 0x63 # 0x76 # 0xa9 # 0x14 # sh @ 0x88 # 0xac # 0x67 # 0x04 # u32_le lt @
       0xb1 # 0x75 # 0x76 # 0xa9 # 0x14 # ph @ [0x88, 0xac, 0x68]"
  by (auto simp: build_p2cs_Ok_iff push_prefix_def MAX_PUSH_SIZE_def)

lemma classify_p2pkh_iff:
  "classify_script b = P2PKH \<longleftrightarrow> (\<exists>h. length h = 20 \<and> build_p2pkh h = Ok b)"
proof
  assume "classify_script b = P2PKH"
  then have b: "length b = 25" "b ! 0 = 0x76" "b ! 1 = 0xa9" "b ! 2 = 0x14" "b ! 23 = 0x88"
      "b ! 24 = 0xac"
    by (auto simp: classify_script_def split: if_splits option.splits)
  define h where "h = take 20 (drop 3 b)"
  have "drop 0 b = 0x76 # drop 1 b" "drop 1 b = 0xa9 # drop 2 b" "drop 2 b = 0x14 # drop 3 b"
      "drop 23 b = 0x88 # drop 24 b" "drop 24 b = 0xac # drop 25 b"
    by (rule drop_nth, rule b, simp add: b(1), simp)+
  moreover have "drop 3 b = h @ drop 23 b" by (rule drop_split [OF _ _ h_def]) (simp_all add: b(1))
  moreover have "drop 25 b = []" using b(1) by simp
  ultimately have "drop 0 b = 0x76 # 0xa9 # 0x14 # h @ [0x88, 0xac]" by (simp only:)
  moreover have h: "length h = 20" using b(1) by (simp add: h_def)
  ultimately have "build_p2pkh h = Ok b" unfolding build_p2pkh_20 [OF h] by simp
  with h show "\<exists>h. length h = 20 \<and> build_p2pkh h = Ok b" by blast
next
  assume "\<exists>h. length h = 20 \<and> build_p2pkh h = Ok b"
  then show "classify_script b = P2PKH"
    by (elim exE conjE) (simp add: build_p2pkh_20 classify_script_def nth_append)
qed

lemma classify_p2sh_iff:
  "classify_script b = P2SH \<longleftrightarrow> (\<exists>h. length h = 20 \<and> build_p2sh h = Ok b)"
proof
  assume "classify_script b = P2SH"
  then have b: "length b = 23" "b ! 0 = 0xa9" "b ! 1 = 0x14" "b ! 22 = 0x87"
    by (auto simp: classify_script_def split: if_splits option.splits)
  define h where "h = take 20 (drop 2 b)"
  have "drop 0 b = 0xa9 # drop 1 b" "drop 1 b = 0x14 # drop 2 b" "drop 22 b = 0x87 # drop 23 b"
    by (rule drop_nth, rule b, simp add: b(1), simp)+
  moreover have "drop 2 b = h @ drop 22 b" by (rule drop_split [OF _ _ h_def]) (simp_all add: b(1))
  moreover have "drop 23 b = []" using b(1) by simp
  ultimately have "drop 0 b = 0xa9 # 0x14 # h @ [0x87]" by (simp only:)
  moreover have h: "length h = 20" using b(1) by (simp add: h_def)
  ultimately have "build_p2sh h = Ok b" unfolding build_p2sh_20 [OF h] by simp
  with h show "\<exists>h. length h = 20 \<and> build_p2sh h = Ok b" by blast
next
  assume "\<exists>h. length h = 20 \<and> build_p2sh h = Ok b"
  then show "classify_script b = P2SH"
    by (elim exE conjE) (simp add: build_p2sh_20 classify_script_def nth_append)
qed

lemma u32_le_of_le: "length bs = 4 \<Longrightarrow> u32_le (u32_of_le bs) = bs"
  using le_value_less [of bs] le_bytes_le_value [of bs]
  by (simp add: u32_le_def u32_of_le_def unat_of_nat)

lemma parse_p2cs_Some:
  assumes "parse_p2cs b = Some (sh, ph, lt)"
  shows "length sh = 20" "length ph = 20"
    "b = 0x63 # 0x76 # 0xa9 # 0x14 # sh @ 0x88 # 0xac # 0x67 # 0x04 # u32_le lt @
      0xb1 # 0x75 # 0x76 # 0xa9 # 0x14 # ph @ [0x88, 0xac, 0x68]"
proof -
  have len: "length b = 60" and sh: "sh = take 20 (drop 4 b)" and ph: "ph = take 20 (drop 37 b)"
    and lt: "lt = u32_of_le (take 4 (drop 28 b))"
    using assms by (simp_all add: parse_p2cs_def split: if_splits)
  show "length sh = 20" "length ph = 20" using len sh ph by simp_all
  have lt': "u32_le lt = take 4 (drop 28 b)" using len lt by (simp add: u32_le_of_le)
  have b: "b ! 0 = 0x63" "b ! 1 = 0x76" "b ! 2 = 0xa9" "b ! 3 = 0x14" "b ! 24 = 0x88"
      "b ! 25 = 0xac" "b ! 26 = 0x67" "b ! 27 = 0x04" "b ! 32 = 0xb1" "b ! 33 = 0x75"
      "b ! 34 = 0x76" "b ! 35 = 0xa9" "b ! 36 = 0x14" "b ! 57 = 0x88" "b ! 58 = 0xac"
      "b ! 59 = 0x68"
    using assms by (simp_all add: parse_p2cs_def split: if_splits)
  have "drop 0 b = 0x63 # drop 1 b" "drop 1 b = 0x76 # drop 2 b" "drop 2 b = 0xa9 # drop 3 b"
      "drop 3 b = 0x14 # drop 4 b" "drop 24 b = 0x88 # drop 25 b"
      "drop 25 b = 0xac # drop 26 b" "drop 26 b = 0x67 # drop 27 b" "drop 27 b = 0x04 # drop 28 b"
      "drop 32 b = 0xb1 # drop 33 b"
      "drop 33 b = 0x75 # drop 34 b" "drop 34 b = 0x76 # drop 35 b" "drop 35 b = 0xa9 # drop 36 b"
      "drop 36 b = 0x14 # drop 37 b" "drop 57 b = 0x88 # drop 58 b"
      "drop 58 b = 0xac # drop 59 b" "drop 59 b = 0x68 # drop 60 b"
    by (rule drop_nth, rule b, simp add: len, simp)+
  moreover have "drop 4 b = sh @ drop 24 b" by (rule drop_split [OF _ _ sh]) (simp_all add: len)
  moreover have "drop 28 b = u32_le lt @ drop 32 b"
    by (rule drop_split [OF _ _ lt']) (simp_all add: len)
  moreover have "drop 37 b = ph @ drop 57 b" by (rule drop_split [OF _ _ ph]) (simp_all add: len)
  moreover have "drop 60 b = []" using len by simp
  ultimately have "drop 0 b = 0x63 # 0x76 # 0xa9 # 0x14 # sh @ 0x88 # 0xac # 0x67 # 0x04 # u32_le lt @
      0xb1 # 0x75 # 0x76 # 0xa9 # 0x14 # ph @ [0x88, 0xac, 0x68]" by (simp only:)
  then show "b = 0x63 # 0x76 # 0xa9 # 0x14 # sh @ 0x88 # 0xac # 0x67 # 0x04 # u32_le lt @
      0xb1 # 0x75 # 0x76 # 0xa9 # 0x14 # ph @ [0x88, 0xac, 0x68]" by simp
qed

lemma parse_p2cs_build:
  assumes "length sh = 20" "length ph = 20" "build_p2cs sh ph lt = Ok b"
  shows "parse_p2cs b = Some (sh, ph, lt)"
  using assms by (simp add: build_p2cs_20 parse_p2cs_def nth_append nth_Cons')

text \<open>
  C22: a script is classified as cold staking exactly when the builder produces it from the reported
  staking hash, spending hash and lock time, so parsing and building are inverse to each other.
\<close>

theorem classify_p2cs_iff:
  "classify_script b = P2CS sh ph lt \<longleftrightarrow>
     length sh = 20 \<and> length ph = 20 \<and> build_p2cs sh ph lt = Ok b"
proof
  assume "classify_script b = P2CS sh ph lt"
  then have "parse_p2cs b = Some (sh, ph, lt)"
    by (simp add: classify_script_def split: if_splits option.splits prod.splits)
  then show "length sh = 20 \<and> length ph = 20 \<and> build_p2cs sh ph lt = Ok b"
    using parse_p2cs_Some by (simp add: build_p2cs_20)
next
  assume b: "length sh = 20 \<and> length ph = 20 \<and> build_p2cs sh ph lt = Ok b"
  then have "length b = 60 \<and> b ! 0 = 0x63" by (auto simp: build_p2cs_20)
  moreover have "parse_p2cs b = Some (sh, ph, lt)" using b parse_p2cs_build by blast
  ultimately show "classify_script b = P2CS sh ph lt" by (simp add: classify_script_def)
qed

lemma classify_htlc:
  assumes "length ph = 32" "length ch = 20" "length rh = 20" "build_htlc ph ch rh expiry = Ok b"
  shows "classify_script b = Htlc"
proof -
  have "length b = 95 \<and> b ! 0 = 0x63 \<and> b ! 1 = 0xa8"
    using assms by (auto simp: build_htlc_Ok_iff push_prefix_def)
  then show ?thesis by (simp add: classify_script_def parse_p2cs_def)
qed

lemma classify_op_return:
  assumes "classify_script b = OpReturn"
  shows "\<exists>t. b = 0x6a # t"
proof -
  have "b \<noteq> [] \<and> b ! 0 = 0x6a"
    using assms by (simp add: classify_script_def split: if_splits option.splits prod.splits)
  then show ?thesis by (cases b) auto
qed

text \<open>
  C17: an output that the classifier calls a data output can never be spent: no unlocking script and
  no execution environment make the interpreter accept it.
\<close>

theorem op_return_never_spent:
  assumes "classify_script spk = OpReturn"
  shows "execute cr e s spk \<noteq> Ok ()"
  using classify_op_return [OF assms] op_return_unspendable by auto

theorem op_return_never_spent_witness:
  "classify_script [0x6a, 1, 9] = OpReturn \<and>
   execute sample_crypto (new_engine sample_env) [0x51] [0x6a, 1, 9] \<noteq> Ok ()"
proof -
  have "classify_script [0x6a, 1, 9] = OpReturn" by code_simp
  with op_return_never_spent [OF this] show ?thesis by blast
qed

end
