(* ===== verification/Block.thy ===== *)
theory Block
  imports Codec Contracts "HOL-Library.List_Lexorder" "HOL-Library.Product_Lexorder"
begin

text \<open>
  Transactions, blocks and their hashes: \<open>vtorrent-node/src/block.rs\<close>. A 32-byte array is a byte
  list, a \<open>String\<close> its UTF-8 bytes. Serialisation by the bincode crate and the hash functions are
  fields of \<open>node_lib\<close>, which extends the \<open>crypto\<close> record of the interpreter.
\<close>

section \<open>Data\<close>

record tx_input =
  prev_txid :: bytes
  prev_vout :: u32
  script_sig :: bytes
  sequence :: u32

record tx_output =
  out_value :: u64
  script_pubkey :: bytes

datatype tx_type = Standard | Coinbase | Coinstake | LegacyClaim | AtomicSwap | TorrentIncentive

record transaction =
  tx_version :: u32
  tx_kind :: tx_type
  inputs :: "tx_input list"
  outputs :: "tx_output list"
  lock_time :: u32
  claim_address :: "bytes option"
  claim_signature :: "bytes option"

record block_header =
  header_version :: u32
  prev_block_hash :: bytes
  merkle_root :: bytes
  utxo_root :: bytes
  timestamp :: u32
  bits :: u32
  nonce :: u32
  stake_modifier :: u64

record block =
  header :: block_header
  transactions :: "transaction list"

text \<open>The unspent output of \<open>vtorrent-node/src/chain.rs\<close>.\<close>

record utxo =
  u_txid :: bytes
  u_vout :: u32
  u_value :: u64
  u_script :: bytes
  u_height :: u32
  u_timestamp :: u32

text \<open>
  What the node calls of bincode, of secp256k1 recovery, of bs58 and of hex. \<open>None\<close> is a returned
  error.
\<close>

record ('sig, 'pk) node_lib = "('sig, 'pk) crypto" +
  serialize_tx :: "transaction \<Rightarrow> bytes option"
  serialize_header :: "block_header \<Rightarrow> bytes option"
  serialized_size_tx :: "transaction \<Rightarrow> u64 option"
  serialized_size_block :: "block \<Rightarrow> u64 option"
  recover_ecdsa :: "bytes \<Rightarrow> bytes \<Rightarrow> nat \<Rightarrow> 'pk option"
  serialize_pk :: "'pk \<Rightarrow> bytes"
  serialize_pk_uncompressed :: "'pk \<Rightarrow> bytes"
  bs58_encode :: "bytes \<Rightarrow> bytes"
  bs58_decode :: "bytes \<Rightarrow> bytes option"
  hex_encode :: "bytes \<Rightarrow> bytes"

section \<open>Transactions\<close>

definition tx_type_u32 :: "tx_type \<Rightarrow> u32" where
  "tx_type_u32 t = (case t of Standard \<Rightarrow> 0 | Coinbase \<Rightarrow> 1 | Coinstake \<Rightarrow> 2 | LegacyClaim \<Rightarrow> 3
     | AtomicSwap \<Rightarrow> 4 | TorrentIncentive \<Rightarrow> 5)"

definition txid :: "('sig, 'pk, 'x) node_lib_scheme \<Rightarrow> transaction \<Rightarrow> bytes" where
  "txid lib tx = sha256d lib (case serialize_tx lib tx of None \<Rightarrow> [] | Some b \<Rightarrow> b)"

text \<open>The bytes \<open>sighash\<close> feeds to the hasher, in the order of its \<open>update\<close> calls.\<close>

definition sighash_input :: "nat \<Rightarrow> bytes \<Rightarrow> nat \<times> tx_input \<Rightarrow> bytes" where
  "sighash_input input_index subscript = (\<lambda>(i, inp).
     let sig = (if i = input_index then subscript else []) in
     prev_txid inp @ u32_le (prev_vout inp) @ u64_le (of_nat (length sig)) @ sig @
     u32_le (sequence inp))"

definition sighash_preimage :: "transaction \<Rightarrow> nat \<Rightarrow> bytes \<Rightarrow> bytes" where
  "sighash_preimage tx input_index subscript =
     u32_le (tx_version tx) @ u32_le (tx_type_u32 (tx_kind tx)) @
     u64_le (of_nat (length (inputs tx))) @
     concat (map (sighash_input input_index subscript) (List.enumerate 0 (inputs tx))) @
     u64_le (of_nat (length (outputs tx))) @
     concat (map (\<lambda>out. u64_le (out_value out) @ u64_le (of_nat (length (script_pubkey out))) @
       script_pubkey out) (outputs tx)) @
     u32_le (lock_time tx) @
     (case claim_address tx of None \<Rightarrow> [0]
      | Some addr \<Rightarrow> 1 # u64_le (of_nat (length addr)) @ addr) @
     (case claim_signature tx of None \<Rightarrow> [0]
      | Some sig \<Rightarrow> 1 # u64_le (of_nat (length sig)) @ sig) @
     u32_le 1"

definition sighash ::
  "('sig, 'pk, 'x) node_lib_scheme \<Rightarrow> transaction \<Rightarrow> nat \<Rightarrow> bytes \<Rightarrow> bytes" where
  "sighash lib tx input_index subscript = sha256d lib (sighash_preimage tx input_index subscript)"

definition is_coinbase :: "transaction \<Rightarrow> bool" where
  "is_coinbase tx \<longleftrightarrow> tx_kind tx = Coinbase"

definition is_coinstake :: "transaction \<Rightarrow> bool" where
  "is_coinstake tx \<longleftrightarrow> tx_kind tx = Coinstake"

definition is_legacy_claim :: "transaction \<Rightarrow> bool" where
  "is_legacy_claim tx \<longleftrightarrow> tx_kind tx = LegacyClaim"

definition total_output :: "transaction \<Rightarrow> u64" where
  "total_output tx = foldl (\<lambda>acc out. sat_add acc (out_value out)) 0 (outputs tx)"

text \<open>The estimate used in tests; \<open>None\<close> is the panic of the product.\<close>

definition fee_sats :: "transaction \<Rightarrow> u64 option" where
  "fee_sats tx =
     (if is_coinbase tx \<or> is_coinstake tx \<or> is_legacy_claim tx then Some 0
      else if length (inputs tx) * 100000 \<ge> 2 ^ 64 then None
      else Some (sat_sub (of_nat (length (inputs tx)) * 100000) (total_output tx)))"

definition serialized_size :: "('sig, 'pk, 'x) node_lib_scheme \<Rightarrow> transaction \<Rightarrow> u64" where
  "serialized_size lib tx = (case serialized_size_tx lib tx of None \<Rightarrow> 0 | Some n \<Rightarrow> n)"

definition signals_rbf :: "transaction \<Rightarrow> bool" where
  "signals_rbf tx \<longleftrightarrow> list_ex (\<lambda>i. sequence i < 0xfffffffe) (inputs tx)"

section \<open>Headers and Merkle roots\<close>

definition header_hash :: "('sig, 'pk, 'x) node_lib_scheme \<Rightarrow> block_header \<Rightarrow> bytes" where
  "header_hash lib h = sha256d lib (case serialize_header lib h of None \<Rightarrow> [] | Some b \<Rightarrow> b)"

definition is_pos :: "block_header \<Rightarrow> bool" where
  "is_pos h \<longleftrightarrow> nonce h = 0"

definition zero_hash :: bytes where "zero_hash = replicate 32 0"

text \<open>The inner loop of the in-place reduction: slot \<open>i\<close> receives the hash of slots \<open>2i\<close>, \<open>2i+1\<close>.\<close>

definition merkle_combine :: "(bytes \<Rightarrow> bytes) \<Rightarrow> bytes list \<Rightarrow> nat \<Rightarrow> bytes list" where
  "merkle_combine h buf i = buf[i := h (buf ! (i * 2) @ buf ! (i * 2 + 1))]"

function merkle_loop :: "(bytes \<Rightarrow> bytes) \<Rightarrow> bytes list \<Rightarrow> nat \<Rightarrow> bytes" where
  "merkle_loop h buf len =
     (if len > 1 then
        let duplicate = buf ! (len - 1);
            buf1 = (if odd len then
                      (if length buf = len then buf @ [duplicate] else buf[len := duplicate])
                    else buf);
            len1 = (if odd len then len + 1 else len);
            half = len1 div 2
        in merkle_loop h (foldl (merkle_combine h) buf1 [0..<half]) half
      else buf ! 0)"
  by pat_completeness auto
termination
  by (relation "measure (\<lambda>(h, buf, len). len)") (auto elim!: oddE)

declare merkle_loop.simps [simp del]

definition compute_merkle_root_from_txids ::
  "('sig, 'pk, 'x) crypto_scheme \<Rightarrow> bytes list \<Rightarrow> bytes" where
  "compute_merkle_root_from_txids cr txids =
     (if length txids = 0 then zero_hash else merkle_loop (sha256d cr) txids (length txids))"

section \<open>Output eligibility and cold staking\<close>

definition is_utxo_eligible :: "tx_output \<Rightarrow> transaction \<Rightarrow> u32 \<Rightarrow> bool" where
  "is_utxo_eligible output tx height \<longleftrightarrow>
     (let is_op_return =
        (case from_bytes (script_pubkey output) of
           Ok s \<Rightarrow> classify_script s = OpReturn | Err _ \<Rightarrow> False) in
      if \<not> is_op_return then True else height = 0 \<and> is_legacy_claim tx)"

definition p2cs_redirected_value_with_redeem ::
  "bytes \<Rightarrow> bytes \<Rightarrow> tx_output list \<Rightarrow> u64" where
  "p2cs_redirected_value_with_redeem staked_script p2cs_script outs =
     (case from_bytes p2cs_script of
        Err _ \<Rightarrow> 0
      | Ok s \<Rightarrow> (case classify_script s of
          P2CS _ _ _ \<Rightarrow>
            foldl sat_add 0 (map out_value
              (filter (\<lambda>out. out_value out > 0 \<and> script_pubkey out \<noteq> staked_script) outs))
        | _ \<Rightarrow> 0))"

definition p2cs_redirected_value :: "bytes \<Rightarrow> tx_output list \<Rightarrow> u64" where
  "p2cs_redirected_value staked_script outs =
     p2cs_redirected_value_with_redeem staked_script staked_script outs"

section \<open>The unspent-output commitment\<close>

definition utxo_preimage :: "utxo \<Rightarrow> bytes" where
  "utxo_preimage u = u_txid u @ u32_le (u_vout u) @ u64_le (u_value u) @
     varint (length (u_script u)) @ u_script u @ u32_le (u_height u) @ u32_le (u_timestamp u)"

definition hash_utxo :: "('sig, 'pk, 'x) crypto_scheme \<Rightarrow> utxo \<Rightarrow> bytes" where
  "hash_utxo cr u = sha256d cr (utxo_preimage u)"

text \<open>\<open>sort_by\<close> is stable; byte arrays compare lexicographically.\<close>

definition utxo_key :: "utxo \<Rightarrow> bytes \<times> u32" where
  "utxo_key u = (u_txid u, u_vout u)"

definition compute_utxo_root_ordered ::
  "('sig, 'pk, 'x) crypto_scheme \<Rightarrow> utxo list \<Rightarrow> bytes" where
  "compute_utxo_root_ordered cr us = compute_merkle_root_from_txids cr (map (hash_utxo cr) us)"

definition compute_utxo_root_sorted ::
  "('sig, 'pk, 'x) crypto_scheme \<Rightarrow> utxo list \<Rightarrow> bytes" where
  "compute_utxo_root_sorted cr us =
     (if us = [] then zero_hash
      else compute_merkle_root_from_txids cr (map (hash_utxo cr) (sort_key utxo_key us)))"

definition block_hash :: "('sig, 'pk, 'x) node_lib_scheme \<Rightarrow> block \<Rightarrow> bytes" where
  "block_hash lib b = header_hash lib (header b)"

definition compute_merkle_root :: "('sig, 'pk, 'x) node_lib_scheme \<Rightarrow> block \<Rightarrow> bytes" where
  "compute_merkle_root lib b = compute_merkle_root_from_txids lib (map (txid lib) (transactions b))"

definition height :: "block \<Rightarrow> u32" where
  "height b = (case transactions b of [] \<Rightarrow> 0 | tx # _ \<Rightarrow> lock_time tx)"

end
