(* ===== verification/Merkle.thy ===== *)
theory Merkle
  imports Block
begin

text \<open>
  The in-place Merkle reduction of \<open>compute_merkle_root_from_txids\<close> computes the usual recursive
  tree, and the root binds the leaves: two lists of the same length with the same root are equal
  unless a hash collision is exhibited.
\<close>

section \<open>The recursive tree\<close>

fun pair_up :: "(bytes \<Rightarrow> bytes) \<Rightarrow> bytes list \<Rightarrow> bytes list" where
  "pair_up h [] = []"
| "pair_up h [x] = [h (x @ x)]"
| "pair_up h (x # y # r) = h (x @ y) # pair_up h r"

lemma length_pair_up [simp]: "length (pair_up h xs) = (length xs + 1) div 2"
  by (induction h xs rule: pair_up.induct) auto

function merkle_tree :: "(bytes \<Rightarrow> bytes) \<Rightarrow> bytes list \<Rightarrow> bytes" where
  "merkle_tree h xs =
     (case xs of [] \<Rightarrow> zero_hash | [x] \<Rightarrow> x | _ \<Rightarrow> merkle_tree h (pair_up h xs))"
  by pat_completeness auto
termination
  by (relation "measure (\<lambda>(h, xs). length xs)") auto

declare merkle_tree.simps [simp del]

lemma merkle_tree_simps [simp]:
  "merkle_tree h [] = zero_hash"
  "merkle_tree h [x] = x"
  "1 < length xs \<Longrightarrow> merkle_tree h xs = merkle_tree h (pair_up h xs)"
  by (simp_all add: merkle_tree.simps [of h "[]"] merkle_tree.simps [of h "[x]"])
    (subst merkle_tree.simps, auto split: list.splits)

section \<open>The loop computes the tree\<close>

lemma merkle_combine_fold:
  assumes "2 * k \<le> length buf"
  shows "length (foldl (merkle_combine h) buf [0..<k]) = length buf \<and>
    (\<forall>j < length buf. foldl (merkle_combine h) buf [0..<k] ! j =
      (if j < k then h (buf ! (2 * j) @ buf ! (2 * j + 1)) else buf ! j))"
  using assms
proof (induction k)
  case (Suc k)
  then show ?case by (auto simp: merkle_combine_def nth_list_update less_Suc_eq mult.commute)
qed simp

lemma pair_up_nth:
  "even (length xs) \<Longrightarrow> 2 * j < length xs \<Longrightarrow> pair_up h xs ! j = h (xs ! (2 * j) @ xs ! (2 * j + 1))"
proof (induction h xs arbitrary: j rule: pair_up.induct)
  case (3 h x y r)
  then show ?case by (cases j) auto
qed auto

lemma pair_up_odd: "odd (length xs) \<Longrightarrow> pair_up h (xs @ [last xs]) = pair_up h xs"
  by (induction h xs rule: pair_up.induct) (auto split: if_splits)

lemma merkle_round:
  assumes "even n" "n \<le> length buf"
  shows "take (n div 2) (foldl (merkle_combine h) buf [0..<n div 2]) = pair_up h (take n buf)"
proof (rule nth_equalityI)
  have k: "2 * (n div 2) \<le> length buf" using assms by simp
  show "length (take (n div 2) (foldl (merkle_combine h) buf [0..<n div 2])) =
      length (pair_up h (take n buf))"
    using merkle_combine_fold [OF k, of h] assms by (auto elim!: evenE)
  fix j assume "j < length (take (n div 2) (foldl (merkle_combine h) buf [0..<n div 2]))"
  then have "j < n div 2" "2 * j < n" using assms by auto
  then show "take (n div 2) (foldl (merkle_combine h) buf [0..<n div 2]) ! j =
      pair_up h (take n buf) ! j"
    using merkle_combine_fold [OF k, of h] assms pair_up_nth [of "take n buf" j h]
    by (auto elim!: evenE)
qed

lemma merkle_loop_tree:
  "0 < len \<Longrightarrow> len \<le> length buf \<Longrightarrow> merkle_loop h buf len = merkle_tree h (take len buf)"
proof (induction h buf len rule: merkle_loop.induct)
  case (1 h buf len)
  show ?case
  proof (cases "len > 1")
    case False
    then have "len = 1" using "1.prems" by simp
    then have "take len buf = [buf ! 0]" using "1.prems" by (cases buf) auto
    then show ?thesis using False by (simp add: merkle_loop.simps)
  next
    case True
    define dup where "dup = buf ! (len - 1)"
    define buf1 where "buf1 = (if odd len then
      (if length buf = len then buf @ [dup] else buf[len := dup]) else buf)"
    define len1 where "len1 = (if odd len then len + 1 else len)"
    have len1: "even len1" "len1 \<le> length buf1" "0 < len1 div 2"
      using "1.prems" True by (auto simp: len1_def buf1_def)
    have "take len buf \<noteq> []" using "1.prems" by auto
    then have dup: "last (take len buf) = dup"
      using "1.prems" by (simp add: last_conv_nth dup_def min_def)
    have "take len1 buf1 = (if odd len then take len buf @ [last (take len buf)] else take len buf)"
      using "1.prems" True
      by (auto simp: len1_def buf1_def dup take_Suc_conv_app_nth)
    then have up: "pair_up h (take len1 buf1) = pair_up h (take len buf)"
      using "1.prems" pair_up_odd [of "take len buf" h] by simp
    have "merkle_loop h buf len =
        merkle_loop h (foldl (merkle_combine h) buf1 [0..<len1 div 2]) (len1 div 2)"
      using True by (subst merkle_loop.simps) (simp add: buf1_def len1_def dup_def Let_def)
    also have "\<dots> = merkle_tree h (take (len1 div 2) (foldl (merkle_combine h) buf1 [0..<len1 div 2]))"
      using True len1 merkle_combine_fold [of "len1 div 2" buf1 h]
      by (intro "1.IH") (auto simp: buf1_def len1_def dup_def Let_def)
    also have "\<dots> = merkle_tree h (pair_up h (take len buf))"
      using merkle_round [OF len1(1,2), of h] up by simp
    also have "\<dots> = merkle_tree h (take len buf)" using True "1.prems" by simp
    finally show ?thesis .
  qed
qed

lemma merkle_root_tree:
  "compute_merkle_root_from_txids cr xs = merkle_tree (sha256d cr) xs"
  by (simp add: compute_merkle_root_from_txids_def merkle_loop_tree)

section \<open>Binding\<close>

text \<open>
  The messages hashed on one level and in the whole tree. A collision is only of interest between
  messages that the two computations hash: among all messages one always exists.
\<close>

fun node_messages :: "bytes list \<Rightarrow> bytes list" where
  "node_messages [] = []"
| "node_messages [x] = [x @ x]"
| "node_messages (x # y # r) = (x @ y) # node_messages r"

function merkle_messages :: "(bytes \<Rightarrow> bytes) \<Rightarrow> bytes list \<Rightarrow> bytes list" where
  "merkle_messages h xs =
     (if length xs \<le> 1 then [] else node_messages xs @ merkle_messages h (pair_up h xs))"
  by pat_completeness auto
termination
  by (relation "measure (\<lambda>(h, xs). length xs)") auto

declare merkle_messages.simps [simp del]

definition collides :: "(bytes \<Rightarrow> bytes) \<Rightarrow> bytes list \<Rightarrow> bytes list \<Rightarrow> bool" where
  "collides h as bs \<longleftrightarrow> (\<exists>a\<in>set as. \<exists>b\<in>set bs. a \<noteq> b \<and> h a = h b)"

lemma collides_append:
  "collides h as bs \<Longrightarrow> collides h (as @ cs) (bs @ ds)"
  "collides h cs ds \<Longrightarrow> collides h (as @ cs) (bs @ ds)"
  unfolding collides_def by auto

lemma map_eq_collides: "map h as = map h bs \<Longrightarrow> as = bs \<or> collides h as bs"
proof (induction as arbitrary: bs)
  case (Cons a as)
  then obtain b bs' where bs: "bs = b # bs'" "h a = h b" "map h as = map h bs'" by (cases bs) auto
  from Cons.IH [OF bs(3)] bs(1,2) show ?case by (auto simp: collides_def)
qed simp

lemma pair_up_messages: "pair_up h xs = map h (node_messages xs)"
  by (induction h xs rule: pair_up.induct) auto

lemma node_messages_inj:
  assumes "length xs = length ys" "\<forall>x \<in> set xs \<union> set ys. length x = 32"
    "node_messages xs = node_messages ys"
  shows "xs = ys"
  using assms
proof (induction xs arbitrary: ys rule: node_messages.induct)
  case (2 x)
  then show ?case by (cases ys) auto
next
  case (3 x y r)
  then obtain a b t where ys: "ys = a # b # t" by (cases ys; cases "tl ys") auto
  with 3 show ?case by simp
qed simp

lemma pair_up_inj:
  assumes "length xs = length ys" "\<forall>x \<in> set xs \<union> set ys. length x = 32" "pair_up h xs = pair_up h ys"
  shows "xs = ys \<or> collides h (node_messages xs) (node_messages ys)"
  using map_eq_collides [of h "node_messages xs" "node_messages ys"] assms node_messages_inj [of xs ys]
  by (auto simp: pair_up_messages)

lemma pair_up_len32:
  "\<forall>b. length (h b) = 32 \<Longrightarrow> \<forall>x \<in> set (pair_up h xs). length x = 32"
  by (induction h xs rule: pair_up.induct) auto

lemma merkle_binding:
  assumes "length xs = length ys" "\<forall>x \<in> set xs \<union> set ys. length x = 32"
    "\<forall>b. length (h b) = 32" "merkle_tree h xs = merkle_tree h ys"
  shows "xs = ys \<or> collides h (merkle_messages h xs) (merkle_messages h ys)"
  using assms
proof (induction h xs arbitrary: ys rule: merkle_messages.induct)
  case (1 h xs)
  show ?case
  proof (cases "length xs \<le> 1")
    case False
    let ?as = "merkle_messages h xs" and ?bs = "merkle_messages h ys"
    have msgs: "?as = node_messages xs @ merkle_messages h (pair_up h xs)"
        "?bs = node_messages ys @ merkle_messages h (pair_up h ys)"
      using False "1.prems"(1) by (simp_all add: merkle_messages.simps [of h xs] merkle_messages.simps [of h ys])
    have "length (pair_up h xs) = length (pair_up h ys)" using "1.prems"(1) by simp
    moreover have "\<forall>x \<in> set (pair_up h xs) \<union> set (pair_up h ys). length x = 32"
      using pair_up_len32 [OF "1.prems"(3)] by blast
    moreover have "merkle_tree h (pair_up h xs) = merkle_tree h (pair_up h ys)"
      using "1.prems"(1,4) False by (simp only: merkle_tree_simps(3) not_le)
    ultimately have "pair_up h xs = pair_up h ys \<or>
        collides h (merkle_messages h (pair_up h xs)) (merkle_messages h (pair_up h ys))"
      by (rule "1.IH" [OF False _ _ "1.prems"(3)])
    then show ?thesis
    proof
      assume "pair_up h xs = pair_up h ys"
      from pair_up_inj [OF "1.prems"(1,2) this] show ?thesis
        unfolding msgs by (blast intro: collides_append(1))
    next
      assume "collides h (merkle_messages h (pair_up h xs)) (merkle_messages h (pair_up h ys))"
      then show ?thesis unfolding msgs by (blast intro: collides_append(2))
    qed
  next
    case True
    then show ?thesis using "1.prems"(1,4) by (cases xs; cases ys) auto
  qed
qed

text \<open>The number of leaves matters: the last leaf of an odd level may be repeated.\<close>

lemma merkle_duplicate_last: "merkle_tree h [a, b, c] = merkle_tree h [a, b, c, c]"
  by simp

text \<open>
  C23: the in-place reduction over a scratch buffer, with its reused slots and its duplicated last
  entry, computes the recursive Merkle tree of the identifiers.
\<close>

theorem compute_merkle_root_tree:
  "compute_merkle_root_from_txids cr xs = merkle_tree (sha256d cr) xs"
  by (rule merkle_root_tree)

text \<open>
  C24: the Merkle root binds the list of identifiers. When two lists of the same length have the same
  root, they are equal, or two different messages among those hashed for the one and for the other
  list have the same hash: a collision is exhibited, not only known to exist. Identifiers and hashes
  have 32 bytes.
\<close>

theorem merkle_root_binding:
  assumes "length xs = length ys" "\<forall>x \<in> set xs \<union> set ys. length x = 32"
    "\<forall>b. length (sha256d cr b) = 32"
    "compute_merkle_root_from_txids cr xs = compute_merkle_root_from_txids cr ys"
  shows "xs = ys \<or>
    collides (sha256d cr) (merkle_messages (sha256d cr) xs) (merkle_messages (sha256d cr) ys)"
  using merkle_binding [OF assms(1-3)] assms(4) by (simp add: merkle_root_tree)

text \<open>The sample hash ignores the second half of a node, so two lists that differ there collide.\<close>

theorem merkle_root_binding_witness:
  "collides (sha256d sample_crypto) (merkle_messages (sha256d sample_crypto) [replicate 32 1, replicate 32 2])
     (merkle_messages (sha256d sample_crypto) [replicate 32 1, replicate 32 3])"
proof -
  let ?a = "replicate 32 (1 :: byte)" and ?b = "replicate 32 (2 :: byte)" and ?c = "replicate 32 (3 :: byte)"
  have "[?a, ?b] = [?a, ?c] \<or> collides (sha256d sample_crypto) (merkle_messages (sha256d sample_crypto) [?a, ?b])
      (merkle_messages (sha256d sample_crypto) [?a, ?c])"
  proof (rule merkle_root_binding)
    show "\<forall>b. length (sha256d sample_crypto b) = 32"
      by (simp add: sha256d_def sample_crypto_def pad_to_def)
    show "compute_merkle_root_from_txids sample_crypto [?a, ?b] =
        compute_merkle_root_from_txids sample_crypto [?a, ?c]"
      by (simp add: merkle_root_tree sha256d_def sample_crypto_def pad_to_def)
  qed simp_all
  then show ?thesis by simp
qed

end
