(* ===== verification/BlockProps.thy ===== *)
theory BlockProps
  imports Merkle "HOL-Library.Multiset"
begin

text \<open>
  What the hashes of \<open>block.rs\<close> commit to: the streaming signature hash equals the bincode-based
  one, its preimage determines the signed fields, the unspent-output commitment does not depend
  on the order of its input and binds the set, and the cold-staking rule is exact.
\<close>

section \<open>The bincode layout\<close>

text \<open>
  The layout that the comments of \<open>sighash\<close> document for bincode 1.x: little-endian integers, a
  64-bit length before each vector or string, a 32-bit variant index, one tag byte per option.
\<close>

definition input_enc :: "tx_input \<Rightarrow> bytes" where
  "input_enc i = prev_txid i @ u32_le (prev_vout i) @ bytes_enc (script_sig i) @ u32_le (sequence i)"

definition output_enc :: "tx_output \<Rightarrow> bytes" where
  "output_enc t = u64_le (out_value t) @ bytes_enc (script_pubkey t)"

definition tx_enc :: "transaction \<Rightarrow> bytes" where
  "tx_enc tx = u32_le (tx_version tx) @ u32_le (tx_type_u32 (tx_kind tx)) @
     vec_enc input_enc (inputs tx) @ vec_enc output_enc (outputs tx) @ u32_le (lock_time tx) @
     opt_enc bytes_enc (claim_address tx) @ opt_enc bytes_enc (claim_signature tx)"

definition bincode_layout :: "('sig, 'pk, 'x) node_lib_scheme \<Rightarrow> bool" where
  "bincode_layout lib \<longleftrightarrow> (\<forall>tx. serialize_tx lib tx = Some (tx_enc tx))"

definition input_wf :: "tx_input \<Rightarrow> bool" where
  "input_wf i \<longleftrightarrow> length (prev_txid i) = 32 \<and> bytes_wf (script_sig i)"

definition output_wf :: "tx_output \<Rightarrow> bool" where
  "output_wf t \<longleftrightarrow> bytes_wf (script_pubkey t)"

definition tx_wf :: "transaction \<Rightarrow> bool" where
  "tx_wf tx \<longleftrightarrow> vec_wf input_wf (inputs tx) \<and> vec_wf output_wf (outputs tx) \<and>
     pred_option bytes_wf (claim_address tx) \<and> pred_option bytes_wf (claim_signature tx)"

interpretation inputp: prefix_code input_wf input_enc
  by unfold_locales
    (auto simp: input_wf_def input_enc_def hashp.enc_append bytesp.enc_append u32c.enc_append_inject
      u32c.enc_inject intro: tx_input.equality)

interpretation outputp: prefix_code output_wf output_enc
  by unfold_locales
    (auto simp: output_wf_def output_enc_def bytesp.enc_append u64c.enc_append_inject
      intro: tx_output.equality)

lemma tx_type_u32_inj [simp]: "tx_type_u32 s = tx_type_u32 t \<longleftrightarrow> s = t"
  by (cases s; cases t) (simp_all add: tx_type_u32_def)

interpretation txp: prefix_code tx_wf tx_enc
  by unfold_locales
    (auto simp: tx_wf_def tx_enc_def u32c.enc_append_inject inputp.vec_append outputp.vec_append
      bytesp.opt_append intro: transaction.equality)

text \<open>Different transactions have different ids, unless SHA-256d collides on their encodings.\<close>

definition sha_collides :: "('sig, 'pk, 'x) crypto_scheme \<Rightarrow> bytes \<Rightarrow> bytes \<Rightarrow> bool" where
  "sha_collides cr a b \<longleftrightarrow> a \<noteq> b \<and> sha256d cr a = sha256d cr b"

lemma sha_eqD: "sha256d cr a = sha256d cr b \<Longrightarrow> a = b \<or> sha_collides cr a b"
  by (auto simp: sha_collides_def)

lemma txid_inj:
  assumes "bincode_layout lib" "tx_wf tx" "tx_wf tx'" "txid lib tx = txid lib tx'"
  shows "tx = tx' \<or> sha_collides lib (tx_enc tx) (tx_enc tx')"
  using sha_eqD [of lib "tx_enc tx" "tx_enc tx'"] assms txp.enc_inj [of tx tx']
  by (auto simp: txid_def bincode_layout_def)

section \<open>The signature hash\<close>

text \<open>A concrete instance of the library parameters that follows the layout.\<close>

definition sample_hex :: "bytes \<Rightarrow> bytes" where
  "sample_hex b = concat (map (\<lambda>x. let d = (\<lambda>n. of_nat (if n < 10 then 48 + n else 87 + n) :: byte)
     in [d (unat x div 16), d (unat x mod 16)]) b)"

definition sample_lib :: "(bytes, bytes) node_lib" where
  "sample_lib = \<lparr>sha256 = pad_to 32, sha1 = pad_to 20, ripemd160 = pad_to 20,
     sig_from_der = Some, pk_from_slice = Some, verify_ecdsa = (\<lambda>h s p. s = p),
     serialize_tx = (\<lambda>tx. Some (tx_enc tx)),
     serialize_header = (\<lambda>h. Some (u32_le (timestamp h) @ prev_block_hash h @ merkle_root h)),
     serialized_size_tx = (\<lambda>tx. Some (of_nat (length (tx_enc tx)))),
     serialized_size_block = (\<lambda>b. Some 1000),
     recover_ecdsa = (\<lambda>m s i. Some (take 33 s)),
     serialize_pk = (\<lambda>p. p), serialize_pk_uncompressed = (\<lambda>p. p @ [0]),
     bs58_encode = (\<lambda>b. b), bs58_decode = Some, hex_encode = sample_hex\<rparr>"

lemma sample_lib_layout: "bincode_layout sample_lib"
  by (simp add: bincode_layout_def sample_lib_def)

definition sample_tx :: transaction where
  "sample_tx = \<lparr>tx_version = 1, tx_kind = tx_type.Standard,
     inputs = [\<lparr>prev_txid = replicate 32 9, prev_vout = 0, script_sig = [1], sequence = 0\<rparr>],
     outputs = [\<lparr>out_value = 5000, script_pubkey = [0x51]\<rparr>], lock_time = 0,
     claim_address = None, claim_signature = None\<rparr>"

lemma sample_tx_wf: "tx_wf sample_tx"
  by (simp add: tx_wf_def sample_tx_def vec_wf_def input_wf_def output_wf_def bytes_wf_def)

text \<open>The transaction whose serialisation the signature hash is defined by.\<close>

definition with_subscript :: "transaction \<Rightarrow> nat \<Rightarrow> bytes \<Rightarrow> transaction" where
  "with_subscript tx k sub = tx\<lparr>inputs :=
     map (\<lambda>(j, i). i\<lparr>script_sig := if j = k then sub else []\<rparr>) (List.enumerate 0 (inputs tx))\<rparr>"

lemma sighash_preimage_enc: "sighash_preimage tx k sub = tx_enc (with_subscript tx k sub) @ u32_le 1"
proof -
  have "sighash_input k sub = input_enc \<circ> (\<lambda>(j, i). i\<lparr>script_sig := if j = k then sub else []\<rparr>)"
    by (auto simp: sighash_input_def input_enc_def bytes_enc_def fun_eq_iff Let_def)
  moreover have "(\<lambda>t. u64_le (out_value t) @ u64_le (of_nat (length (script_pubkey t))) @
      script_pubkey t) = output_enc"
    by (simp add: output_enc_def bytes_enc_def fun_eq_iff)
  ultimately show ?thesis
    by (simp add: sighash_preimage_def tx_enc_def with_subscript_def vec_enc_def bytes_enc_def
        split: option.splits)
qed

text \<open>
  C25: the streaming signature hash equals the definition it replaces: the double SHA-256 of the
  bincode serialisation of the transaction, with every unlocking script cleared except the signed
  input's, followed by the hash type, whenever bincode has its documented layout.
\<close>

theorem sighash_bincode:
  "bincode_layout lib \<Longrightarrow> sighash lib tx k sub =
     sha256d lib (the (serialize_tx lib (with_subscript tx k sub)) @ u32_le 1)"
  by (simp add: sighash_def sighash_preimage_enc bincode_layout_def)

theorem sighash_bincode_witness:
  "sighash sample_lib sample_tx 0 [7] =
     sha256d sample_lib (the (serialize_tx sample_lib (with_subscript sample_tx 0 [7])) @ u32_le 1)"
  by (rule sighash_bincode [OF sample_lib_layout])

lemma with_subscript_wf:
  assumes "tx_wf tx" "bytes_wf sub"
  shows "tx_wf (with_subscript tx k sub)"
proof -
  have "list_all input_wf (map (\<lambda>(j, i). i\<lparr>script_sig := if j = k then sub else []\<rparr>)
      (List.enumerate n is))" if "list_all input_wf is" for n and "is" :: "tx_input list"
    using that assms(2) by (induction "is" arbitrary: n) (auto simp: input_wf_def bytes_wf_def)
  then show ?thesis using assms by (simp add: tx_wf_def with_subscript_def vec_wf_def)
qed

text \<open>The parts of a transaction that a signature covers.\<close>

definition signed_part :: "transaction \<Rightarrow> transaction" where
  "signed_part tx = tx\<lparr>inputs := map (\<lambda>i. i\<lparr>script_sig := []\<rparr>) (inputs tx)\<rparr>"

lemma signed_part_with_subscript: "signed_part (with_subscript tx k sub) = signed_part tx"
proof -
  have "map (\<lambda>i. i\<lparr>script_sig := []\<rparr>) (map (\<lambda>(j, i). i\<lparr>script_sig := if j = k then sub else []\<rparr>)
      (List.enumerate n is)) = map (\<lambda>i. i\<lparr>script_sig := []\<rparr>) is" for n and "is" :: "tx_input list"
    by (induction "is" arbitrary: n) auto
  then show ?thesis by (simp add: signed_part_def with_subscript_def)
qed

lemma with_subscript_nth:
  "k < length (inputs tx) \<Longrightarrow> script_sig (inputs (with_subscript tx k sub) ! k) = sub"
  by (simp add: with_subscript_def nth_enumerate_eq)

text \<open>
  C26: a signature hash commits to everything but the unlocking scripts: two transactions with the
  same hash for an input agree on version, kind, outpoints, sequence numbers, outputs, lock time,
  claim fields and the script being satisfied, unless the two preimages differ and have the same
  SHA-256d hash.
\<close>

theorem sighash_commits:
  assumes wf: "tx_wf tx" "tx_wf tx'" "bytes_wf sub" "bytes_wf sub'"
    and k: "k < length (inputs tx)"
    and eq: "sighash lib tx k sub = sighash lib tx' k sub'"
  shows "(signed_part tx = signed_part tx' \<and> sub = sub') \<or>
    sha_collides lib (sighash_preimage tx k sub) (sighash_preimage tx' k sub')"
proof (cases "sha_collides lib (sighash_preimage tx k sub) (sighash_preimage tx' k sub')")
  case False
  then have "tx_enc (with_subscript tx k sub) @ u32_le 1 = tx_enc (with_subscript tx' k sub') @ u32_le 1"
    using sha_eqD [of lib "sighash_preimage tx k sub" "sighash_preimage tx' k sub'"] eq
    by (auto simp: sighash_def sighash_preimage_enc)
  then have same: "with_subscript tx k sub = with_subscript tx' k sub'"
    using wf by (simp add: txp.enc_inj with_subscript_wf)
  have "length (inputs tx') = length (inputs (with_subscript tx' k sub'))"
    by (simp add: with_subscript_def)
  also have "\<dots> = length (inputs tx)" unfolding same [symmetric] by (simp add: with_subscript_def)
  finally have k': "k < length (inputs tx')" using k by simp
  have "signed_part tx = signed_part tx'"
    using arg_cong [OF same, of signed_part] by (simp add: signed_part_with_subscript)
  moreover have "sub = sub'"
    using with_subscript_nth [OF k, of sub] with_subscript_nth [OF k', of sub'] same by simp
  ultimately show ?thesis by simp
qed simp

theorem sighash_commits_witness:
  "signed_part sample_tx = signed_part (sample_tx\<lparr>inputs := map (\<lambda>i. i\<lparr>script_sig := [2]\<rparr>) (inputs sample_tx)\<rparr>)"
proof -
  let ?tx = "sample_tx\<lparr>inputs := map (\<lambda>i. i\<lparr>script_sig := [2]\<rparr>) (inputs sample_tx)\<rparr>"
  have wf: "tx_wf ?tx"
    by (simp add: tx_wf_def sample_tx_def vec_wf_def input_wf_def output_wf_def bytes_wf_def)
  have p: "sighash_preimage sample_tx 0 [7] = sighash_preimage ?tx 0 [7]"
    by (simp add: sighash_preimage_def sighash_input_def sample_tx_def)
  then have eq: "sighash sample_lib sample_tx 0 [7] = sighash sample_lib ?tx 0 [7]" by (simp add: sighash_def)
  have "bytes_wf [7]" by (simp add: bytes_wf_def)
  from sighash_commits [OF sample_tx_wf wf this this _ eq] p show ?thesis
    by (simp add: sha_collides_def) (simp add: sample_tx_def)
qed

section \<open>The unspent-output commitment\<close>

definition utxo_wf :: "utxo \<Rightarrow> bool" where
  "utxo_wf u \<longleftrightarrow> length (u_txid u) = 32 \<and> length (u_script u) < 2 ^ 64"

interpretation utxop: prefix_code utxo_wf utxo_preimage
  by unfold_locales
    (auto simp: utxo_wf_def utxo_preimage_def hashp.enc_append u32c.enc_append_inject
      u64c.enc_append_inject varintp.enc_append intro: utxo.equality)

lemma utxo_root_ordered_sorted:
  "compute_utxo_root_sorted cr us = compute_utxo_root_ordered cr (sort_key utxo_key us)"
  by (simp add: compute_utxo_root_sorted_def compute_utxo_root_ordered_def
      compute_merkle_root_from_txids_def)

text \<open>Listing the outputs in another order gives the same root, as long as no two have the same outpoint.\<close>

lemma utxo_root_perm:
  assumes "mset us = mset vs" "distinct (map utxo_key us)"
  shows "compute_utxo_root_sorted cr us = compute_utxo_root_sorted cr vs"
proof -
  have "sort_key utxo_key us = sort_key utxo_key vs"
    using assms by (intro sort_key_inj_key_eq) (auto simp: distinct_map)
  then show ?thesis by (simp add: utxo_root_ordered_sorted)
qed

definition sample_utxo :: "u32 \<Rightarrow> utxo" where
  "sample_utxo n = \<lparr>u_txid = replicate 32 4, u_vout = n, u_value = 100000000, u_script = [0x51],
     u_height = 3, u_timestamp = 100\<rparr>"

text \<open>The messages hashed for the root: the outputs in their order, then the nodes of the tree.\<close>

definition utxo_messages :: "('sig, 'pk, 'x) crypto_scheme \<Rightarrow> utxo list \<Rightarrow> bytes list" where
  "utxo_messages cr us = map utxo_preimage us @ merkle_messages (sha256d cr) (map (hash_utxo cr) us)"

lemma map_hash_utxo_inj:
  assumes "list_all utxo_wf us" "list_all utxo_wf vs" "map (hash_utxo cr) us = map (hash_utxo cr) vs"
  shows "us = vs \<or> collides (sha256d cr) (map utxo_preimage us) (map utxo_preimage vs)"
proof -
  have "map (sha256d cr) (map utxo_preimage us) = map (sha256d cr) (map utxo_preimage vs)"
    using assms(3) by (simp add: hash_utxo_def [abs_def] comp_def)
  moreover have "us = vs" if "map utxo_preimage us = map utxo_preimage vs"
  proof -
    have "length us = length vs" using that by (rule map_eq_imp_length_eq)
    then show ?thesis using assms(1,2) that
      by (induction us vs rule: list_induct2) (use utxop.enc_inj in auto)
  qed
  ultimately show ?thesis using map_eq_collides by blast
qed

lemma utxo_root_ordered_binding:
  assumes len: "length us = length vs" and wf: "list_all utxo_wf us" "list_all utxo_wf vs"
    and sha: "\<forall>b. length (sha256 cr b) = 32"
    and eq: "compute_utxo_root_ordered cr us = compute_utxo_root_ordered cr vs"
  shows "us = vs \<or> collides (sha256d cr) (utxo_messages cr us) (utxo_messages cr vs)"
proof -
  have h32: "\<forall>b. length (sha256d cr b) = 32" using sha by (simp add: sha256d_def)
  have "map (hash_utxo cr) us = map (hash_utxo cr) vs \<or>
      collides (sha256d cr) (merkle_messages (sha256d cr) (map (hash_utxo cr) us))
        (merkle_messages (sha256d cr) (map (hash_utxo cr) vs))"
    using len eq h32
    by (intro merkle_binding)
      (auto simp: compute_utxo_root_ordered_def merkle_root_tree hash_utxo_def)
  then show ?thesis
  proof
    assume "map (hash_utxo cr) us = map (hash_utxo cr) vs"
    from map_hash_utxo_inj [OF wf this] show ?thesis
      unfolding utxo_messages_def by (blast intro: collides_append(1))
  next
    assume "collides (sha256d cr) (merkle_messages (sha256d cr) (map (hash_utxo cr) us))
      (merkle_messages (sha256d cr) (map (hash_utxo cr) vs))"
    then show ?thesis unfolding utxo_messages_def by (blast intro: collides_append(2))
  qed
qed

text \<open>
  C27: the unspent-output commitment binds the set. When two collections of the same size have the same
  root, they contain the same outputs, or two different messages among those hashed for the one and
  for the other have the same SHA-256d: a collision is exhibited. Identifiers and hashes have 32
  bytes, and scripts are shorter than \<open>2\<^sup>6\<^sup>4\<close> bytes.
\<close>

theorem utxo_root_binding:
  assumes "length us = length vs" "list_all utxo_wf us" "list_all utxo_wf vs"
    "\<forall>b. length (sha256 cr b) = 32" "compute_utxo_root_sorted cr us = compute_utxo_root_sorted cr vs"
  shows "mset us = mset vs \<or>
    collides (sha256d cr) (utxo_messages cr (sort_key utxo_key us)) (utxo_messages cr (sort_key utxo_key vs))"
proof -
  have "sort_key utxo_key us = sort_key utxo_key vs \<or>
      collides (sha256d cr) (utxo_messages cr (sort_key utxo_key us)) (utxo_messages cr (sort_key utxo_key vs))"
    using assms by (intro utxo_root_ordered_binding)
      (auto simp: utxo_root_ordered_sorted list_all_iff)
  then show ?thesis by (metis mset_sort)
qed

theorem utxo_root_binding_witness:
  "mset [sample_utxo 1, sample_utxo 2] = mset [sample_utxo 2, sample_utxo 1] \<or>
     collides (sha256d sample_lib) (utxo_messages sample_lib (sort_key utxo_key [sample_utxo 1, sample_utxo 2]))
       (utxo_messages sample_lib (sort_key utxo_key [sample_utxo 2, sample_utxo 1]))"
proof (rule utxo_root_binding)
  show "compute_utxo_root_sorted sample_lib [sample_utxo 1, sample_utxo 2] =
      compute_utxo_root_sorted sample_lib [sample_utxo 2, sample_utxo 1]"
    by (simp add: compute_utxo_root_sorted_def utxo_key_def sample_utxo_def word_le_nat_alt)
  show "\<forall>b. length (sha256 sample_lib b) = 32" by (simp add: sample_lib_def)
qed (simp_all add: utxo_wf_def sample_utxo_def)

section \<open>Saturating totals and the cold-staking rule\<close>

lemma foldl_sat_add:
  "unat (foldl sat_add a xs) = min (unat (a :: u64) + sum_list (map unat xs)) (2 ^ 64 - 1)"
proof (induction xs arbitrary: a)
  case Nil
  have "unat a < 2 ^ 64" using unsigned_less [where 'b = 64 and 'a = nat, of a] by simp
  then show ?case by simp
next
  case (Cons x xs)
  then show ?case by (simp add: unat_sat_add min_def)
qed

lemma total_output_eq:
  "unat (total_output tx) = min (sum_list (map (unat \<circ> out_value) (outputs tx))) (2 ^ 64 - 1)"
proof -
  have "total_output tx = foldl sat_add 0 (map out_value (outputs tx))"
    by (simp add: total_output_def foldl_map)
  then show ?thesis by (simp add: foldl_sat_add comp_def)
qed

text \<open>
  The cold-staking rule is exact: the redirected value is zero exactly when every output of positive
  value pays the staked script again. Saturation cannot hide a redirected amount.
\<close>

lemma p2cs_relock_iff:
  assumes "from_bytes redeem = Ok s" "classify_script s = P2CS sh ph lt"
  shows "p2cs_redirected_value_with_redeem staked redeem outs = 0 \<longleftrightarrow>
     (\<forall>t \<in> set outs. out_value t > 0 \<longrightarrow> script_pubkey t = staked)"
proof -
  let ?vs = "map out_value (filter (\<lambda>t. out_value t > 0 \<and> script_pubkey t \<noteq> staked) outs)"
  have "foldl sat_add 0 ?vs = 0 \<longleftrightarrow> unat (foldl sat_add 0 ?vs) = 0"
    by (simp only: unat_eq_0)
  also have "\<dots> \<longleftrightarrow> sum_list (map unat ?vs) = 0"
  proof -
    have "min (unat (0 :: u64) + s) (2 ^ 64 - 1) = 0 \<longleftrightarrow> s = 0" for s by (auto simp: min_def)
    then show ?thesis unfolding foldl_sat_add .
  qed
  also have "\<dots> \<longleftrightarrow> (\<forall>t \<in> set outs. out_value t > 0 \<longrightarrow> script_pubkey t = staked)"
    by (auto simp: sum_list_eq_0_iff unat_eq_0)
  finally show ?thesis using assms by (simp add: p2cs_redirected_value_with_redeem_def)
qed

end
