(* ===== verification/Address.thy ===== *)
theory Address
  imports BlockProps
begin

text \<open>
  Base58Check addresses of \<open>vtorrent-core/src/address.rs\<close> and the checksum of
  \<open>vtorrent-core/src/crypto.rs\<close>. The Base58 alphabet conversion is the bs58 crate's.
\<close>

record address =
  addr_hash :: bytes
  addr_version :: byte

datatype core_error = InvalidAddress | ChecksumMismatch

definition checksum :: "('sig, 'pk, 'x) crypto_scheme \<Rightarrow> bytes \<Rightarrow> bytes" where
  "checksum cr d = take 4 (sha256d cr d)"

definition serialize_pubkey :: "('sig, 'pk, 'x) node_lib_scheme \<Rightarrow> 'pk \<Rightarrow> bool \<Rightarrow> bytes" where
  "serialize_pubkey lib pk compressed =
     (if compressed then serialize_pk lib pk else serialize_pk_uncompressed lib pk)"

definition from_pubkey :: "('sig, 'pk, 'x) node_lib_scheme \<Rightarrow> 'pk \<Rightarrow> bool \<Rightarrow> byte \<Rightarrow> address" where
  "from_pubkey lib pk compressed version =
     \<lparr>addr_hash = hash160 lib (serialize_pubkey lib pk compressed), addr_version = version\<rparr>"

definition parse_address ::
  "('sig, 'pk, 'x) node_lib_scheme \<Rightarrow> bytes \<Rightarrow> (address, core_error) result" where
  "parse_address lib s =
     (case bs58_decode lib s of
        None \<Rightarrow> Err InvalidAddress
      | Some decoded \<Rightarrow>
          if length decoded \<noteq> 25 then Err InvalidAddress
          else let payload = take 21 decoded; check = drop 21 decoded in
            if check \<noteq> checksum lib payload then Err ChecksumMismatch
            else Ok \<lparr>addr_hash = take 20 (drop 1 payload), addr_version = payload ! 0\<rparr>)"

definition encode_address :: "('sig, 'pk, 'x) node_lib_scheme \<Rightarrow> address \<Rightarrow> bytes" where
  "encode_address lib a =
     (let payload = addr_version a # addr_hash a in
      bs58_encode lib (payload @ checksum lib payload))"

definition from_hash160 :: "bytes \<Rightarrow> byte \<Rightarrow> (address, core_error) result" where
  "from_hash160 h version =
     (if length h = 20 then Ok \<lparr>addr_hash = h, addr_version = version\<rparr> else Err InvalidAddress)"

definition PUBKEY_ADDRESS_PREFIX :: byte where "PUBKEY_ADDRESS_PREFIX = 70"

definition is_legacy :: "address \<Rightarrow> bool" where
  "is_legacy a \<longleftrightarrow> addr_version a = PUBKEY_ADDRESS_PREFIX"

definition p2pkh_script_pubkey :: "address \<Rightarrow> bytes" where
  "p2pkh_script_pubkey a = [0x76, 0xa9, 0x14] @ addr_hash a @ [0x88, 0xac]"

definition validate_p2pkh ::
  "('sig, 'pk, 'x) node_lib_scheme \<Rightarrow> bytes \<Rightarrow> (address, core_error) result" where
  "validate_p2pkh lib s = res_bind (parse_address lib s) (\<lambda>addr.
     if addr_version addr \<noteq> PUBKEY_ADDRESS_PREFIX then Err InvalidAddress else Ok addr)"

section \<open>Round trip and the locking script\<close>

text \<open>What the callers rely on of the Base58 codec and of SHA-256.\<close>

definition bs58_ok :: "('sig, 'pk, 'x) node_lib_scheme \<Rightarrow> bool" where
  "bs58_ok lib \<longleftrightarrow> (\<forall>b. bs58_decode lib (bs58_encode lib b) = Some b)"

definition sha256_len :: "('sig, 'pk, 'x) crypto_scheme \<Rightarrow> bool" where
  "sha256_len cr \<longleftrightarrow> (\<forall>b. length (sha256 cr b) = 32)"

lemma parse_encode_address:
  assumes "bs58_ok lib" "sha256_len lib" "length (addr_hash a) = 20"
  shows "parse_address lib (encode_address lib a) = Ok a"
  using assms
  by (simp add: parse_address_def encode_address_def bs58_ok_def sha256_len_def checksum_def
      sha256d_def Let_def)

text \<open>
  C33: an address survives printing and parsing: the Base58Check string of an address with a 20-byte
  hash parses back to that address.
\<close>

theorem address_roundtrip:
  assumes "bs58_ok lib" "sha256_len lib" "length (addr_hash a) = 20"
  shows "parse_address lib (encode_address lib a) = Ok a"
  by (rule parse_encode_address [OF assms])

theorem address_roundtrip_witness:
  "parse_address sample_lib (encode_address sample_lib \<lparr>addr_hash = sample_hash, addr_version = 70\<rparr>) =
     Ok \<lparr>addr_hash = sample_hash, addr_version = 70\<rparr>"
  by (rule address_roundtrip)
    (simp_all add: bs58_ok_def sha256_len_def sample_lib_def)

lemma encode_address_inj:
  assumes "bs58_ok lib" "sha256_len lib" "length (addr_hash a) = 20" "length (addr_hash b) = 20"
    "encode_address lib a = encode_address lib b"
  shows "a = b"
proof -
  have "Ok a = (Ok b :: (address, core_error) result)"
    using parse_encode_address [OF assms(1-3)] parse_encode_address [OF assms(1,2,4)] assms(5)
    by (simp only:)
  then show ?thesis by simp
qed

lemma parse_address_hash_length:
  "parse_address lib s = Ok a \<Longrightarrow> length (addr_hash a) = 20"
  by (auto simp: parse_address_def Let_def split: option.splits if_splits)

text \<open>The core crate's script is the one the script crate builds and classifies.\<close>

lemma p2pkh_script_pubkey_build:
  "length (addr_hash a) = 20 \<Longrightarrow> build_p2pkh (addr_hash a) = Ok (p2pkh_script_pubkey a)"
  by (simp add: build_p2pkh_20 p2pkh_script_pubkey_def)

end
