(* ===== verification/Consensus.thy ===== *)
theory Consensus
  imports BlockProps Address
begin

text \<open>
  Consensus rules of \<open>vtorrent-node/src/consensus.rs\<close>: rewards, stake kernels, block and
  transaction checks, and the legacy claim. Error messages keep their fixed text; the formatted
  arguments are dropped. The clock reading of \<open>now_timestamp_u32\<close> is an argument.
\<close>

section \<open>Errors\<close>

text \<open>\<open>Panic\<close> is not a variant of the source: it marks the runs that a failed \<open>expect\<close> or index stops.\<close>

datatype node_error =
    Io string
  | InvalidBlock string
  | InvalidTransaction string
  | PolicyRejected string
  | ChainError string
  | ClaimAlreadyProcessed bytes
  | InvalidClaim string
  | GenesisMismatch
  | InsufficientFunds u64 u64
  | DoubleSpend
  | Storage string
  | AtomicSwapError string
  | NodeInvalidAddress string
  | Panic string

type_synonym 'a nresult = "('a, node_error) result"

section \<open>Constants and parameters\<close>

definition MAX_BLOCK_SIZE :: u64 where "MAX_BLOCK_SIZE = 1000000"
definition COIN :: u64 where "COIN = 100000000"
definition MIN_STAKE_AGE :: u64 where "MIN_STAKE_AGE = 6 * 60 * 60"
definition MAX_STAKE_AGE :: u64 where "MAX_STAKE_AGE = 6 * 24 * 60 * 60"
definition MIN_STAKE_AMOUNT :: u64 where "MIN_STAKE_AMOUNT = COIN"
definition MAX_SUPPLY :: u64 where "MAX_SUPPLY = 20000000 * COIN"
definition MAX_MONEY :: u64 where "MAX_MONEY = MAX_SUPPLY"
definition TARGET_BLOCK_TIME :: u64 where "TARGET_BLOCK_TIME = 60"

record consensus_params =
  pos_annual_rate_bps :: u32
  reward_age_cap :: u64
  max_stake_age :: u64
  min_stake_age :: u64
  min_stake_amount :: u64
  target_block_time :: u64

text \<open>\<open>POS_ANNUAL_RATE\<close> is \<open>0.05\<close>, so the rate in basis points is 500.\<close>

definition default_params :: consensus_params where
  "default_params = \<lparr>pos_annual_rate_bps = 500, reward_age_cap = MAX_STAKE_AGE,
     max_stake_age = MAX_STAKE_AGE, min_stake_age = MIN_STAKE_AGE,
     min_stake_amount = MIN_STAKE_AMOUNT, target_block_time = TARGET_BLOCK_TIME\<rparr>"

section \<open>Rewards\<close>

text \<open>The products are taken at the width of \<open>u128\<close> and panic beyond it; the final cast truncates to 64 bits.\<close>

type_synonym u128 = "128 word"

definition compute_pos_reward_with :: "consensus_params \<Rightarrow> u64 \<Rightarrow> u64 \<Rightarrow> u64 nresult" where
  "compute_pos_reward_with params stake_amount coin_age_seconds =
     (let age = min coin_age_seconds (reward_age_cap params);
          numerator = (ucast stake_amount :: u128) * ucast age * ucast (pos_annual_rate_bps params);
          denominator = (10000 * 86400 * 365 :: u128)
      in if unat stake_amount * unat age * unat (pos_annual_rate_bps params) < 2 ^ 128
         then Ok (ucast (numerator div denominator))
         else Err (Panic ''attempt to multiply with overflow''))"

definition compute_pos_reward :: "u64 \<Rightarrow> u64 \<Rightarrow> u64 nresult" where
  "compute_pos_reward stake_amount coin_age_seconds =
     compute_pos_reward_with default_params stake_amount coin_age_seconds"

section \<open>Stake kernels\<close>

definition compute_stake_modifier :: "('sig, 'pk, 'x) crypto_scheme \<Rightarrow> u64 \<Rightarrow> bytes \<Rightarrow> u64" where
  "compute_stake_modifier cr prev_stake_modifier prev_hash =
     u64_of_le (take 8 (sha256d cr (u64_le prev_stake_modifier @ prev_hash)))"

definition stake_kernel_hash ::
  "('sig, 'pk, 'x) crypto_scheme \<Rightarrow> u64 \<Rightarrow> utxo \<Rightarrow> u32 \<Rightarrow> bytes" where
  "stake_kernel_hash cr modifier u ts =
     sha256d cr (u64_le modifier @ u_txid u @ u32_le (u_vout u) @ u32_le ts)"

definition kernel_val :: "('sig, 'pk, 'x) crypto_scheme \<Rightarrow> u64 \<Rightarrow> utxo \<Rightarrow> u32 \<Rightarrow> u32" where
  "kernel_val cr modifier u ts = u32_of_le (take 4 (stake_kernel_hash cr modifier u ts))"

definition check_stake_kernel ::
  "('sig, 'pk, 'x) crypto_scheme \<Rightarrow> u64 \<Rightarrow> utxo \<Rightarrow> u32 \<Rightarrow> bool" where
  "check_stake_kernel cr modifier u ts =
     (let target = (ucast (min (u_value u div 1000) 0xffffffff) :: u32)
      in kernel_val cr modifier u ts \<le> target)"

definition is_stakeable_with :: "consensus_params \<Rightarrow> utxo \<Rightarrow> bool" where
  "is_stakeable_with params u =
     (if u_value u < min_stake_amount params then False
      else case from_bytes (u_script u) of
        Err _ \<Rightarrow> False
      | Ok s \<Rightarrow> (case classify_script s of P2PKH \<Rightarrow> True | P2CS _ _ _ \<Rightarrow> True | _ \<Rightarrow> False))"

definition is_stakeable :: "utxo \<Rightarrow> bool" where
  "is_stakeable u = is_stakeable_with default_params u"

definition check_stake_kernel_v2 ::
  "('sig, 'pk, 'x) crypto_scheme \<Rightarrow> u64 \<Rightarrow> utxo \<Rightarrow> u32 \<Rightarrow> u64 \<Rightarrow> bool" where
  "check_stake_kernel_v2 cr modifier u ts total_staked =
     (if total_staked = 0 then False
      else (ucast (kernel_val cr modifier u ts) :: u128) * ucast total_staked \<le>
        push_bit 32 (ucast (u_value u)))"

section \<open>Transactions\<close>

text \<open>The loop over the outputs, with the running index.\<close>

fun check_outputs :: "bool \<Rightarrow> nat \<Rightarrow> tx_output list \<Rightarrow> unit nresult" where
  "check_outputs coinstake index [] = Ok ()"
| "check_outputs coinstake index (out # outs) =
     (let coinstake_marker = (coinstake \<and> index = 0 \<and> out_value out = 0 \<and> script_pubkey out = [])
      in if out_value out = 0 \<and> \<not> coinstake_marker
         then Err (InvalidTransaction ''Output value cannot be zero'')
         else if out_value out > MAX_MONEY
         then Err (InvalidTransaction ''Output value exceeds MAX_MONEY'')
         else check_outputs coinstake (index + 1) outs)"

definition outpoint :: "tx_input \<Rightarrow> bytes \<times> u32" where
  "outpoint i = (prev_txid i, prev_vout i)"

text \<open>The loop that inserts each outpoint into the set of those seen.\<close>

fun check_duplicates :: "(bytes \<times> u32) set \<Rightarrow> tx_input list \<Rightarrow> unit nresult" where
  "check_duplicates seen [] = Ok ()"
| "check_duplicates seen (i # is) =
     (if outpoint i \<in> seen then Err (InvalidTransaction ''Duplicate input'')
      else check_duplicates (insert (outpoint i) seen) is)"

definition validate_transaction :: "transaction \<Rightarrow> unit nresult" where
  "validate_transaction tx =
     (if outputs tx = [] then Err (InvalidTransaction ''Transaction has no outputs'')
      else res_bind (check_outputs (is_coinstake tx) 0 (outputs tx)) (\<lambda>_.
        if is_legacy_claim tx then
          (if claim_address tx = None then Err (InvalidClaim ''Missing claim address'')
           else if claim_signature tx = None then Err (InvalidClaim ''Missing claim signature'')
           else if inputs tx \<noteq> []
           then Err (InvalidClaim ''Legacy claim must not have transaction inputs'')
           else Ok ())
        else if is_coinstake tx then
          (if length (inputs tx) \<noteq> 1
           then Err (InvalidTransaction ''Coinstake must have exactly one input'') else Ok ())
        else if is_coinbase tx then Ok ()
        else if inputs tx = [] then Err (InvalidTransaction ''Transaction has no inputs'')
        else check_duplicates {} (inputs tx)))"

section \<open>Blocks\<close>

fun check_single_mint :: "transaction list \<Rightarrow> unit nresult" where
  "check_single_mint [] = Ok ()"
| "check_single_mint (tx # txs) =
     (if is_coinbase tx \<or> is_coinstake tx
      then Err (InvalidBlock ''Block contains more than one coinbase/coinstake transaction'')
      else check_single_mint txs)"

fun check_each :: "('a \<Rightarrow> unit nresult) \<Rightarrow> 'a list \<Rightarrow> unit nresult" where
  "check_each f [] = Ok ()"
| "check_each f (x # xs) = res_bind (f x) (\<lambda>_. check_each f xs)"

definition check_first :: "block \<Rightarrow> u32 \<Rightarrow> bool \<Rightarrow> unit nresult" where
  "check_first b prev_height allow_pow =
     (let first_tx = hd (transactions b) in
      if is_pos (header b) then
        (let is_bootstrap = (prev_height = 0 \<and> tx_kind first_tx = LegacyClaim \<and>
               length (transactions b) = 1)
         in if tx_kind first_tx \<noteq> Coinstake \<and> \<not> is_bootstrap
            then Err (InvalidBlock ''PoS block must begin with a coinstake transaction'') else Ok ())
      else if \<not> allow_pow then Err (InvalidBlock ''Proof-of-Work blocks are not permitted'')
      else if tx_kind first_tx \<noteq> Coinbase
      then Err (InvalidBlock ''PoW test block must begin with a coinbase transaction'') else Ok ())"

definition validate_block_inner ::
  "('sig, 'pk, 'x) node_lib_scheme \<Rightarrow> u32 \<Rightarrow> block \<Rightarrow> u32 \<Rightarrow> u32 \<Rightarrow> u32 \<Rightarrow> u64 \<Rightarrow> bytes \<Rightarrow> bool \<Rightarrow>
     unit nresult" where
  "validate_block_inner lib now b prev_height prev_timestamp prev_bits prev_modifier prev_hash
       allow_pow =
     (if transactions b = [] then Err (InvalidBlock ''Block has no transactions'')
      else if (case serialized_size_block lib b of None \<Rightarrow> -1 | Some n \<Rightarrow> n) > MAX_BLOCK_SIZE
      then Err (InvalidBlock ''Block size exceeds maximum'')
      else if prev_height = - 1 then Err (Panic ''attempt to add with overflow'')
      else if height b \<noteq> prev_height + 1
      then Err (InvalidBlock ''Block height does not follow parent height'')
      else if bits (header b) \<noteq> prev_bits
      then Err (InvalidBlock ''Block difficulty does not match parent difficulty'')
      else if stake_modifier (header b) \<noteq> compute_stake_modifier lib prev_modifier prev_hash
      then Err (InvalidBlock ''Stake modifier does not match expected'')
      else res_bind (check_first b prev_height allow_pow) (\<lambda>_.
        res_bind (check_single_mint (drop 1 (transactions b))) (\<lambda>_.
          if timestamp (header b) > sat_add now 7200
          then Err (InvalidBlock ''Block timestamp is too far in the future'')
          else if timestamp (header b) \<le> prev_timestamp
          then Err (InvalidBlock ''Block timestamp must be greater than previous block'')
          else if compute_merkle_root lib b \<noteq> merkle_root (header b)
          then Err (InvalidBlock ''Merkle root mismatch'')
          else check_each validate_transaction (transactions b))))"

definition validate_block ::
  "('sig, 'pk, 'x) node_lib_scheme \<Rightarrow> u32 \<Rightarrow> block \<Rightarrow> u32 \<Rightarrow> u32 \<Rightarrow> u32 \<Rightarrow> u64 \<Rightarrow> bytes \<Rightarrow>
     unit nresult" where
  "validate_block lib now b prev_height prev_timestamp prev_bits prev_modifier prev_hash =
     validate_block_inner lib now b prev_height prev_timestamp prev_bits prev_modifier prev_hash
       False"

section \<open>Legacy claims\<close>

definition ascii :: "string \<Rightarrow> bytes" where
  "ascii s = map of_char s"

text \<open>\<open>u64::to_string\<close>: decimal digits, most significant first.\<close>

fun decimal_digits :: "nat \<Rightarrow> bytes" where
  "decimal_digits n = (if n < 10 then [of_nat (48 + n)]
     else decimal_digits (n div 10) @ [of_nat (48 + n mod 10)])"

declare decimal_digits.simps [simp del]

definition msg_varint :: "nat \<Rightarrow> bytes" where
  "msg_varint n =
     (if n < 0xfd then [of_nat n]
      else if n \<le> 0xffff then 0xfd # u16_le (of_nat n)
      else 0xfe # u32_le (of_nat n))"

definition bitcoin_signed_message_hash ::
  "('sig, 'pk, 'x) crypto_scheme \<Rightarrow> bytes \<Rightarrow> bytes \<Rightarrow> bytes" where
  "bitcoin_signed_message_hash cr magic message =
     (let magic_bytes = magic @ [10] in
      sha256d cr (of_nat (length magic_bytes) # magic_bytes @ msg_varint (length message) @ message))"

definition claim_message_v2 ::
  "('sig, 'pk, 'x) node_lib_scheme \<Rightarrow> bytes \<Rightarrow> tx_output list \<Rightarrow> bytes" where
  "claim_message_v2 lib addr outs = addr @ concat (map (\<lambda>out.
     124 # decimal_digits (unat (out_value out)) @ 58 # hex_encode lib (script_pubkey out)) outs)"

definition claim_message_hash_v2 ::
  "('sig, 'pk, 'x) node_lib_scheme \<Rightarrow> bytes \<Rightarrow> tx_output list \<Rightarrow> bytes" where
  "claim_message_hash_v2 lib addr outs =
     bitcoin_signed_message_hash lib (ascii ''vTorrent Signed Message v2'')
       (claim_message_v2 lib addr outs)"

definition claim_message_hash :: "('sig, 'pk, 'x) node_lib_scheme \<Rightarrow> bytes \<Rightarrow> bytes" where
  "claim_message_hash lib addr =
     bitcoin_signed_message_hash lib (ascii ''vTorrent Signed Message'') addr"

definition pubkey_to_vtorrent_address ::
  "('sig, 'pk, 'x) node_lib_scheme \<Rightarrow> 'pk \<Rightarrow> bool \<Rightarrow> bytes" where
  "pubkey_to_vtorrent_address lib pk compressed =
     (let pubkey_bytes = (if compressed then serialize_pk lib pk
                          else serialize_pk_uncompressed lib pk)
      in case from_hash160 (hash160 lib pubkey_bytes) 70 of
           Ok a \<Rightarrow> encode_address lib a | Err _ \<Rightarrow> [])"

text \<open>
  \<open>recover_ecdsa\<close> stands for parsing the compact signature with the recovery id and recovering the
  key; each of the three library errors is \<open>None\<close>. The recovery id is below 4 by the mask.
\<close>

definition verify_claim_signature ::
  "('sig, 'pk, 'x) node_lib_scheme \<Rightarrow> bytes \<Rightarrow> bytes \<Rightarrow> bytes \<Rightarrow> unit nresult" where
  "verify_claim_signature lib message_hash addr sig_bytes =
     (if length sig_bytes \<noteq> 65 then Err (InvalidClaim ''Expected 65-byte compact signature'')
      else let flag = sig_bytes ! 0 - 27;
               rec_id = unat (flag AND 3);
               compressed = (flag \<ge> 4) in
        case recover_ecdsa lib message_hash (drop 1 sig_bytes) rec_id of
          None \<Rightarrow> Err (InvalidClaim ''Key recovery failed'')
        | Some pk \<Rightarrow>
            if pubkey_to_vtorrent_address lib pk compressed \<noteq> addr
            then Err (InvalidClaim ''Address mismatch'') else Ok ())"

definition validate_legacy_claim ::
  "('sig, 'pk, 'x) node_lib_scheme \<Rightarrow> transaction \<Rightarrow> u64 \<Rightarrow> unit nresult" where
  "validate_legacy_claim lib tx snapshot_balance =
     (if \<not> is_legacy_claim tx then Err (InvalidClaim ''Not a claim transaction'')
      else case claim_address tx of
        None \<Rightarrow> Err (InvalidClaim ''Missing claim address'')
      | Some claim_addr \<Rightarrow>
          if snapshot_balance = 0 then Err (InvalidClaim ''Address has no balance in snapshot'')
          else if total_output tx \<noteq> snapshot_balance
          then Err (InvalidClaim ''a claim must match the snapshot balance exactly'')
          else case claim_signature tx of
            None \<Rightarrow> Err (InvalidClaim ''Missing claim signature'')
          | Some sig_bytes \<Rightarrow>
              (case verify_claim_signature lib (claim_message_hash_v2 lib claim_addr (outputs tx))
                 claim_addr sig_bytes of
                 Err _ \<Rightarrow> Err (InvalidClaim ''Signature verification failed'') | Ok _ \<Rightarrow> Ok ()))"

end
