(* ===== verification/ConsensusProps.thy ===== *)
theory ConsensusProps
  imports Consensus
begin

text \<open>
  Correctness of the consensus rules: the reward is the exact floor with no overflow, the
  kernel test is the exact stake share, the transaction and block checks accept exactly what they
  document, and a claim signature binds the outputs.
\<close>

section \<open>Widening casts\<close>

lemma unat_u64_lt: "unat (w :: u64) < 2 ^ 64"
  using unsigned_less [where 'b = 64 and 'a = nat, of w] by simp

lemma unat_u32_lt: "unat (w :: u32) < 2 ^ 32"
  using unsigned_less [where 'b = 32 and 'a = nat, of w] by simp

lemma unat_ucast_128 [simp]:
  "unat (ucast (w :: u64) :: u128) = unat w" "unat (ucast (v :: u32) :: u128) = unat v"
  using unat_u64_lt [of w] unat_u32_lt [of v]
  by (simp_all add: unsigned_ucast_eq take_bit_nat_eq_self)

lemma unat_min: "unat (min a b) = min (unat a) (unat (b :: 'a::len word))"
  by (simp add: min_def word_le_nat_alt)

section \<open>Rewards\<close>

definition REWARD_DENOMINATOR :: nat where "REWARD_DENOMINATOR = 10000 * 86400 * 365"

text \<open>The real product, before any cast.\<close>

definition reward_numerator :: "consensus_params \<Rightarrow> u64 \<Rightarrow> u64 \<Rightarrow> nat" where
  "reward_numerator params stake age =
     unat stake * min (unat age) (unat (reward_age_cap params)) * unat (pos_annual_rate_bps params)"

lemma compute_pos_reward_exact:
  assumes "reward_numerator params stake age < 2 ^ 64 * REWARD_DENOMINATOR"
  shows "\<exists>r. compute_pos_reward_with params stake age = Ok r \<and>
     unat r = reward_numerator params stake age div REWARD_DENOMINATOR"
proof -
  let ?w = "(ucast stake :: u128) * ucast (min age (reward_age_cap params)) *
     ucast (pos_annual_rate_bps params)"
  let ?p = "unat stake * unat (min age (reward_age_cap params))"
  have p: "?p < 2 ^ 128"
    using mult_strict_mono' [OF unat_u64_lt [of stake] unat_u64_lt [of "min age (reward_age_cap params)"]]
    by simp
  have num: "reward_numerator params stake age = ?p * unat (pos_annual_rate_bps params)"
    by (simp add: reward_numerator_def unat_min)
  then have fits: "?p * unat (pos_annual_rate_bps params) < 2 ^ 128"
    using assms by (simp add: REWARD_DENOMINATOR_def)
  then have "unat ?w = reward_numerator params stake age"
    using p num by (simp add: unat_word_ariths)
  then have "unat (?w div (10000 * 86400 * 365)) =
      reward_numerator params stake age div REWARD_DENOMINATOR"
    by (simp add: unat_div REWARD_DENOMINATOR_def)
  moreover have "reward_numerator params stake age div REWARD_DENOMINATOR < 2 ^ 64"
    using assms by (intro less_mult_imp_div_less) (simp add: mult.commute)
  ultimately have "unat (ucast (?w div (10000 * 86400 * 365)) :: u64) =
      reward_numerator params stake age div REWARD_DENOMINATOR"
    by (simp add: unsigned_ucast_eq take_bit_nat_eq_self)
  then show ?thesis using fits by (simp add: compute_pos_reward_with_def Let_def)
qed

lemma default_reward_fits: "reward_numerator default_params stake age < 2 ^ 64 * REWARD_DENOMINATOR"
proof -
  have "reward_numerator default_params stake age \<le> unat stake * 518400 * 500"
    by (simp add: reward_numerator_def default_params_def MAX_STAKE_AGE_def)
  also have "\<dots> < 2 ^ 64 * REWARD_DENOMINATOR"
    using unat_u64_lt [of stake] by (simp add: REWARD_DENOMINATOR_def)
  finally show ?thesis .
qed

lemma compute_pos_reward_eq:
  "\<exists>r. compute_pos_reward stake age = Ok r \<and>
     unat r = unat stake * min (unat age) 518400 * 500 div REWARD_DENOMINATOR"
  using compute_pos_reward_exact [OF default_reward_fits, of stake age]
  by (simp add: compute_pos_reward_def reward_numerator_def default_params_def MAX_STAKE_AGE_def)

lemma default_reward_small:
  "unat (stake :: u64) * min a 518400 * 500 div REWARD_DENOMINATOR \<le> unat stake div 1216"
proof -
  have "unat stake * min a 518400 * 500 \<le> unat stake * 259200000" by simp
  then have "unat stake * min a 518400 * 500 div REWARD_DENOMINATOR \<le> unat stake * 259200000 div REWARD_DENOMINATOR"
    by (rule div_le_mono)
  also have "\<dots> \<le> unat stake div 1216"
    by (simp add: REWARD_DENOMINATOR_def less_eq_div_iff_mult_less_eq)
  finally show ?thesis .
qed

section \<open>Stake kernels\<close>

lemma check_stake_kernel_v2_iff:
  "check_stake_kernel_v2 cr m u ts tot \<longleftrightarrow>
     tot \<noteq> 0 \<and> unat (kernel_val cr m u ts) * unat tot \<le> unat (u_value u) * 2 ^ 32"
proof -
  have "unat (kernel_val cr m u ts) * unat tot < 2 ^ 32 * 2 ^ 64"
    by (rule mult_strict_mono' [OF unat_u32_lt unat_u64_lt]) simp_all
  then have l: "unat ((ucast (kernel_val cr m u ts) :: u128) * ucast tot) =
      unat (kernel_val cr m u ts) * unat tot"
    by (simp add: unat_word_ariths)
  have r: "unat (push_bit 32 (ucast (u_value u)) :: u128) = unat (u_value u) * 2 ^ 32"
    using unat_u64_lt [of "u_value u"]
    by (simp add: push_bit_eq_mult unat_word_ariths)
  show ?thesis by (simp add: check_stake_kernel_v2_def word_le_nat_alt l r)
qed

lemma check_stake_kernel_iff:
  "check_stake_kernel cr m u ts \<longleftrightarrow>
     unat (kernel_val cr m u ts) \<le> unat (u_value u) div 1000"
proof -
  let ?t = "min (u_value u div 1000) 0xffffffff"
  have t: "unat ?t = min (unat (u_value u) div 1000) 0xffffffff"
    by (simp add: unat_min unat_div)
  then have "unat (ucast ?t :: u32) = min (unat (u_value u) div 1000) 0xffffffff"
    by (simp add: unsigned_ucast_eq take_bit_nat_eq_self)
  then show ?thesis
    using unat_u32_lt [of "kernel_val cr m u ts"]
    by (auto simp: check_stake_kernel_def Let_def word_le_nat_alt)
qed

lemma kernel_v1_imp_v2:
  assumes "check_stake_kernel cr m u ts" "0 < tot" "unat tot \<le> 1000 * 2 ^ 32"
  shows "check_stake_kernel_v2 cr m u ts tot"
proof -
  let ?k = "unat (kernel_val cr m u ts)"
  have "?k * 1000 \<le> unat (u_value u)"
    using assms(1) by (simp add: check_stake_kernel_iff less_eq_div_iff_mult_less_eq)
  then have "?k * 1000 * 2 ^ 32 \<le> unat (u_value u) * 2 ^ 32" by simp
  moreover have "?k * unat tot \<le> ?k * (1000 * 2 ^ 32)" using assms(3) by (rule mult_le_mono2)
  ultimately have "?k * unat tot \<le> unat (u_value u) * 2 ^ 32" by (simp only: mult.assoc)
  then show ?thesis using assms(2) by (auto simp: check_stake_kernel_v2_iff)
qed

text \<open>The number of kernel values that win for an output of value \<open>v\<close>.\<close>

definition winning_kernels :: "nat \<Rightarrow> nat \<Rightarrow> nat set" where
  "winning_kernels v tot = {k. k < 2 ^ 32 \<and> k * tot \<le> v * 2 ^ 32}"

lemma card_winning_kernels:
  assumes "0 < tot"
  shows "card (winning_kernels v tot) = min (2 ^ 32) (v * 2 ^ 32 div tot + 1)"
proof -
  have "winning_kernels v tot = {..<min (2 ^ 32) (v * 2 ^ 32 div tot + 1)}"
    using assms
    by (auto simp: winning_kernels_def less_Suc_eq_le less_eq_div_iff_mult_less_eq min_less_iff_conj)
  then show ?thesis by (simp only: card_lessThan)
qed

lemma all_kernels_win:
  assumes "0 < tot"
  shows "card (winning_kernels v tot) = 2 ^ 32 \<longleftrightarrow> (2 ^ 32 - 1) * tot \<le> v * 2 ^ 32"
proof -
  have "card (winning_kernels v tot) = 2 ^ 32 \<longleftrightarrow> 2 ^ 32 - 1 \<le> v * 2 ^ 32 div tot"
    unfolding card_winning_kernels [OF assms] by auto
  then show ?thesis by (simp only: less_eq_div_iff_mult_less_eq [OF assms])
qed

lemma check_kernel_v2_winning:
  "tot \<noteq> 0 \<Longrightarrow> check_stake_kernel_v2 cr m u ts tot \<longleftrightarrow>
     unat (kernel_val cr m u ts) \<in> winning_kernels (unat (u_value u)) (unat tot)"
  using unat_u32_lt [of "kernel_val cr m u ts"]
  by (simp add: check_stake_kernel_v2_iff winning_kernels_def)

section \<open>Transaction checks\<close>

lemma check_outputs_Ok:
  "check_outputs cs n outs = Ok () \<longleftrightarrow>
     (\<forall>j < length outs. out_value (outs ! j) \<le> MAX_MONEY \<and>
       (out_value (outs ! j) = 0 \<longrightarrow> cs \<and> n + j = 0 \<and> script_pubkey (outs ! j) = []))"
proof (induction outs arbitrary: n)
  case (Cons t outs)
  show ?case by (auto simp: Let_def Cons.IH All_less_Suc2 not_less)
qed simp

lemma check_duplicates_Ok:
  "check_duplicates seen is = Ok () \<longleftrightarrow>
     distinct (map outpoint is) \<and> seen \<inter> outpoint ` set is = {}"
  by (induction "is" arbitrary: seen) auto

lemma check_each_Ok: "check_each f xs = Ok () \<longleftrightarrow> (\<forall>x \<in> set xs. f x = Ok ())"
  by (induction xs) auto

lemma check_single_mint_Ok:
  "check_single_mint txs = Ok () \<longleftrightarrow> (\<forall>tx \<in> set txs. \<not> is_coinbase tx \<and> \<not> is_coinstake tx)"
  by (induction txs) auto

text \<open>What a valid output list is, and what each kind of transaction needs of its inputs.\<close>

definition outputs_ok :: "transaction \<Rightarrow> bool" where
  "outputs_ok tx \<longleftrightarrow> outputs tx \<noteq> [] \<and>
     (\<forall>j < length (outputs tx). out_value (outputs tx ! j) \<le> MAX_MONEY \<and>
       (out_value (outputs tx ! j) = 0 \<longrightarrow>
          is_coinstake tx \<and> j = 0 \<and> script_pubkey (outputs tx ! j) = []))"

definition inputs_ok :: "transaction \<Rightarrow> bool" where
  "inputs_ok tx =
     (case tx_kind tx of
        LegacyClaim \<Rightarrow> claim_address tx \<noteq> None \<and> claim_signature tx \<noteq> None \<and> inputs tx = []
      | Coinstake \<Rightarrow> length (inputs tx) = 1
      | Coinbase \<Rightarrow> True
      | _ \<Rightarrow> inputs tx \<noteq> [] \<and> distinct (map outpoint (inputs tx)))"

lemma validate_transaction_Ok:
  "validate_transaction tx = Ok () \<longleftrightarrow> outputs_ok tx \<and> inputs_ok tx"
proof -
  have "check_outputs (is_coinstake tx) 0 (outputs tx) = Ok () \<longleftrightarrow>
      outputs_ok tx \<or> outputs tx = []"
    unfolding check_outputs_Ok outputs_ok_def by auto
  then show ?thesis
    by (cases "tx_kind tx")
      (auto simp: validate_transaction_def inputs_ok_def outputs_ok_def check_duplicates_Ok
        is_legacy_claim_def is_coinstake_def is_coinbase_def)
qed

section \<open>Block checks\<close>

definition block_ok ::
  "('sig, 'pk, 'x) node_lib_scheme \<Rightarrow> u32 \<Rightarrow> block \<Rightarrow> u32 \<Rightarrow> u32 \<Rightarrow> u32 \<Rightarrow> u64 \<Rightarrow> bytes \<Rightarrow> bool" where
  "block_ok lib now b prev_height prev_timestamp prev_bits prev_modifier prev_hash \<longleftrightarrow>
     (\<exists>tx txs. transactions b = tx # txs \<and>
       (is_coinstake tx \<or> prev_height = 0 \<and> is_legacy_claim tx \<and> txs = []) \<and>
       (\<forall>t \<in> set txs. \<not> is_coinbase t \<and> \<not> is_coinstake t) \<and>
       unat (lock_time tx) = unat prev_height + 1) \<and>
     nonce (header b) = 0 \<and>
     (\<exists>n. serialized_size_block lib b = Some n \<and> n \<le> MAX_BLOCK_SIZE) \<and>
     bits (header b) = prev_bits \<and>
     stake_modifier (header b) = compute_stake_modifier lib prev_modifier prev_hash \<and>
     timestamp (header b) \<le> sat_add now 7200 \<and> prev_timestamp < timestamp (header b) \<and>
     merkle_root (header b) = merkle_tree (sha256d lib) (map (txid lib) (transactions b)) \<and>
     (\<forall>tx \<in> set (transactions b). outputs_ok tx \<and> inputs_ok tx)"

lemma block_size_ok:
  "(case s of None \<Rightarrow> -1 | Some n \<Rightarrow> n) \<le> MAX_BLOCK_SIZE \<longleftrightarrow> (\<exists>n. s = Some n \<and> n \<le> MAX_BLOCK_SIZE)"
proof -
  have "\<not> (-1 :: u64) \<le> MAX_BLOCK_SIZE"
    by (simp add: MAX_BLOCK_SIZE_def word_le_nat_alt unat_minus_one_word_len)
  then show ?thesis by (cases s) auto
qed

lemma next_height: "ph \<noteq> - 1 \<and> h = ph + 1 \<longleftrightarrow> unat (h :: u32) = unat ph + 1"
proof (cases "ph = - 1")
  case True
  have "unat h < 2 ^ 32" by (rule unat_u32_lt)
  then show ?thesis using True by (simp add: unat_minus_one_word_len)
next
  case False
  then have "ph < - 1" by (simp add: less_le)
  then have "unat ph < unat (- 1 :: u32)" by (simp only: word_less_nat_alt)
  then have "unat (ph + 1) = unat ph + 1" by (simp add: unat_word_ariths unat_minus_one_word_len)
  then show ?thesis using False by (metis unsigned_word_eqI)
qed

lemma validate_block_Ok:
  "validate_block lib now b ph pt pb pm phash = Ok () \<longleftrightarrow> block_ok lib now b ph pt pb pm phash"
proof (cases "transactions b")
  case Nil
  then show ?thesis by (simp add: validate_block_def validate_block_inner_def block_ok_def)
next
  case (Cons tx txs)
  have first: "check_first b ph False = Ok () \<longleftrightarrow> nonce (header b) = 0 \<and>
      (is_coinstake tx \<or> ph = 0 \<and> is_legacy_claim tx \<and> txs = [])"
    using Cons by (auto simp: check_first_def is_pos_def is_coinstake_def is_legacy_claim_def Let_def)
  have root: "compute_merkle_root lib b = merkle_tree (sha256d lib) (map (txid lib) (transactions b))"
    by (simp add: compute_merkle_root_def merkle_root_tree)
  have "validate_block lib now b ph pt pb pm phash = Ok () \<longleftrightarrow>
      \<not> (case serialized_size_block lib b of None \<Rightarrow> -1 | Some n \<Rightarrow> n) > MAX_BLOCK_SIZE \<and>
      (ph \<noteq> - 1 \<and> lock_time tx = ph + 1) \<and> bits (header b) = pb \<and>
      stake_modifier (header b) = compute_stake_modifier lib pm phash \<and>
      check_first b ph False = Ok () \<and> check_single_mint txs = Ok () \<and>
      \<not> timestamp (header b) > sat_add now 7200 \<and> \<not> timestamp (header b) \<le> pt \<and>
      compute_merkle_root lib b = merkle_root (header b) \<and>
      check_each validate_transaction (transactions b) = Ok ()"
    using Cons by (simp add: validate_block_def validate_block_inner_def height_def)
  then have "validate_block lib now b ph pt pb pm phash = Ok () \<longleftrightarrow>
      (\<exists>n. serialized_size_block lib b = Some n \<and> n \<le> MAX_BLOCK_SIZE) \<and>
      unat (lock_time tx) = unat ph + 1 \<and> bits (header b) = pb \<and>
      stake_modifier (header b) = compute_stake_modifier lib pm phash \<and>
      (nonce (header b) = 0 \<and> (is_coinstake tx \<or> ph = 0 \<and> is_legacy_claim tx \<and> txs = [])) \<and>
      (\<forall>t \<in> set txs. \<not> is_coinbase t \<and> \<not> is_coinstake t) \<and>
      timestamp (header b) \<le> sat_add now 7200 \<and> pt < timestamp (header b) \<and>
      merkle_root (header b) = merkle_tree (sha256d lib) (map (txid lib) (transactions b)) \<and>
      (\<forall>t \<in> set (transactions b). outputs_ok t \<and> inputs_ok t)"
    unfolding block_size_ok first root next_height check_single_mint_Ok check_each_Ok validate_transaction_Ok
      not_less not_le by (simp only: eq_commute)
  moreover have "(\<exists>t ts. transactions b = t # ts \<and> P t ts) \<longleftrightarrow> P tx txs" for P
    using Cons by simp
  ultimately show ?thesis unfolding block_ok_def by (simp only:) blast
qed

section \<open>Legacy claims\<close>

fun dec_value :: "nat \<Rightarrow> bytes \<Rightarrow> nat" where
  "dec_value a [] = a"
| "dec_value a (d # ds) = dec_value (10 * a + (unat d - 48)) ds"

lemma dec_value_append: "dec_value a (xs @ ys) = dec_value (dec_value a xs) ys"
  by (induction xs arbitrary: a) auto

lemma unat_digit: "k < 10 \<Longrightarrow> unat (of_nat (48 + k) :: byte) = 48 + k"
  by (simp only: unat_byte_of_nat) simp

lemma dec_value_decimal_digits: "dec_value 0 (decimal_digits n) = n"
proof (induction n rule: decimal_digits.induct)
  case (1 n)
  show ?case
  proof (cases "n < 10")
    case True
    then show ?thesis using unat_digit [of n] by (subst decimal_digits.simps) simp
  next
    case False
    then show ?thesis
      using 1 unat_digit [of "n mod 10"] by (subst decimal_digits.simps) (simp add: dec_value_append)
  qed
qed

lemma decimal_digits_range: "d \<in> set (decimal_digits n) \<Longrightarrow> 48 \<le> unat d \<and> unat d < 58"
proof (induction n rule: decimal_digits.induct)
  case (1 n)
  show ?case
  proof (cases "n < 10")
    case True
    then have "decimal_digits n = [of_nat (48 + n)]" by (subst decimal_digits.simps) simp
    then show ?thesis using 1 True unat_digit [of n] by (simp del: of_nat_add)
  next
    case False
    then have "decimal_digits n = decimal_digits (n div 10) @ [of_nat (48 + n mod 10)]"
      by (subst decimal_digits.simps) simp
    then show ?thesis using 1 False unat_digit [of "n mod 10"] by (auto simp del: of_nat_add)
  qed
qed

lemma decimal_no_sep: "124 \<notin> set (decimal_digits n)" "58 \<notin> set (decimal_digits n)"
  using decimal_digits_range [of 124 n] decimal_digits_range [of 58 n] by auto

text \<open>What the claim message relies on of the hex crate: injective, digits and letters only.\<close>

definition hex_ok :: "('sig, 'pk, 'x) node_lib_scheme \<Rightarrow> bool" where
  "hex_ok lib \<longleftrightarrow> inj (hex_encode lib) \<and>
     (\<forall>b. \<forall>x \<in> set (hex_encode lib b). 48 \<le> unat x \<and> unat x \<le> 57 \<or> 97 \<le> unat x \<and> unat x \<le> 102)"

definition claim_segment :: "('sig, 'pk, 'x) node_lib_scheme \<Rightarrow> tx_output \<Rightarrow> bytes" where
  "claim_segment lib t =
     decimal_digits (unat (out_value t)) @ 58 # hex_encode lib (script_pubkey t)"

lemma split_at_sep:
  assumes "x \<notin> set a" "x \<notin> set b" "a @ x # r = b @ x # s"
  shows "a = b \<and> r = s"
proof -
  have tw: "takeWhile (\<lambda>y. y \<noteq> x) (c @ x # t) = c" if "x \<notin> set c" for c t
    using that by (induction c) auto
  have "a = b" using arg_cong [OF assms(3), of "takeWhile (\<lambda>y. y \<noteq> x)"] by (simp only: tw assms(1,2) not_False_eq_True)
  with assms(3) show ?thesis by simp
qed

lemma claim_segment_inj:
  assumes "hex_ok lib" "claim_segment lib s = claim_segment lib t"
  shows "s = t"
proof -
  have "decimal_digits (unat (out_value s)) = decimal_digits (unat (out_value t))"
    and hex: "hex_encode lib (script_pubkey s) = hex_encode lib (script_pubkey t)"
    using split_at_sep [OF decimal_no_sep(2) decimal_no_sep(2) assms(2) [unfolded claim_segment_def]]
    by simp_all
  then have "unat (out_value s) = unat (out_value t)" by (metis dec_value_decimal_digits)
  moreover have "script_pubkey s = script_pubkey t"
    using hex assms(1) by (auto simp: hex_ok_def dest: injD)
  ultimately show ?thesis by (simp add: tx_output.equality word_unat_eq_iff)
qed

lemma claim_segment_no_sep: "hex_ok lib \<Longrightarrow> 124 \<notin> set (claim_segment lib t)"
  using decimal_no_sep(1) by (fastforce simp: claim_segment_def hex_ok_def)

lemma segment_take:
  assumes "x \<notin> set a" "r = [] \<or> hd r = x"
  shows "takeWhile (\<lambda>y. y \<noteq> x) (a @ r) = a" "dropWhile (\<lambda>y. y \<noteq> x) (a @ r) = r"
proof -
  have "takeWhile (\<lambda>y. y \<noteq> x) r = [] \<and> dropWhile (\<lambda>y. y \<noteq> x) r = r"
    using assms(2) by (cases r) auto
  then have "takeWhile (\<lambda>y. y \<noteq> x) (a @ r) = a \<and> dropWhile (\<lambda>y. y \<noteq> x) (a @ r) = r"
    using assms(1) by (induction a) auto
  then show "takeWhile (\<lambda>y. y \<noteq> x) (a @ r) = a" "dropWhile (\<lambda>y. y \<noteq> x) (a @ r) = r" by simp_all
qed

lemma claim_segments_inj:
  assumes "hex_ok lib"
    "concat (map (\<lambda>t. 124 # claim_segment lib t) ss) = concat (map (\<lambda>t. 124 # claim_segment lib t) ts)"
  shows "ss = ts"
  using assms(2)
proof (induction ss arbitrary: ts)
  case (Cons s ss)
  let ?f = "\<lambda>ts. concat (map (\<lambda>t. 124 # claim_segment lib t) ts)"
  obtain t ts' where ts: "ts = t # ts'" using Cons.prems by (cases ts) auto
  have rest: "?f us = [] \<or> hd (?f us) = 124" for us by (cases us) auto
  have eq: "claim_segment lib s @ ?f ss = claim_segment lib t @ ?f ts'"
    using Cons.prems ts by simp
  have "claim_segment lib s = claim_segment lib t" "?f ss = ?f ts'"
    using arg_cong [OF eq, of "takeWhile (\<lambda>y. y \<noteq> 124)"] arg_cong [OF eq, of "dropWhile (\<lambda>y. y \<noteq> 124)"]
      segment_take [OF claim_segment_no_sep [OF assms(1)] rest] by simp_all
  then show ?case using Cons.IH claim_segment_inj [OF assms(1)] ts by blast
qed (auto split: list.splits)

lemma claim_message_v2_segments:
  "claim_message_v2 lib addr outs = addr @ concat (map (\<lambda>t. 124 # claim_segment lib t) outs)"
  by (simp add: claim_message_v2_def claim_segment_def)

lemma claim_message_v2_inj:
  assumes "hex_ok lib" "124 \<notin> set addr" "124 \<notin> set addr'"
    "claim_message_v2 lib addr outs = claim_message_v2 lib addr' outs'"
  shows "addr = addr' \<and> outs = outs'"
proof -
  let ?f = "\<lambda>ts. concat (map (\<lambda>t. 124 # claim_segment lib t) ts)"
  have rest: "?f us = [] \<or> hd (?f us) = 124" for us by (cases us) auto
  have eq: "addr @ ?f outs = addr' @ ?f outs'" using assms(4) by (simp add: claim_message_v2_segments)
  have "addr = addr'" "?f outs = ?f outs'"
    using arg_cong [OF eq, of "takeWhile (\<lambda>y. y \<noteq> 124)"] arg_cong [OF eq, of "dropWhile (\<lambda>y. y \<noteq> 124)"]
      segment_take [OF assms(2) rest] segment_take [OF assms(3) rest] by simp_all
  then show ?thesis using claim_segments_inj [OF assms(1)] by blast
qed

lemma msg_varint_small: "n < 2 ^ 32 \<Longrightarrow> msg_varint n = varint n"
  by (simp add: msg_varint_def varint_def)

text \<open>The bytes that are hashed for a signed message.\<close>

definition signed_bytes :: "bytes \<Rightarrow> bytes \<Rightarrow> bytes" where
  "signed_bytes magic m =
     of_nat (length (magic @ [10])) # (magic @ [10]) @ msg_varint (length m) @ m"

definition claim_bytes :: "('sig, 'pk, 'x) node_lib_scheme \<Rightarrow> bytes \<Rightarrow> tx_output list \<Rightarrow> bytes" where
  "claim_bytes lib addr outs = signed_bytes (ascii ''vTorrent Signed Message v2'') (claim_message_v2 lib addr outs)"

lemma signed_bytes_hash: "bitcoin_signed_message_hash cr magic m = sha256d cr (signed_bytes magic m)"
  by (simp add: bitcoin_signed_message_hash_def signed_bytes_def Let_def)

lemma signed_message_binds:
  assumes "length m < 2 ^ 32" "length m' < 2 ^ 32"
    "bitcoin_signed_message_hash cr magic m = bitcoin_signed_message_hash cr magic m'"
  shows "m = m' \<or> sha_collides cr (signed_bytes magic m) (signed_bytes magic m')"
proof (cases "sha_collides cr (signed_bytes magic m) (signed_bytes magic m')")
  case False
  then have "varint (length m) @ m = varint (length m') @ m'"
    using sha_eqD [OF assms(3) [unfolded signed_bytes_hash]] assms(1,2)
    by (simp add: msg_varint_small signed_bytes_def)
  then show ?thesis using assms(1,2) by (simp add: varintp.enc_append)
qed simp

lemma claim_hash_binds:
  assumes "hex_ok lib" "124 \<notin> set addr" "124 \<notin> set addr'"
    "length (claim_message_v2 lib addr outs) < 2 ^ 32"
    "length (claim_message_v2 lib addr' outs') < 2 ^ 32"
    "claim_message_hash_v2 lib addr outs = claim_message_hash_v2 lib addr' outs'"
  shows "(addr = addr' \<and> outs = outs') \<or>
    sha_collides lib (claim_bytes lib addr outs) (claim_bytes lib addr' outs')"
  using signed_message_binds [OF assms(4,5) assms(6) [unfolded claim_message_hash_v2_def]]
    claim_message_v2_inj [OF assms(1-3)] unfolding claim_bytes_def by blast

lemma verify_claim_signature_Ok:
  "verify_claim_signature lib h addr sig = Ok () \<longleftrightarrow> length sig = 65 \<and>
     (\<exists>pk. recover_ecdsa lib h (drop 1 sig) (unat ((sig ! 0 - 27) AND 3)) = Some pk \<and>
       pubkey_to_vtorrent_address lib pk (sig ! 0 - 27 \<ge> 4) = addr)"
  by (auto simp: verify_claim_signature_def Let_def split: option.splits)

lemma validate_legacy_claim_Ok:
  "validate_legacy_claim lib tx bal = Ok () \<longleftrightarrow>
     is_legacy_claim tx \<and> bal \<noteq> 0 \<and> total_output tx = bal \<and>
     (\<exists>addr sig. claim_address tx = Some addr \<and> claim_signature tx = Some sig \<and>
       verify_claim_signature lib (claim_message_hash_v2 lib addr (outputs tx)) addr sig = Ok ())"
  by (auto simp: validate_legacy_claim_def split: option.splits result.splits)

section \<open>Properties of the rules\<close>

text \<open>
  C28: the default proof-of-stake reward is the exact floor of stake times capped age times five per
  cent per year; no intermediate product overflows and no cast loses a bit, whatever the arguments,
  and the reward never exceeds one part in 1216 of the stake.
\<close>

theorem pos_reward_floor:
  "\<exists>r. compute_pos_reward stake age = Ok r \<and>
     unat r = unat stake * min (unat age) 518400 * 500 div REWARD_DENOMINATOR \<and>
     unat r \<le> unat stake div 1216"
  using compute_pos_reward_eq [of stake age] default_reward_small [of stake "unat age"] by auto

text \<open>
  C29: how many of the \<open>2\<^sup>3\<^sup>2\<close> kernel values win for an output when the staked supply is not zero. It
  is one more than the floor of the output's share, \<open>\<lfloor>value \<sqdot> 2\<^sup>3\<^sup>2 / total\<rfloor> + 1\<close>, capped at all of
  them, and the 128-bit comparison decides membership without overflow. All values win already when
  \<open>(2\<^sup>3\<^sup>2 - 1) \<sqdot> total \<le> value \<sqdot> 2\<^sup>3\<^sup>2\<close>, so not only for an output that is the whole staked supply.
\<close>

theorem kernel_share:
  assumes "tot \<noteq> 0"
  shows "(check_stake_kernel_v2 cr m u ts tot \<longleftrightarrow>
      unat (kernel_val cr m u ts) \<in> winning_kernels (unat (u_value u)) (unat tot)) \<and>
    card (winning_kernels (unat (u_value u)) (unat tot)) =
      min (2 ^ 32) (unat (u_value u) * 2 ^ 32 div unat tot + 1) \<and>
    (card (winning_kernels (unat (u_value u)) (unat tot)) = 2 ^ 32 \<longleftrightarrow>
      (2 ^ 32 - 1) * unat tot \<le> unat (u_value u) * 2 ^ 32)"
  using check_kernel_v2_winning [OF assms] card_winning_kernels [of "unat tot" "unat (u_value u)"]
    all_kernels_win [of "unat tot" "unat (u_value u)"] assms by (simp add: unat_gt_0)

theorem kernel_share_witness:
  "card (winning_kernels (unat (u_value (sample_utxo 1))) (unat (400000000 :: u64))) = 2 ^ 30 + 1"
  using kernel_share [of 400000000 sample_lib 0 "sample_utxo 1" 5] by (simp add: sample_utxo_def)

text \<open>
  C30: replacing the first kernel rule by the second on a small chain: while the staked supply is at
  most \<open>1000 \<sqdot> 2\<^sup>3\<^sup>2\<close> satoshis (42,949.67 coins), a kernel the old rule accepts is accepted by the new
  one exactly when the staked supply is not zero. With a staked supply of zero the new rule rejects
  every kernel, whatever the old one says.
\<close>

theorem kernel_upgrade_compatible:
  assumes "check_stake_kernel cr m u ts" "unat tot \<le> 1000 * 2 ^ 32"
  shows "check_stake_kernel_v2 cr m u ts tot \<longleftrightarrow> tot \<noteq> 0"
  using kernel_v1_imp_v2 [OF assms(1) _ assms(2)] by (auto simp: check_stake_kernel_v2_def word_neq_0_conv)

lemma le_bytes_0: "le_bytes k 0 = replicate k 0"
  by (induction k) auto

lemma le_value_replicate_0: "le_value (replicate k 0) = 0"
  by (induction k) auto

theorem kernel_upgrade_compatible_witness:
  "check_stake_kernel sample_lib 0 (sample_utxo 1) 5 \<and> check_stake_kernel_v2 sample_lib 0 (sample_utxo 1) 5 300000000"
proof -
  have "kernel_val sample_lib 0 (sample_utxo 1) 5 = 0"
  proof -
    have "take 4 (pad_to 32 (pad_to 32 (u64_le 0 @ r))) = replicate 4 0" for r
      by (simp add: pad_to_def u64_le_def le_bytes_0 min_def)
    then show ?thesis
      by (simp add: kernel_val_def stake_kernel_hash_def sha256d_def sample_lib_def u32_of_le_def
          le_value_replicate_0)
  qed
  then have k: "check_stake_kernel sample_lib 0 (sample_utxo 1) 5"
    unfolding check_stake_kernel_iff by simp
  have "unat (300000000 :: u64) \<le> 1000 * 2 ^ 32" by simp
  from kernel_upgrade_compatible [OF k this] k show ?thesis by simp
qed


text \<open>
  C32: the message of a legacy claim binds the recipient: two claims with the same message hash name
  the same address and the same outputs, values and scripts, unless the bytes hashed for the two
  claims differ and have the same SHA-256d hash. A signature seen in the mempool can therefore not be
  reused with other outputs.
\<close>

theorem claim_hash_binding:
  assumes "hex_ok lib" "124 \<notin> set addr" "124 \<notin> set addr'"
    "length (claim_message_v2 lib addr outs) < 2 ^ 32"
    "length (claim_message_v2 lib addr' outs') < 2 ^ 32"
    "claim_message_hash_v2 lib addr outs = claim_message_hash_v2 lib addr' outs'"
  shows "(addr = addr' \<and> outs = outs') \<or>
    sha_collides lib (claim_bytes lib addr outs) (claim_bytes lib addr' outs')"
  by (rule claim_hash_binds [OF assms])

definition hex_digit :: "nat \<Rightarrow> byte" where
  "hex_digit n = of_nat (if n < 10 then 48 + n else 87 + n)"

lemma unat_hex_digit: "n < 16 \<Longrightarrow> unat (hex_digit n) = (if n < 10 then 48 + n else 87 + n)"
  by (simp only: hex_digit_def unat_byte_of_nat) simp

lemma sample_hex_digits: "sample_hex b = concat (map (\<lambda>x. [hex_digit (unat x div 16), hex_digit (unat x mod 16)]) b)"
  by (simp add: sample_hex_def hex_digit_def Let_def)

lemma byte_nibbles: "unat (x :: byte) div 16 < 16"
  using unat_byte_lt [of x] by (intro less_mult_imp_div_less) linarith

lemma hex_digit_inj: "m < 16 \<Longrightarrow> n < 16 \<Longrightarrow> hex_digit m = hex_digit n \<Longrightarrow> m = n"
proof -
  assume m: "m < 16" and n: "n < 16" and eq: "hex_digit m = hex_digit n"
  have "(if m < 10 then 48 + m else 87 + m) = (if n < 10 then 48 + n else 87 + n)"
    using arg_cong [OF eq, of unat] unfolding unat_hex_digit [OF m] unat_hex_digit [OF n] .
  then show "m = n" using m n by (simp split: if_splits)
qed

lemma sample_hex_inj: "sample_hex a = sample_hex b \<Longrightarrow> a = b"
proof (induction a arbitrary: b)
  case (Cons x a)
  obtain y b' where b: "b = y # b'" using Cons.prems by (cases b) (auto simp: sample_hex_digits)
  have "unat x div 16 = unat y div 16" "unat x mod 16 = unat y mod 16" "sample_hex a = sample_hex b'"
    using Cons.prems byte_nibbles [of x] byte_nibbles [of y] b
    by (auto simp: sample_hex_digits intro: hex_digit_inj)
  then have "unat x = unat y" by (metis div_mult_mod_eq)
  then show ?case using Cons.IH b \<open>sample_hex a = sample_hex b'\<close> by (simp add: word_unat_eq_iff)
qed (cases b, auto simp: sample_hex_digits)

lemma sample_hex_ok: "hex_ok sample_lib"
proof -
  have "48 \<le> unat (hex_digit n) \<and> unat (hex_digit n) \<le> 57 \<or> 97 \<le> unat (hex_digit n) \<and> unat (hex_digit n) \<le> 102"
    if "n < 16" for n
    using that unat_hex_digit [OF that] by (auto split: if_splits)
  moreover have "\<exists>n < 16. y = hex_digit n" if y: "y \<in> set (sample_hex b)" for y b
  proof -
    obtain x where "y = hex_digit (unat (x :: byte) div 16) \<or> y = hex_digit (unat x mod 16)"
      using y by (auto simp: sample_hex_digits)
    moreover have "unat x div 16 < 16" "unat x mod 16 < 16" by (rule byte_nibbles) simp
    ultimately show ?thesis by blast
  qed
  ultimately have "\<forall>b. \<forall>x \<in> set (sample_hex b). 48 \<le> unat x \<and> unat x \<le> 57 \<or> 97 \<le> unat x \<and> unat x \<le> 102"
    by blast
  then show ?thesis by (auto simp: hex_ok_def sample_lib_def inj_def dest: sample_hex_inj)
qed

definition sample_outs :: "u64 \<Rightarrow> tx_output list" where
  "sample_outs v = [\<lparr>out_value = v, script_pubkey = [0x51]\<rparr>]"

lemma sample_claim_message:
  assumes "v < 10"
  shows "claim_message_v2 sample_lib a (sample_outs v) =
     a @ [124, of_nat (48 + unat v), 58, hex_digit 5, hex_digit 1]"
proof -
  have "decimal_digits (unat v) = [of_nat (48 + unat v)]"
    using assms by (subst decimal_digits.simps) (simp add: word_less_nat_alt)
  then show ?thesis
    by (simp add: claim_message_v2_def sample_outs_def sample_lib_def sample_hex_digits)
qed

lemma one_two_less: "(1 :: u64) < 10" "(2 :: u64) < 10"
  by simp_all

lemma sample_hash_prefix:
  assumes "length magic = 26" "32 \<le> length a" "length r = length r'"
  shows "bitcoin_signed_message_hash sample_lib magic (a @ r) =
    bitcoin_signed_message_hash sample_lib magic (a @ r')"
proof -
  let ?p = "of_nat (length (magic @ [10])) # (magic @ [10]) @ msg_varint (length (a @ r)) @ a"
  have "take 32 (?p @ r) = take 32 (?p @ r')" using assms by simp
  then show ?thesis
    using assms by (simp add: bitcoin_signed_message_hash_def sha256d_def sample_lib_def pad_to_def Let_def)
qed

theorem claim_hash_binding_witness:
  "sha_collides sample_lib (claim_bytes sample_lib (replicate 32 86) (sample_outs 1))
     (claim_bytes sample_lib (replicate 32 86) (sample_outs 2))"
proof -
  define a :: bytes where "a = replicate 32 86"
  have la: "length a = 32" and na: "124 \<notin> set a" by (simp_all add: a_def)
  note m1 = sample_claim_message [OF one_two_less(1), of a]
  note m2 = sample_claim_message [OF one_two_less(2), of a]
  have "length (claim_message_v2 sample_lib a (sample_outs 1)) < 2 ^ 32"
    "length (claim_message_v2 sample_lib a (sample_outs 2)) < 2 ^ 32"
    unfolding m1 m2 by (simp_all add: la)
  moreover have "length (ascii ''vTorrent Signed Message v2'') = 26"
    unfolding ascii_def length_map by simp
  then have "claim_message_hash_v2 sample_lib a (sample_outs 1) =
      claim_message_hash_v2 sample_lib a (sample_outs 2)"
    unfolding claim_message_hash_v2_def m1 m2
    by (rule sample_hash_prefix) (simp_all add: la)
  ultimately have "(a = a \<and> sample_outs 1 = sample_outs 2) \<or>
      sha_collides sample_lib (claim_bytes sample_lib a (sample_outs 1)) (claim_bytes sample_lib a (sample_outs 2))"
    by (rule claim_hash_binding [OF sample_hex_ok na na])
  moreover have "sample_outs 1 \<noteq> sample_outs 2" by (simp add: sample_outs_def)
  ultimately show ?thesis unfolding a_def by blast
qed

end
