(* ===== verification/Deployments.thy ===== *)
theory Deployments
  imports Prelude
begin

text \<open>
  Version-bit deployments of \<open>vtorrent-node/src/deployments.rs\<close>. The scan over the completed
  periods never reaches \<open>u32::MAX\<close>, so its counter is a natural number; the products are taken
  as the source takes them (64-bit for the timeout test, saturating 32-bit for the threshold).
\<close>

unbundle bit_operations_syntax

record deployment =
  dep_name :: bytes
  dep_bit :: byte
  start_height :: u32
  timeout_height :: u32

datatype dep_state = Defined | Started | LockedIn | Active | Failed

definition governance_deployment :: "deployment option" where
  "governance_deployment = None"

text \<open>
  Bit numbers are below 32: with overflow checks a shift by more panics, so for larger numbers, which
  no deployment has, the model says nothing of the source.
\<close>

definition signals :: "deployment \<Rightarrow> u32 \<Rightarrow> bool" where
  "signals d version \<longleftrightarrow> drop_bit (unat (dep_bit d) mod 32) version AND 1 = 1"

definition period_signals :: "u32 list \<Rightarrow> nat \<Rightarrow> u32" where
  "period_signals signals_per_period p =
     (if p < length signals_per_period then signals_per_period ! p else 0)"

definition reaches :: "u32 \<Rightarrow> u32 \<Rightarrow> u32 \<Rightarrow> bool" where
  "reaches period threshold_pct signalled \<longleftrightarrow>
     sat_mul signalled 100 \<ge> sat_mul period threshold_pct"

function lock_in_scan ::
  "deployment \<Rightarrow> u32 \<Rightarrow> u32 \<Rightarrow> u32 list \<Rightarrow> nat \<Rightarrow> nat \<Rightarrow> nat option" where
  "lock_in_scan d period threshold_pct sigs last_completed p =
     (if p \<le> last_completed \<and> (p + 1) * unat period < unat (timeout_height d) then
        (if reaches period threshold_pct (period_signals sigs p) then Some p
         else lock_in_scan d period threshold_pct sigs last_completed (p + 1))
      else None)"
  by pat_completeness auto
termination
  by (relation "measure (\<lambda>(d, period, thr, sigs, last_completed, p). last_completed + 1 - p)") auto

declare lock_in_scan.simps [simp del]

definition div_ceil :: "nat \<Rightarrow> nat \<Rightarrow> nat" where
  "div_ceil a b = (a + b - 1) div b"

definition deployment_state ::
  "deployment \<Rightarrow> u32 \<Rightarrow> u32 \<Rightarrow> u32 \<Rightarrow> u32 list \<Rightarrow> dep_state" where
  "deployment_state d period threshold_pct tip_height sigs =
     (if period = 0 \<or> threshold_pct = 0 \<or> threshold_pct > 100 then Defined
      else if tip_height < start_height d then Defined
      else let start_period = div_ceil (unat (start_height d)) (unat period);
               tip_period = unat tip_height div unat period;
               last_completed = tip_period - 1
        in case lock_in_scan d period threshold_pct sigs last_completed start_period of
             Some lip \<Rightarrow> if tip_period \<ge> min (lip + 2) (2 ^ 32 - 1) then Active else LockedIn
           | None \<Rightarrow> if tip_height \<ge> timeout_height d then Failed else Started)"

section \<open>The scan finds the first period over the threshold\<close>

definition locks_in :: "deployment \<Rightarrow> u32 \<Rightarrow> u32 \<Rightarrow> u32 list \<Rightarrow> nat \<Rightarrow> bool" where
  "locks_in d period thr sigs p \<longleftrightarrow>
     reaches period thr (period_signals sigs p) \<and> (p + 1) * unat period < unat (timeout_height d)"

lemma all_ge_split: "(\<forall>q. p \<le> q \<longrightarrow> P q) \<longleftrightarrow> P p \<and> (\<forall>q. Suc p \<le> q \<longrightarrow> P q)"
  by (metis Suc_leD Suc_le_eq le_eq_less_or_eq order_refl)

lemma lock_in_scan_Some:
  "lock_in_scan d period thr sigs n p = Some q \<Longrightarrow>
     p \<le> q \<and> q \<le> n \<and> locks_in d period thr sigs q \<and> (\<forall>r. p \<le> r \<longrightarrow> r < q \<longrightarrow> \<not> locks_in d period thr sigs r)"
proof (induction d period thr sigs n p rule: lock_in_scan.induct)
  case (1 d period thr sigs n p)
  show ?case
  proof (cases "p \<le> n \<and> (p + 1) * unat period < unat (timeout_height d)")
    case True
    show ?thesis
    proof (cases "reaches period thr (period_signals sigs p)")
      case False
      then have "lock_in_scan d period thr sigs n (p + 1) = Some q"
        using "1.prems" True by (simp add: lock_in_scan.simps [of d period thr sigs n p])
      from "1.IH" [OF True False this] False show ?thesis
        by (auto simp: locks_in_def Suc_le_eq) (metis le_neq_implies_less)+
    qed (use "1.prems" True in \<open>auto simp: lock_in_scan.simps [of d period thr sigs n p] locks_in_def\<close>)
  qed (use "1.prems" in \<open>auto simp: lock_in_scan.simps [of d period thr sigs n p]\<close>)
qed

lemma lock_in_scan_None:
  "lock_in_scan d period thr sigs n p = None \<longleftrightarrow>
     (\<forall>q. p \<le> q \<longrightarrow> q \<le> n \<longrightarrow> \<not> locks_in d period thr sigs q)"
proof (induction d period thr sigs n p rule: lock_in_scan.induct)
  case (1 d period thr sigs n p)
  let ?c = "p \<le> n \<and> (p + 1) * unat period < unat (timeout_height d)"
  have late: "\<not> locks_in d period thr sigs q" if "\<not> (p + 1) * unat period < unat (timeout_height d)" "p \<le> q" for q
  proof -
    have "(p + 1) * unat period \<le> (q + 1) * unat period" using that(2) by (intro mult_le_mono1) simp
    then show ?thesis using that(1) unfolding locks_in_def by linarith
  qed
  show ?case
  proof (cases ?c)
    case True
    show ?thesis
    proof (cases "reaches period thr (period_signals sigs p)")
      case False
      then have "lock_in_scan d period thr sigs n p = lock_in_scan d period thr sigs n (p + 1)"
        using True by (simp add: lock_in_scan.simps [of d period thr sigs n p])
      moreover have "\<not> locks_in d period thr sigs p" using False by (simp add: locks_in_def)
      ultimately show ?thesis
        using "1.IH" [OF True False] by (simp add: all_ge_split [of p])
    qed (use True in \<open>auto simp: lock_in_scan.simps [of d period thr sigs n p] locks_in_def\<close>)
  next
    case False
    then have "lock_in_scan d period thr sigs n p = None"
      by (subst lock_in_scan.simps) (simp only: if_False)
    moreover have "\<not> locks_in d period thr sigs q" if "p \<le> q" "q \<le> n" for q
      using False that late by fastforce
    ultimately show ?thesis by blast
  qed
qed

text \<open>Scanning further never changes what an earlier scan found.\<close>

lemma lock_in_scan_mono:
  assumes "lock_in_scan d period thr sigs n p = Some q" "n \<le> m"
  shows "lock_in_scan d period thr sigs m p = Some q"
proof (cases "lock_in_scan d period thr sigs m p")
  case None
  then show ?thesis
    using lock_in_scan_Some [OF assms(1)] assms(2) by (auto simp: lock_in_scan_None)
next
  case (Some r)
  have "q = r"
    using lock_in_scan_Some [OF assms(1)] lock_in_scan_Some [OF Some]
    by (metis linorder_neqE_nat)
  then show ?thesis using Some by simp
qed

section \<open>State transitions\<close>

text \<open>The allowed moves when the tip advances.\<close>

definition advances :: "dep_state \<Rightarrow> dep_state \<Rightarrow> bool" where
  "advances s t \<longleftrightarrow> s = t \<or> s = Defined \<or> s = Started \<and> t \<noteq> Defined \<or> s = LockedIn \<and> t = Active"

text \<open>
  C34: a deployment only moves forward as the tip rises: defined, started, locked in, active; or
  failed. An active deployment stays active, a failed one stays failed, and a locked-in one can
  only become active.
\<close>

theorem deployment_state_advances:
  assumes "tip \<le> tip'"
  shows "advances (deployment_state d period thr tip sigs) (deployment_state d period thr tip' sigs)"
proof (cases "(period = 0 \<or> thr = 0 \<or> thr > 100) \<or> tip < start_height d")
  case True
  then show ?thesis by (auto simp: deployment_state_def advances_def)
next
  case False
  then have start: "\<not> tip < start_height d" "\<not> tip' < start_height d" and pos: "0 < unat period"
    using assms by (auto simp: unat_gt_0)
  define sp where "sp = div_ceil (unat (start_height d)) (unat period)"
  define n where "n = unat tip div unat period"
  define n' where "n' = unat tip' div unat period"
  have nn: "n \<le> n'" using assms by (simp add: n_def n'_def div_le_mono word_le_nat_alt)
  note eqs = deployment_state_def Let_def sp_def [symmetric] n_def [symmetric] n'_def [symmetric]
  show ?thesis
  proof (cases "lock_in_scan d period thr sigs (n - 1) sp")
    case (Some q)
    then have "lock_in_scan d period thr sigs (n' - 1) sp = Some q"
      by (rule lock_in_scan_mono) (use nn in simp)
    then show ?thesis using Some False start nn by (auto simp: eqs advances_def)
  next
    case None
    show ?thesis
    proof (cases "timeout_height d \<le> tip")
      case True
      have "\<not> locks_in d period thr sigs q" if "sp \<le> q" for q
      proof
        assume q: "locks_in d period thr sigs q"
        then have "(q + 1) * unat period \<le> unat tip"
          using True by (simp add: locks_in_def word_le_nat_alt)
        then have "q + 1 \<le> n" unfolding n_def using pos by (simp only: less_eq_div_iff_mult_less_eq)
        then show False using None that q by (simp add: lock_in_scan_None)
      qed
      then have "lock_in_scan d period thr sigs (n' - 1) sp = None" by (simp add: lock_in_scan_None)
      then show ?thesis using None True assms False start by (auto simp: eqs advances_def)
    next
      case late: False
      then show ?thesis using None False start
        by (auto simp: eqs advances_def split: option.splits)
    qed
  qed
qed

theorem deployment_state_advances_witness:
  "advances
    (deployment_state \<lparr>dep_name = [], dep_bit = 1, start_height = 10, timeout_height = 100\<rparr> 10 90 15 [])
    (deployment_state \<lparr>dep_name = [], dep_bit = 1, start_height = 10, timeout_height = 100\<rparr> 10 90 200 [])"
  by (rule deployment_state_advances) simp

lemma div_ceil_mult: "0 < b \<Longrightarrow> a \<le> div_ceil a b * b"
proof -
  assume b: "0 < b"
  have "(a + b - 1) div b * b + (a + b - 1) mod b = a + b - 1" by simp
  moreover have "(a + b - 1) mod b < b" using b by simp
  ultimately show ?thesis unfolding div_ceil_def by linarith
qed

text \<open>
  C35: activation needs a period over the threshold that starts no earlier than the start height and
  ends before the timeout, and at least one further full period after it.
\<close>

theorem deployment_active_sound:
  assumes "deployment_state d period thr tip sigs = Active"
  shows "\<exists>p. unat (start_height d) \<le> p * unat period \<and>
     reaches period thr (period_signals sigs p) \<and>
     (p + 1) * unat period < unat (timeout_height d) \<and>
     (p + 2) * unat period \<le> unat tip"
proof -
  define sp where "sp = div_ceil (unat (start_height d)) (unat period)"
  define n where "n = unat tip div unat period"
  have pos: "0 < unat period"
    using assms by (auto simp: deployment_state_def unat_gt_0 split: if_splits)
  from assms obtain p where p: "lock_in_scan d period thr sigs (n - 1) sp = Some p"
    and act: "min (p + 2) (2 ^ 32 - 1) \<le> n"
    by (auto simp: deployment_state_def Let_def sp_def n_def split: if_splits option.splits)
  from lock_in_scan_Some [OF p] have "sp \<le> p" and l: "locks_in d period thr sigs p" by auto
  have t: "(p + 1) * unat period < unat (timeout_height d)" using l by (simp add: locks_in_def)
  moreover have "p + 1 \<le> (p + 1) * unat period"
    using mult_le_mono2 [of 1 "unat period" "p + 1"] pos by simp
  moreover have "unat (timeout_height d) \<le> 4294967295"
    using unsigned_less [where 'b = 32 and 'a = nat, of "timeout_height d"] by simp
  ultimately have "p + 2 \<le> 4294967295" by linarith
  with act have "p + 2 \<le> n" by simp
  then have "(p + 2) * unat period \<le> unat tip"
    unfolding n_def using pos by (simp only: less_eq_div_iff_mult_less_eq)
  moreover have "unat (start_height d) \<le> p * unat period"
    using div_ceil_mult [OF pos, of "unat (start_height d)"] mult_le_mono1 [OF \<open>sp \<le> p\<close>, of "unat period"]
    unfolding sp_def by linarith
  ultimately show ?thesis using l t by (auto simp: locks_in_def)
qed

theorem deployment_active_sound_witness:
  "\<exists>p. 10 \<le> p * 10 \<and> reaches 10 90 (period_signals [0, 9] p) \<and> (p + 1) * 10 < (100 :: nat) \<and> (p + 2) * 10 \<le> (30 :: nat)"
proof -
  let ?d = "\<lparr>dep_name = [], dep_bit = 1, start_height = 10, timeout_height = 100\<rparr>"
  have "lock_in_scan ?d 10 90 [0, 9] 2 1 = Some 1"
    by (subst lock_in_scan.simps) (simp add: reaches_def period_signals_def sat_mul_def)
  then have "deployment_state ?d 10 90 30 [0, 9] = Active"
    by (simp add: deployment_state_def Let_def div_ceil_def)
  from deployment_active_sound [OF this] show ?thesis by simp
qed

text \<open>
  With a start height of zero the first period counts as completed while it is still running: a
  tip inside period 0 can already report \<open>LockedIn\<close>.
\<close>

lemma lock_in_before_period_end:
  "deployment_state \<lparr>dep_name = [], dep_bit = 0, start_height = 0, timeout_height = 10000\<rparr>
     2016 90 1815 [1815] = LockedIn"
proof -
  have "lock_in_scan \<lparr>dep_name = [], dep_bit = 0, start_height = 0, timeout_height = 10000\<rparr>
      2016 90 [1815] 0 0 = Some 0"
    by (subst lock_in_scan.simps) (simp add: reaches_def period_signals_def sat_mul_def)
  then show ?thesis by (simp add: deployment_state_def Let_def div_ceil_def)
qed

end
