(* ===== verification/Effects.thy ===== *)
theory Effects
  imports Prelude "HOL-Library.Finite_Map"
begin

text \<open>
  Code that mutates a state and may return early: the state reached so far is kept also on an
  error, as Rust keeps the effects made through \<open>&mut\<close> before a question mark returns. A
  relation that every step moves along is lifted to sequences and loops. \<open>BTreeMap\<close> and
  \<open>HashMap\<close> are finite maps, iterated in key order by \<open>sorted_list_of_fmap\<close>; \<open>BTreeSet\<close> and
  \<open>HashSet\<close> are finite sets.
\<close>

section \<open>Stateful steps\<close>

type_synonym ('s, 'a, 'e) st = "'s \<Rightarrow> 's \<times> ('a, 'e) result"

definition st_bind :: "('s, 'a, 'e) st \<Rightarrow> ('a \<Rightarrow> ('s, 'b, 'e) st) \<Rightarrow> ('s, 'b, 'e) st" where
  "st_bind m f s = (case m s of (s', Ok x) \<Rightarrow> f x s' | (s', Err e) \<Rightarrow> (s', Err e))"

definition st_then :: "('s, 'a, 'e) st \<Rightarrow> ('s, 'b, 'e) st \<Rightarrow> ('s, 'b, 'e) st" where
  "st_then m n = st_bind m (\<lambda>_. n)"

definition st_lift :: "('s \<Rightarrow> ('a, 'e) result) \<Rightarrow> ('s, 'a, 'e) st" where
  "st_lift f s = (s, f s)"

definition st_update :: "('s \<Rightarrow> 's) \<Rightarrow> ('s, unit, 'e) st" where
  "st_update f s = (f s, Ok ())"

text \<open>A guard that returns early with an error when its test fails.\<close>

definition st_require :: "('s \<Rightarrow> bool) \<Rightarrow> 'e \<Rightarrow> ('s, unit, 'e) st" where
  "st_require P e s = (s, if P s then Ok () else Err e)"

fun st_each :: "('i \<Rightarrow> ('s, unit, 'e) st) \<Rightarrow> 'i list \<Rightarrow> ('s, unit, 'e) st" where
  "st_each f [] s = (s, Ok ())"
| "st_each f (x # xs) s = (case f x s of (s', Ok _) \<Rightarrow> st_each f xs s' | (s', Err e) \<Rightarrow> (s', Err e))"

named_theorems st_simps

lemma st_bind_Ok [st_simps]: "m s = (s', Ok x) \<Longrightarrow> st_bind m f s = f x s'"
  by (simp add: st_bind_def)

lemma st_bind_Err [st_simps]: "m s = (s', Err e) \<Longrightarrow> st_bind m f s = (s', Err e)"
  by (simp add: st_bind_def)

lemma st_bind_eq_Ok:
  "st_bind m f s = (t, Ok y) \<longleftrightarrow> (\<exists>s' x. m s = (s', Ok x) \<and> f x s' = (t, Ok y))"
  by (auto simp: st_bind_def split: prod.splits result.splits)

lemma st_then_eq_Ok:
  "st_then m n s = (t, Ok y) \<longleftrightarrow> (\<exists>s' x. m s = (s', Ok x) \<and> n s' = (t, Ok y))"
  by (simp add: st_then_def st_bind_eq_Ok)

lemma st_lift_eq_Ok [simp]: "st_lift f s = (t, Ok y) \<longleftrightarrow> t = s \<and> f s = Ok y"
  by (auto simp: st_lift_def)

lemma st_update_eq_Ok [simp]: "st_update f s = (t, Ok y) \<longleftrightarrow> t = f s"
  by (auto simp: st_update_def)

lemma st_require_eq_Ok [simp]: "st_require P e s = (t, Ok y) \<longleftrightarrow> t = s \<and> P s"
  by (auto simp: st_require_def)

lemma st_each_eq_Ok:
  "st_each f (x # xs) s = (t, Ok u) \<longleftrightarrow> (\<exists>s'. f x s = (s', Ok ()) \<and> st_each f xs s' = (t, Ok ()))"
  by (auto split: prod.splits result.splits)

lemma st_each_append_Ok:
  "st_each f (xs @ ys) s = (t, Ok ()) \<longleftrightarrow>
     (\<exists>s'. st_each f xs s = (s', Ok ()) \<and> st_each f ys s' = (t, Ok ()))"
proof (induction xs arbitrary: s)
  case (Cons x xs)
  then show ?case by (auto simp: st_each_eq_Ok simp del: st_each.simps)
qed auto

text \<open>Every run of the step, failed or not, moves the state along the relation.\<close>

definition moves :: "('s \<Rightarrow> 's \<Rightarrow> bool) \<Rightarrow> ('s, 'a, 'e) st \<Rightarrow> bool" where
  "moves R m \<longleftrightarrow> (\<forall>s. R s (fst (m s)))"

lemma movesD: "moves R m \<Longrightarrow> m s = (t, r) \<Longrightarrow> R s t"
  unfolding moves_def by (metis fst_conv)

text \<open>Every successful run of the step moves the state along the relation.\<close>

definition ok_moves :: "('s \<Rightarrow> 's \<Rightarrow> bool) \<Rightarrow> ('s, 'a, 'e) st \<Rightarrow> bool" where
  "ok_moves R m \<longleftrightarrow> (\<forall>s t x. m s = (t, Ok x) \<longrightarrow> R s t)"

lemma ok_movesD: "ok_moves R m \<Longrightarrow> m s = (t, Ok x) \<Longrightarrow> R s t"
  unfolding ok_moves_def by blast

lemma ok_movesI: "(\<And>s t x. m s = (t, Ok x) \<Longrightarrow> R s t) \<Longrightarrow> ok_moves R m"
  unfolding ok_moves_def by blast

locale step_relation =
  fixes R :: "'s \<Rightarrow> 's \<Rightarrow> bool"
  assumes step_refl: "R s s"
    and step_trans: "R s t \<Longrightarrow> R t u \<Longrightarrow> R s u"
begin

lemma moves_bind:
  assumes m: "moves R m" and f: "\<And>x. moves R (f x)"
  shows "moves R (st_bind m f)"
  unfolding moves_def
proof
  fix s
  obtain t r where t: "m s = (t, r)" by (cases "m s")
  with m have "R s t" by (rule movesD)
  moreover have "R t (fst (f x t))" for x using f unfolding moves_def by blast
  ultimately show "R s (fst (st_bind m f s))"
    using t by (cases r) (auto simp: st_bind_def intro: step_trans)
qed

lemma moves_then: "moves R m \<Longrightarrow> moves R n \<Longrightarrow> moves R (st_then m n)"
  unfolding st_then_def by (rule moves_bind)

lemma moves_lift: "moves R (st_lift f)"
  by (simp add: moves_def st_lift_def step_refl)

lemma moves_require: "moves R (st_require P e)"
  by (simp add: moves_def st_require_def step_refl)

lemma moves_update: "(\<And>s. R s (f s)) \<Longrightarrow> moves R (st_update f)"
  by (simp add: moves_def st_update_def)

lemma moves_each: "(\<And>x. x \<in> set xs \<Longrightarrow> moves R (f x)) \<Longrightarrow> moves R (st_each f xs)"
proof (induction xs)
  case Nil
  show ?case by (simp add: moves_def step_refl)
next
  case (Cons x xs)
  have "st_each f (x # xs) = st_then (f x) (st_each f xs)"
    by (auto simp: st_then_def st_bind_def fun_eq_iff split: prod.splits result.splits)
  then show ?case using Cons by (auto intro!: moves_then)
qed

lemma then_from:
  assumes "R s (fst (m s))" and "\<And>t x. m s = (t, Ok x) \<Longrightarrow> R t (fst (n t))"
  shows "R s (fst (st_then m n s))"
proof -
  obtain t r where m: "m s = (t, r)" by (cases "m s")
  then show ?thesis using assms
    by (cases r) (auto simp: st_then_def st_bind_def intro: step_trans)
qed

lemma ok_each: "(\<And>x. x \<in> set xs \<Longrightarrow> ok_moves R (f x)) \<Longrightarrow> ok_moves R (st_each f xs)"
proof (induction xs)
  case Nil
  show ?case by (simp add: ok_moves_def step_refl)
next
  case (Cons x xs)
  then have "ok_moves R (f x)" "ok_moves R (st_each f xs)" by auto
  then show ?case unfolding ok_moves_def st_each_eq_Ok by (blast intro: step_trans)
qed

lemmas moves_rules = moves_bind moves_then moves_lift moves_require moves_update moves_each

end

section \<open>Finite maps\<close>

definition fm_values :: "('k::linorder, 'v) fmap \<Rightarrow> 'v list" where
  "fm_values m = map snd (sorted_list_of_fmap m)"

lemma set_fm_values: "set (fm_values m) = {v. \<exists>k. fmlookup m k = Some v}"
proof (rule set_eqI)
  fix v
  have "v \<in> set (fm_values m) \<longleftrightarrow> (\<exists>k. k |\<in>| fmdom m \<and> v = the (fmlookup m k))"
    by (auto simp: fm_values_def sorted_list_of_fmap_def)
  also have "\<dots> \<longleftrightarrow> (\<exists>k. fmlookup m k = Some v)"
    by (metis fmlookup_dom_iff option.sel)
  finally show "v \<in> set (fm_values m) \<longleftrightarrow> v \<in> {v. \<exists>k. fmlookup m k = Some v}" by simp
qed

lemma fm_values_empty [simp]: "fm_values fmempty = []"
  by (simp add: fm_values_def sorted_list_of_fmap_def sorted_list_of_fset.rep_eq)

text \<open>A sum over the entries of a finite map, with the effect of each update on it.\<close>

definition fm_sum :: "('v \<Rightarrow> nat) \<Rightarrow> ('k, 'v) fmap \<Rightarrow> nat" where
  "fm_sum w m = (\<Sum>k\<in>fmdom' m. w (the (fmlookup m k)))"

lemma fm_sum_empty [simp]: "fm_sum w fmempty = 0"
  by (simp add: fm_sum_def)

lemma fm_sum_drop:
  assumes "fmlookup m k = Some v"
  shows "fm_sum w m = w v + fm_sum w (fmdrop k m)"
proof -
  have "k \<in> fmdom' m" using assms by (rule fmdom'I)
  then have "fm_sum w m = w v + (\<Sum>i\<in>fmdom' m - {k}. w (the (fmlookup m i)))"
    using assms by (simp add: fm_sum_def sum.remove)
  also have "(\<Sum>i\<in>fmdom' m - {k}. w (the (fmlookup m i))) = fm_sum w (fmdrop k m)"
    unfolding fm_sum_def by (rule sum.cong) auto
  finally show ?thesis .
qed

lemma fm_sum_drop_None: "fmlookup m k = None \<Longrightarrow> fmdrop k m = m"
  by (intro fmap_ext) auto

lemma fm_sum_upd: "fm_sum w (fmupd k v m) = w v + fm_sum w (fmdrop k m)"
proof -
  have "fmdrop k (fmupd k v m) = fmdrop k m" by (rule fmdrop_fmupd_same)
  then show ?thesis using fm_sum_drop [of "fmupd k v m" k v w] by simp
qed

lemma fm_sum_drop_le: "fm_sum w (fmdrop k m) \<le> fm_sum w m"
  by (cases "fmlookup m k") (auto simp: fm_sum_drop_None dest: fm_sum_drop [where w = w])

lemma fm_sum_upd_le: "fm_sum w (fmupd k v m) \<le> w v + fm_sum w m"
  using fm_sum_drop_le [of w k m] by (simp add: fm_sum_upd)

lemma fm_sum_upd_new: "fmlookup m k = None \<Longrightarrow> fm_sum w (fmupd k v m) = w v + fm_sum w m"
  by (simp add: fm_sum_upd fm_sum_drop_None)

lemma fm_sum_values: "fm_sum w m = sum_list (map w (fm_values m))"
proof -
  have d: "distinct (sorted_list_of_fset (fmdom m))"
    by (simp add: sorted_list_of_fset.rep_eq)
  have "sum_list (map w (fm_values m)) =
      sum_list (map (\<lambda>k. w (the (fmlookup m k))) (sorted_list_of_fset (fmdom m)))"
    by (simp add: fm_values_def sorted_list_of_fmap_def o_def)
  also have "\<dots> = (\<Sum>k\<in>fset (fmdom m). w (the (fmlookup m k)))"
    using sum_list_distinct_conv_sum_set [OF d] by simp
  finally show ?thesis by (simp add: fm_sum_def fmdom'_alt_def)
qed

lemma fm_sum_mem: "fmlookup m k = Some v \<Longrightarrow> w v \<le> fm_sum w m"
  using fm_sum_drop [of m k v w] by simp

section \<open>Keyed restoration\<close>

text \<open>A loop of steps that may panic.\<close>

fun opt_fold :: "('c \<Rightarrow> 's \<Rightarrow> 's option) \<Rightarrow> 'c list \<Rightarrow> 's \<Rightarrow> 's option" where
  "opt_fold f [] s = Some s"
| "opt_fold f (c # cs) s = (case f c s of None \<Rightarrow> None | Some s' \<Rightarrow> opt_fold f cs s')"

lemma opt_fold_Some: "opt_fold (\<lambda>c s. Some (f s c)) cs s = Some (foldl f s cs)"
  by (induction cs arbitrary: s) auto

text \<open>
  Undo entries that each rewrite the value at one key. When every key occurs once and every entry
  yields the target value from the current one, replaying them reaches the target map.
\<close>

locale keyed_undo =
  fixes key :: "'c \<Rightarrow> 'k"
    and edit :: "'c \<Rightarrow> 'v option \<Rightarrow> 'v option option"
    and step :: "'c \<Rightarrow> ('k, 'v) fmap \<Rightarrow> ('k, 'v) fmap option"
  assumes step_edit: "edit c (fmlookup m (key c)) = Some w \<Longrightarrow>
    \<exists>m'. step c m = Some m' \<and> (\<forall>k. fmlookup m' k = (if k = key c then w else fmlookup m k))"
begin

lemma replay:
  assumes "distinct (map key cs)"
    and "\<forall>c\<in>set cs. edit c (fmlookup m (key c)) = Some (fmlookup m0 (key c))"
    and "\<forall>k. k \<notin> key ` set cs \<longrightarrow> fmlookup m k = fmlookup m0 k"
  shows "opt_fold step cs m = Some m0"
  using assms
proof (induction cs arbitrary: m)
  case Nil
  then show ?case by (auto intro: fmap_ext)
next
  case (Cons c cs)
  obtain m' where m': "step c m = Some m'"
    and look: "\<And>k. fmlookup m' k = (if k = key c then fmlookup m0 (key c) else fmlookup m k)"
    using step_edit [of c m "fmlookup m0 (key c)"] Cons.prems(2) by auto
  have "opt_fold step cs m' = Some m0"
  proof (rule Cons.IH)
    show "distinct (map key cs)" using Cons.prems(1) by simp
    show "\<forall>d\<in>set cs. edit d (fmlookup m' (key d)) = Some (fmlookup m0 (key d))"
    proof
      fix d assume d: "d \<in> set cs"
      then have "key d \<noteq> key c" using Cons.prems(1) by (metis distinct.simps(2) image_eqI list.simps(9) set_map)
      then show "edit d (fmlookup m' (key d)) = Some (fmlookup m0 (key d))"
        using Cons.prems(2) d by (simp add: look)
    qed
    show "\<forall>k. k \<notin> key ` set cs \<longrightarrow> fmlookup m' k = fmlookup m0 k"
      using Cons.prems(3) by (auto simp: look)
  qed
  then show ?case by (simp add: m')
qed

end

text \<open>The keys of entries collected from a list of pairs, at most one per pair.\<close>

lemma distinct_keys_concat:
  assumes "distinct (map fst xs)" and "\<And>x. x \<in> set xs \<Longrightarrow> map key (f x) = [] \<or> map key (f x) = [fst x]"
  shows "distinct (map key (concat (map f xs)))" "key ` set (concat (map f xs)) \<subseteq> fst ` set xs"
proof -
  have "distinct (map key (concat (map f xs))) \<and> key ` set (concat (map f xs)) \<subseteq> fst ` set xs"
    using assms
  proof (induction xs)
    case (Cons x xs)
    then have IH: "distinct (map key (concat (map f xs)))" "key ` set (concat (map f xs)) \<subseteq> fst ` set xs"
      by auto
    have hd: "map key (f x) = [] \<or> map key (f x) = [fst x]" using Cons.prems(2) by simp
    then have fx: "key ` set (f x) \<subseteq> {fst x}" "distinct (map key (f x))" by (auto simp flip: set_map)
    have new: "fst x \<notin> fst ` set xs" using Cons.prems(1) by simp
    define as where "as = map key (f x)"
    define bs where "bs = map key (concat (map f xs))"
    have "distinct as" "distinct bs" "set as \<subseteq> {fst x}" "set bs \<subseteq> fst ` set xs"
      using IH fx by (simp_all only: as_def bs_def set_map)
    moreover have split: "map key (concat (map f (x # xs))) = as @ bs" by (simp add: as_def bs_def)
    moreover have "key ` set (concat (map f (x # xs))) = set as \<union> set bs"
      by (simp only: set_map [symmetric] split set_append)
    moreover have "set as \<inter> set bs = {}" using calculation new by blast
    moreover have "set as \<union> set bs \<subseteq> fst ` set (x # xs)" using calculation by auto
    ultimately have "distinct (map key (concat (map f (x # xs))))"
      and "key ` set (concat (map f (x # xs))) \<subseteq> fst ` set (x # xs)"
      by (simp_all only: distinct_append)
    then show ?case ..
  qed simp
  then show "distinct (map key (concat (map f xs)))" "key ` set (concat (map f xs)) \<subseteq> fst ` set xs"
    by auto
qed

lemma distinct_sorted_list_of_fmap [simp]: "distinct (map fst (sorted_list_of_fmap m))"
  by (simp add: sorted_list_of_fmap_def o_def sorted_list_of_fset.rep_eq)

lemma set_sorted_list_of_fmap: "(k, v) \<in> set (sorted_list_of_fmap m) \<longleftrightarrow> fmlookup m k = Some v"
  using map_of_sorted_list [of m] distinct_sorted_list_of_fmap [of m]
  by (metis Some_eq_map_of_iff)

lemma fst_set_sorted_list_of_fmap: "fst ` set (sorted_list_of_fmap m) = fmdom' m"
  by (simp add: sorted_list_of_fmap_def image_image fmdom'_alt_def)

end
