(* ===== verification/Governance.thy ===== *)
theory Governance
  imports Consensus Effects
begin

text \<open>
  Stake-weighted parameter votes of \<open>vtorrent-node/src/governance.rs\<close>: proposals and votes in data
  outputs, tallies, vote locks, activation, and the undo records that restore a block's pre-state.
  A failed call leaves the state as the code leaves it.
\<close>

section \<open>Constants and data\<close>

definition PROPOSAL_PREFIX :: bytes where "PROPOSAL_PREFIX = [86, 84, 82, 71, 49]"
definition VOTE_PREFIX :: bytes where "VOTE_PREFIX = [86, 84, 82, 86, 49]"
definition SIGNED_VOTE_PREFIX :: bytes where "SIGNED_VOTE_PREFIX = [86, 84, 82, 86, 50]"
definition DEFAULT_QUORUM_PCT :: u64 where "DEFAULT_QUORUM_PCT = 33"
definition DEFAULT_THRESHOLD_PCT :: u64 where "DEFAULT_THRESHOLD_PCT = 66"
definition DEFAULT_LOCK_GRACE_BLOCKS :: u32 where "DEFAULT_LOCK_GRACE_BLOCKS = 6"
definition MIN_VOTING_BLOCKS :: u32 where "MIN_VOTING_BLOCKS = 2880"
definition MAX_VOTING_BLOCKS :: u32 where "MAX_VOTING_BLOCKS = 10080"
definition MIN_ACTIVATION_DELAY :: u32 where "MIN_ACTIVATION_DELAY = 2016"
definition MAX_ACTIVATION_DELAY :: u32 where "MAX_ACTIVATION_DELAY = 20160"
definition MIN_PROPOSAL_DEPOSIT :: u64 where "MIN_PROPOSAL_DEPOSIT = 100 * COIN"

type_synonym out_point = "bytes \<times> u32"

definition invalid :: "string \<Rightarrow> node_error" where
  "invalid message = InvalidTransaction message"

datatype param_id = PosAnnualRateBps | RewardAgeCap | MinStakeAge | MaxStakeAge | MinStakeAmount
  | TargetBlockTime

definition param_id_u8 :: "param_id \<Rightarrow> byte" where
  "param_id_u8 p = (case p of PosAnnualRateBps \<Rightarrow> 0 | RewardAgeCap \<Rightarrow> 1 | MinStakeAge \<Rightarrow> 2
     | MaxStakeAge \<Rightarrow> 3 | MinStakeAmount \<Rightarrow> 4 | TargetBlockTime \<Rightarrow> 5)"

definition param_from_u8 :: "byte \<Rightarrow> param_id option" where
  "param_from_u8 v =
     (if v = 0 then Some PosAnnualRateBps else if v = 1 then Some RewardAgeCap
      else if v = 2 then Some MinStakeAge else if v = 3 then Some MaxStakeAge
      else if v = 4 then Some MinStakeAmount else if v = 5 then Some TargetBlockTime else None)"

text \<open>The parameters are replaced only when every check passes, so the result carries them.\<close>

definition apply_candidate ::
  "param_id \<Rightarrow> consensus_params \<Rightarrow> u64 \<Rightarrow> consensus_params nresult" where
  "apply_candidate p params v =
     (let out_of_range = Err (invalid ''governance parameter outside allowed range'');
          age_ok = (60 \<le> v \<and> v \<le> 365 * 86400) in
      case p of
        PosAnnualRateBps \<Rightarrow> if 1 \<le> v \<and> v \<le> 1000
          then Ok (params\<lparr>pos_annual_rate_bps := ucast v\<rparr>) else out_of_range
      | RewardAgeCap \<Rightarrow> if age_ok then Ok (params\<lparr>reward_age_cap := v\<rparr>) else out_of_range
      | MinStakeAge \<Rightarrow> if age_ok then Ok (params\<lparr>min_stake_age := v\<rparr>) else out_of_range
      | MaxStakeAge \<Rightarrow> if age_ok then Ok (params\<lparr>max_stake_age := v\<rparr>) else out_of_range
      | MinStakeAmount \<Rightarrow> if COIN \<le> v \<and> v \<le> MAX_SUPPLY
          then Ok (params\<lparr>min_stake_amount := v\<rparr>) else out_of_range
      | TargetBlockTime \<Rightarrow> if 30 \<le> v \<and> v \<le> 600
          then Ok (params\<lparr>target_block_time := v\<rparr>) else out_of_range)"

definition apply_param :: "param_id \<Rightarrow> consensus_params \<Rightarrow> u64 \<Rightarrow> consensus_params nresult" where
  "apply_param p params v = res_bind (apply_candidate p params v) (\<lambda>nxt.
     if min_stake_age nxt > max_stake_age nxt
     then Err (invalid ''minimum stake age exceeds maximum stake age'') else Ok nxt)"

section \<open>Proposals\<close>

record proposal =
  param :: param_id
  new_value :: u64
  activation_height :: u32
  voting_end :: u32
  deposit :: u64

definition encode_proposal :: "proposal \<Rightarrow> bytes" where
  "encode_proposal p = PROPOSAL_PREFIX @ [param_id_u8 (param p)] @ u64_le (new_value p) @
     u32_le (activation_height p) @ u32_le (voting_end p) @ u64_le (deposit p)"

definition starts_with :: "bytes \<Rightarrow> bytes \<Rightarrow> bool" where
  "starts_with d p \<longleftrightarrow> take (length p) d = p"

definition slice :: "nat \<Rightarrow> nat \<Rightarrow> bytes \<Rightarrow> bytes" where
  "slice a b d = take (b - a) (drop a d)"

definition decode_proposal :: "bytes \<Rightarrow> proposal option" where
  "decode_proposal d =
     (if length d \<noteq> 30 \<or> \<not> starts_with d PROPOSAL_PREFIX then None
      else case param_from_u8 (d ! 5) of
        None \<Rightarrow> None
      | Some p \<Rightarrow> Some \<lparr>param = p, new_value = u64_of_le (slice 6 14 d),
          activation_height = u32_of_le (slice 14 18 d), voting_end = u32_of_le (slice 18 22 d),
          deposit = u64_of_le (slice 22 30 d)\<rparr>)"

definition validate_proposal :: "proposal \<Rightarrow> u32 \<Rightarrow> u64 \<Rightarrow> consensus_params \<Rightarrow> unit nresult" where
  "validate_proposal p ht burned params =
     res_bind (ok_or (checked_sub (voting_end p) ht) (invalid ''voting end is in the past''))
       (\<lambda>duration.
     res_bind (ok_or (checked_sub (activation_height p) (voting_end p))
         (invalid ''activation precedes voting end'')) (\<lambda>delay.
       if \<not> (MIN_VOTING_BLOCKS \<le> duration \<and> duration \<le> MAX_VOTING_BLOCKS)
          \<or> \<not> (MIN_ACTIVATION_DELAY \<le> delay \<and> delay \<le> MAX_ACTIVATION_DELAY)
          \<or> checked_add (voting_end p) DEFAULT_LOCK_GRACE_BLOCKS = None
          \<or> deposit p < MIN_PROPOSAL_DEPOSIT
          \<or> burned \<noteq> deposit p
       then Err (invalid ''invalid proposal window, activation delay, or burned deposit'')
       else res_bind (apply_param (param p) params (new_value p)) (\<lambda>_. Ok ())))"

section \<open>Votes\<close>

datatype vote_choice = Yes | No | Abstain

definition vote_choice_u8 :: "vote_choice \<Rightarrow> byte" where
  "vote_choice_u8 c = (case c of Yes \<Rightarrow> 1 | No \<Rightarrow> 2 | Abstain \<Rightarrow> 3)"

record vote =
  vote_proposal_id :: bytes
  vote_choice_of :: vote_choice

definition encode_vote :: "vote \<Rightarrow> bytes" where
  "encode_vote v = VOTE_PREFIX @ vote_proposal_id v @ [vote_choice_u8 (vote_choice_of v)]"

definition decode_vote :: "bytes \<Rightarrow> vote option" where
  "decode_vote d =
     (if length d \<noteq> 14 \<or> \<not> starts_with d VOTE_PREFIX then None
      else if d ! 13 = 1 then Some \<lparr>vote_proposal_id = slice 5 13 d, vote_choice_of = Yes\<rparr>
      else if d ! 13 = 2 then Some \<lparr>vote_proposal_id = slice 5 13 d, vote_choice_of = No\<rparr>
      else if d ! 13 = 3 then Some \<lparr>vote_proposal_id = slice 5 13 d, vote_choice_of = Abstain\<rparr>
      else None)"

record signed_vote =
  sv_vote :: vote
  sv_outpoint :: out_point
  sv_signature :: bytes

definition unsigned_bytes :: "signed_vote \<Rightarrow> bytes" where
  "unsigned_bytes s = SIGNED_VOTE_PREFIX @ vote_proposal_id (sv_vote s) @
     [vote_choice_u8 (vote_choice_of (sv_vote s))] @ fst (sv_outpoint s) @
     u32_le (snd (sv_outpoint s))"

definition vote_digest :: "('sig, 'pk, 'x) crypto_scheme \<Rightarrow> signed_vote \<Rightarrow> bytes \<Rightarrow> bytes" where
  "vote_digest cr s genesis =
     sha256d cr (ascii ''vTorrent governance vote v2'' @ [0] @ genesis @ unsigned_bytes s)"

text \<open>Recoverable signing is the secp256k1 crate's: the recovery id and the 64 compact bytes.\<close>

definition sign_vote ::
  "('sig, 'pk, 'x) crypto_scheme \<Rightarrow> (bytes \<Rightarrow> 'sk \<Rightarrow> nat \<times> bytes) \<Rightarrow> vote \<Rightarrow> out_point \<Rightarrow> bytes \<Rightarrow>
     'sk \<Rightarrow> signed_vote" where
  "sign_vote cr sign_recoverable v op genesis key =
     (let result = \<lparr>sv_vote = v, sv_outpoint = op, sv_signature = []\<rparr>;
          (rec_id, sig) = sign_recoverable (vote_digest cr result genesis) key
      in result\<lparr>sv_signature := of_nat rec_id # sig\<rparr>)"

definition encode_signed_vote :: "signed_vote \<Rightarrow> bytes" where
  "encode_signed_vote s = unsigned_bytes s @ sv_signature s"

definition decode_signed_vote :: "bytes \<Rightarrow> signed_vote option" where
  "decode_signed_vote d =
     (if length d \<noteq> 115 \<or> \<not> starts_with d SIGNED_VOTE_PREFIX then None
      else case decode_vote (VOTE_PREFIX @ slice 5 14 d) of
        None \<Rightarrow> None
      | Some v \<Rightarrow> Some \<lparr>sv_vote = v, sv_outpoint = (slice 14 46 d, u32_of_le (slice 46 50 d)),
          sv_signature = drop 50 d\<rparr>)"

definition signed_vote_script :: "signed_vote \<Rightarrow> bytes nresult" where
  "signed_vote_script s =
     (case push_data [0x6a] (encode_signed_vote s) of
        Ok b \<Rightarrow> Ok b | Err _ \<Rightarrow> Err (invalid ''invalid governance vote payload''))"

text \<open>
  \<open>RecoveryId::from_i32\<close> accepts 0 to 3; \<open>recover_ecdsa\<close> parses the compact signature and recovers
  the key, each of the two library errors being \<open>None\<close>.
\<close>

definition vote_owner ::
  "('sig, 'pk, 'x) node_lib_scheme \<Rightarrow> signed_vote \<Rightarrow> utxo \<Rightarrow> bytes \<Rightarrow> bytes nresult" where
  "vote_owner lib s u genesis =
     (if length (sv_signature s) \<noteq> 65 then Err (invalid ''invalid vote signature length'')
      else if sv_signature s ! 0 > 3 then Err (invalid ''invalid vote recovery id'')
      else case recover_ecdsa lib (vote_digest lib s genesis) (drop 1 (sv_signature s))
          (unat (sv_signature s ! 0)) of
        None \<Rightarrow> Err (invalid ''invalid vote signature'')
      | Some pk \<Rightarrow>
          (case from_bytes (u_script u) of
             Err _ \<Rightarrow> Err (invalid ''invalid voting script'')
           | Ok scr \<Rightarrow>
               res_bind (case classify_script scr of
                   P2PKH \<Rightarrow> Ok (slice 3 23 (u_script u))
                 | P2CS staking spending locktime \<Rightarrow> Ok spending
                 | _ \<Rightarrow> Err (invalid ''unsupported voting script'')) (\<lambda>owner_hash.
                 let compressed = (owner_hash = hash160 lib (serialize_pk lib pk)) in
                 if \<not> compressed \<and> owner_hash \<noteq> hash160 lib (serialize_pk_uncompressed lib pk)
                 then Err (invalid ''vote signature does not authorize the voting outpoint'')
                 else Ok (encode_address lib (from_pubkey lib pk compressed 70)))))"

section \<open>Tallies\<close>

datatype proposal_outcome = Open | Failed | Passed param_id u64 u32

definition tally :: "proposal \<Rightarrow> u64 \<Rightarrow> u64 \<Rightarrow> u64 \<Rightarrow> u64 \<Rightarrow> u32 \<Rightarrow> proposal_outcome" where
  "tally p yes no abstain total_staked ht =
     (if ht < voting_end p then Open
      else let turnout = (ucast yes + ucast no + ucast abstain :: u128);
               decisive = (ucast yes + ucast no :: u128) in
        if total_staked = 0
           \<or> turnout * 100 < ucast total_staked * ucast DEFAULT_QUORUM_PCT
           \<or> decisive = 0
           \<or> ucast yes * 100 < decisive * ucast DEFAULT_THRESHOLD_PCT
        then Failed
        else Passed (param p) (new_value p) (activation_height p))"

section \<open>State\<close>

record proposal_record =
  rec_proposal :: proposal
  created_height :: u32
  yes :: u64
  no :: u64
  abstain :: u64
  decided :: bool
  passed :: bool
  applied :: bool
  activation_failed :: bool
  quorum_supply :: u64
  voted_outpoints :: "out_point fset"

record vote_lock =
  lock_txid :: bytes
  lock_vout :: u32
  unlock_height :: u32
  voter :: bytes
  lock_proposal_id :: bytes
  voting_origin :: out_point
  voting_value :: u64
  voting_origin_height :: u32

record governance_state =
  proposals :: "(bytes, proposal_record) fmap"
  locked_utxos :: "(out_point, vote_lock) fmap"

definition new_governance :: governance_state where
  "new_governance = \<lparr>proposals = fmempty, locked_utxos = fmempty\<rparr>"

datatype proposal_undo =
    Added bytes
  | Removed bytes proposal_record
  | Updated bytes proposal_record "out_point list" "out_point list"

record governance_undo =
  undo_proposals :: "proposal_undo list"
  undo_locks :: "(out_point \<times> vote_lock option) list"

definition proposal_metadata :: "proposal_record \<Rightarrow> proposal_record" where
  "proposal_metadata r = r\<lparr>voted_outpoints := {||}\<rparr>"

section \<open>Undo records\<close>

definition proposal_changes :: "governance_state \<Rightarrow> governance_state \<Rightarrow> proposal_undo list" where
  "proposal_changes now before =
     concat (map (\<lambda>(i, r). case fmlookup (proposals before) i of
         None \<Rightarrow> [Added i]
       | Some old \<Rightarrow> if old \<noteq> r then [Updated i (proposal_metadata old)
             (sorted_list_of_fset (voted_outpoints r |-| voted_outpoints old))
             (sorted_list_of_fset (voted_outpoints old |-| voted_outpoints r))] else [])
       (sorted_list_of_fmap (proposals now))) @
     concat (map (\<lambda>(i, old). if fmlookup (proposals now) i = None then [Removed i old] else [])
       (sorted_list_of_fmap (proposals before)))"

definition lock_changes ::
  "governance_state \<Rightarrow> governance_state \<Rightarrow> (out_point \<times> vote_lock option) list" where
  "lock_changes now before =
     concat (map (\<lambda>(k, old). if fmlookup (locked_utxos now) k \<noteq> Some old then [(k, Some old)] else [])
       (sorted_list_of_fmap (locked_utxos before))) @
     concat (map (\<lambda>(k, _). if fmlookup (locked_utxos before) k = None then [(k, None)] else [])
       (sorted_list_of_fmap (locked_utxos now)))"

definition undo_since :: "governance_state \<Rightarrow> governance_state \<Rightarrow> governance_undo" where
  "undo_since now before =
     \<lparr>undo_proposals = proposal_changes now before, undo_locks = lock_changes now before\<rparr>"

text \<open>\<open>None\<close> is the panic of the \<open>expect\<close> on a missing journaled proposal.\<close>

fun restore_proposal ::
  "proposal_undo \<Rightarrow> (bytes, proposal_record) fmap \<Rightarrow> (bytes, proposal_record) fmap option" where
  "restore_proposal (Added i) ps = Some (fmdrop i ps)"
| "restore_proposal (Removed i r) ps = Some (fmupd i r ps)"
| "restore_proposal (Updated i metadata added removed) ps =
     (case fmlookup ps i of
        None \<Rightarrow> None
      | Some r \<Rightarrow> Some (fmupd i (metadata\<lparr>voted_outpoints :=
          (voted_outpoints r |-| fset_of_list added) |\<union>| fset_of_list removed\<rparr>) ps))"

definition restore_lock ::
  "(out_point, vote_lock) fmap \<Rightarrow> out_point \<times> vote_lock option \<Rightarrow> (out_point, vote_lock) fmap" where
  "restore_lock ls = (\<lambda>(k, old). case old of Some l \<Rightarrow> fmupd k l ls | None \<Rightarrow> fmdrop k ls)"

definition restore_undo :: "governance_undo \<Rightarrow> governance_state \<Rightarrow> governance_state option" where
  "restore_undo u g =
     (case opt_fold restore_proposal (rev (undo_proposals u)) (proposals g) of
        None \<Rightarrow> None
      | Some ps \<Rightarrow> Some \<lparr>proposals = ps,
          locked_utxos = foldl restore_lock (locked_utxos g) (rev (undo_locks u))\<rparr>)"


section \<open>Data outputs\<close>

definition op_return_data :: "bytes \<Rightarrow> bytes option" where
  "op_return_data scr =
     (if length scr = 0 \<or> scr ! 0 \<noteq> 0x6a then None
      else if length scr \<le> 1 then None
      else let n = scr ! 1 in
        case (if 1 \<le> n \<and> n \<le> 75 then Some (2, unat n)
              else if n = 0x4c then (if length scr \<le> 2 then None else Some (3, unat (scr ! 2)))
              else None) of
          None \<Rightarrow> None
        | Some (offset, len) \<Rightarrow> if length scr \<noteq> offset + len then None else Some (drop offset scr))"

definition proposal_id_of :: "('sig, 'pk, 'x) crypto_scheme \<Rightarrow> proposal \<Rightarrow> u32 \<Rightarrow> bytes" where
  "proposal_id_of cr p ht = take 8 (sha256 cr (encode_proposal p @ u32_le ht))"

text \<open>The two maps built by \<open>transaction_undo\<close>: votes by proposal, and locks by outpoint.\<close>

definition touch ::
  "('sig, 'pk, 'x) crypto_scheme \<Rightarrow> governance_state \<Rightarrow> u32 \<Rightarrow>
     (bytes, out_point fset) fmap \<times> (out_point, vote_lock option) fmap \<Rightarrow> tx_output \<Rightarrow>
     (bytes, out_point fset) fmap \<times> (out_point, vote_lock option) fmap" where
  "touch cr g ht = (\<lambda>(ps, ls) out.
     case op_return_data (script_pubkey out) of
       None \<Rightarrow> (ps, ls)
     | Some d \<Rightarrow> (case decode_proposal d of
         Some p \<Rightarrow>
           (let i = proposal_id_of cr p ht in
            (case fmlookup ps i of None \<Rightarrow> fmupd i {||} ps | Some _ \<Rightarrow> ps, ls))
       | None \<Rightarrow> (case decode_signed_vote d of
           None \<Rightarrow> (ps, ls)
         | Some s \<Rightarrow>
             (let op = sv_outpoint s;
                  i = vote_proposal_id (sv_vote s);
                  origin = (case fmlookup (locked_utxos g) op of
                      Some l \<Rightarrow> voting_origin l | None \<Rightarrow> op);
                  votes = (case fmlookup ps i of None \<Rightarrow> {||} | Some vs \<Rightarrow> vs);
                  votes1 = (case fmlookup (proposals g) i of
                      Some r \<Rightarrow> if origin |\<notin>| voted_outpoints r then finsert origin votes else votes
                    | None \<Rightarrow> votes)
              in (fmupd i votes1 ps,
                  case fmlookup ls op of
                    None \<Rightarrow> fmupd op (fmlookup (locked_utxos g) op) ls | Some _ \<Rightarrow> ls)))))"

definition transaction_undo ::
  "('sig, 'pk, 'x) crypto_scheme \<Rightarrow> governance_state \<Rightarrow> transaction \<Rightarrow> u32 \<Rightarrow> governance_undo" where
  "transaction_undo cr g tx ht =
     (let (ps, ls) = foldl (touch cr g ht) (fmempty, fmempty) (outputs tx) in
      \<lparr>undo_proposals = map (\<lambda>(i, votes). case fmlookup (proposals g) i of
          Some r \<Rightarrow> Updated i (proposal_metadata r) (sorted_list_of_fset votes) []
        | None \<Rightarrow> Added i) (sorted_list_of_fmap ps),
       undo_locks = sorted_list_of_fmap ls\<rparr>)"

section \<open>Transitions\<close>

definition is_utxo_locked :: "governance_state \<Rightarrow> bytes \<Rightarrow> u32 \<Rightarrow> u32 \<Rightarrow> bool" where
  "is_utxo_locked g t v ht =
     (case fmlookup (locked_utxos g) (t, v) of None \<Rightarrow> False | Some l \<Rightarrow> ht < unlock_height l)"

definition decide_record :: "u32 \<Rightarrow> proposal_record \<Rightarrow> proposal_record" where
  "decide_record ht r =
     (let r1 = (if \<not> decided r \<and> ht \<ge> voting_end (rec_proposal r)
            then r\<lparr>decided := True,
              passed := (case tally (rec_proposal r) (yes r) (no r) (abstain r) (quorum_supply r) ht
                of Passed _ _ _ \<Rightarrow> True | _ \<Rightarrow> False)\<rparr> else r)
      in if decided r1 \<and> ht \<ge> voting_end (rec_proposal r1)
         then r1\<lparr>voted_outpoints := {||}\<rparr> else r1)"

definition pending_activations ::
  "u32 \<Rightarrow> (bytes, proposal_record) fmap \<Rightarrow> (u32 \<times> u32 \<times> bytes) list" where
  "pending_activations ht ps = sort (concat (map (\<lambda>(i, r).
     if passed r \<and> \<not> applied r \<and> ht \<ge> activation_height (rec_proposal r)
     then [(activation_height (rec_proposal r), created_height r, i)] else [])
     (sorted_list_of_fmap ps)))"

definition candidate_has_stake ::
  "consensus_params \<Rightarrow> (out_point, utxo) fmap \<Rightarrow> u32 \<Rightarrow> bool" where
  "candidate_has_stake candidate utxos ts =
     list_ex (\<lambda>u. is_stakeable_with candidate u \<and>
       (case checked_sub ts (u_timestamp u) of
          None \<Rightarrow> False
        | Some age \<Rightarrow> ucast age \<ge> min_stake_age candidate \<and> ucast age \<le> max_stake_age candidate))
       (fm_values utxos)"

definition activate ::
  "(out_point, utxo) fmap \<Rightarrow> u32 \<Rightarrow> (bytes, proposal_record) fmap \<times> consensus_params \<Rightarrow>
     u32 \<times> u32 \<times> bytes \<Rightarrow> (bytes, proposal_record) fmap \<times> consensus_params" where
  "activate utxos ts = (\<lambda>(ps, params) (_, _, i).
     let r = the (fmlookup ps i) in
     case apply_param (param (rec_proposal r)) params (new_value (rec_proposal r)) of
       Err _ \<Rightarrow> (fmupd i (r\<lparr>activation_failed := True, applied := True\<rparr>) ps, params)
     | Ok candidate \<Rightarrow>
         (let failed = (\<not> candidate_has_stake candidate utxos ts) in
          (fmupd i (r\<lparr>activation_failed := failed, applied := True\<rparr>) ps,
           if failed then params else candidate)))"

definition begin_block ::
  "u32 \<Rightarrow> (out_point, utxo) fmap \<Rightarrow> u32 \<Rightarrow> governance_state \<times> consensus_params \<Rightarrow>
     governance_state \<times> consensus_params" where
  "begin_block ht utxos ts = (\<lambda>(g, params).
     let locks = fmfilter (\<lambda>k. case fmlookup (locked_utxos g) k of
           None \<Rightarrow> False | Some l \<Rightarrow> ht < unlock_height l) (locked_utxos g);
         ps = fmmap (decide_record ht) (proposals g);
         (ps', params') = foldl (activate utxos ts) (ps, params) (pending_activations ht ps)
     in (\<lparr>proposals = ps', locked_utxos = locks\<rparr>, params'))"

definition count_vote :: "vote_choice \<Rightarrow> u64 \<Rightarrow> proposal_record \<Rightarrow> proposal_record option" where
  "count_vote c stake r = (case c of
       Yes \<Rightarrow> map_option (\<lambda>n. r\<lparr>yes := n\<rparr>) (checked_add (yes r) stake)
     | No \<Rightarrow> map_option (\<lambda>n. r\<lparr>no := n\<rparr>) (checked_add (no r) stake)
     | Abstain \<Rightarrow> map_option (\<lambda>n. r\<lparr>abstain := n\<rparr>) (checked_add (abstain r) stake))"

definition process_proposal ::
  "('sig, 'pk, 'x) node_lib_scheme \<Rightarrow> u32 \<Rightarrow> consensus_params \<Rightarrow> u64 \<Rightarrow> u64 \<Rightarrow> bytes \<Rightarrow>
     (governance_state, unit, node_error) st" where
  "process_proposal lib ht params staked burned d g =
     (case decode_proposal d of
        None \<Rightarrow> (g, Err (invalid ''malformed governance proposal''))
      | Some p \<Rightarrow>
          (case validate_proposal p ht burned params of
             Err e \<Rightarrow> (g, Err e)
           | Ok _ \<Rightarrow>
               (let i = proposal_id_of lib p ht in
                if fmlookup (proposals g) i \<noteq> None
                then (g, Err (invalid ''duplicate governance proposal''))
                else (g\<lparr>proposals := fmupd i \<lparr>rec_proposal = p, created_height = ht, yes = 0, no = 0,
                    abstain = 0, decided = False, passed = False, applied = False,
                    activation_failed = False, quorum_supply = staked, voted_outpoints = {||}\<rparr>
                    (proposals g)\<rparr>, Ok ()))))"

definition mature_stake :: "consensus_params \<Rightarrow> u32 \<Rightarrow> utxo \<Rightarrow> bool" where
  "mature_stake params ts u \<longleftrightarrow>
     \<not> (\<not> is_stakeable u \<or> u_value u < min_stake_amount params \<or> u_timestamp u > ts \<or>
        (ucast (ts - u_timestamp u) :: u64) < min_stake_age params)"

text \<open>The weight of a vote: a locked output keeps the origin and value it first voted with.\<close>

definition voting_weight :: "governance_state \<Rightarrow> out_point \<Rightarrow> utxo \<Rightarrow> out_point \<times> u64 \<times> u32" where
  "voting_weight g op u =
     (case fmlookup (locked_utxos g) op of
        Some l \<Rightarrow> (voting_origin l, min (voting_value l) (u_value u), voting_origin_height l)
      | None \<Rightarrow> (op, u_value u, u_height u))"

definition cast_vote ::
  "u32 \<Rightarrow> signed_vote \<Rightarrow> utxo \<Rightarrow> bytes \<Rightarrow> (governance_state, unit, node_error) st" where
  "cast_vote ht s u voter_name g =
     (let op = sv_outpoint s; i = vote_proposal_id (sv_vote s);
          (origin, stake, origin_height) = voting_weight g op u in
      case fmlookup (proposals g) i of
        None \<Rightarrow> (g, Err (invalid ''unknown governance proposal''))
      | Some r \<Rightarrow>
          if ht \<le> created_height r \<or> ht \<ge> voting_end (rec_proposal r) \<or> decided r
          then (g, Err (invalid ''governance voting window is closed''))
          else if origin_height \<ge> created_height r
          then (g, Err (invalid ''voting stake did not exist at proposal creation''))
          else if origin |\<in>| voted_outpoints r
          then (g, Err (invalid ''voting outpoint already counted for this proposal''))
          else let r1 = r\<lparr>voted_outpoints := finsert origin (voted_outpoints r)\<rparr> in
            case count_vote (vote_choice_of (sv_vote s)) stake r1 of
              None \<Rightarrow> (g\<lparr>proposals := fmupd i r1 (proposals g)\<rparr>, Err (invalid ''vote tally overflow''))
            | Some r2 \<Rightarrow>
                (let g2 = g\<lparr>proposals := fmupd i r2 (proposals g)\<rparr> in
                 case checked_add (voting_end (rec_proposal r2)) DEFAULT_LOCK_GRACE_BLOCKS of
                   None \<Rightarrow> (g2, Err (invalid ''vote unlock overflow''))
                 | Some unl \<Rightarrow>
                     (let lock = (case fmlookup (locked_utxos g2) op of
                            Some l \<Rightarrow> l
                          | None \<Rightarrow> \<lparr>lock_txid = u_txid u, lock_vout = u_vout u,
                              unlock_height = unl, voter = voter_name, lock_proposal_id = i,
                              voting_origin = origin, voting_value = stake,
                              voting_origin_height = origin_height\<rparr>);
                          lock1 = (if unl > unlock_height lock
                            then lock\<lparr>unlock_height := unl, lock_proposal_id := i\<rparr> else lock)
                      in (g2\<lparr>locked_utxos := fmupd op lock1 (locked_utxos g2)\<rparr>, Ok ()))))"

definition process_vote ::
  "('sig, 'pk, 'x) node_lib_scheme \<Rightarrow> u32 \<Rightarrow> u32 \<Rightarrow> (out_point, utxo) fmap \<Rightarrow> consensus_params \<Rightarrow>
     bytes \<Rightarrow> bytes \<Rightarrow> (governance_state, unit, node_error) st" where
  "process_vote lib ht ts utxos params genesis d g =
     (case decode_signed_vote d of
        None \<Rightarrow> (g, Err (invalid ''malformed governance vote''))
      | Some s \<Rightarrow>
          (case fmlookup utxos (sv_outpoint s) of
             None \<Rightarrow> (g, Err (invalid ''voting outpoint is not unspent''))
           | Some u \<Rightarrow>
               if \<not> mature_stake params ts u
               then (g, Err (invalid ''voting outpoint is not mature stake''))
               else (case vote_owner lib s u genesis of
                   Err e \<Rightarrow> (g, Err e)
                 | Ok voter_name \<Rightarrow> cast_vote ht s u voter_name g)))"

definition process_output ::
  "('sig, 'pk, 'x) node_lib_scheme \<Rightarrow> u32 \<Rightarrow> u32 \<Rightarrow> (out_point, utxo) fmap \<Rightarrow> consensus_params \<Rightarrow>
     u64 \<Rightarrow> bytes \<Rightarrow> tx_output \<Rightarrow> (governance_state, unit, node_error) st" where
  "process_output lib ht ts utxos params staked genesis out g =
     (case op_return_data (script_pubkey out) of
        None \<Rightarrow> (g, Ok ())
      | Some d \<Rightarrow>
          if starts_with d PROPOSAL_PREFIX
          then process_proposal lib ht params staked (out_value out) d g
          else if starts_with d SIGNED_VOTE_PREFIX
          then process_vote lib ht ts utxos params genesis d g
          else if starts_with d VOTE_PREFIX
          then (g, Err (invalid ''unsigned governance votes are not authorized''))
          else (g, Ok ()))"

definition process_transaction ::
  "('sig, 'pk, 'x) node_lib_scheme \<Rightarrow> transaction \<Rightarrow> u32 \<Rightarrow> u32 \<Rightarrow> (out_point, utxo) fmap \<Rightarrow>
     consensus_params \<Rightarrow> u64 \<Rightarrow> bytes \<Rightarrow> (governance_state, unit, node_error) st" where
  "process_transaction lib tx ht ts utxos params staked genesis =
     st_each (process_output lib ht ts utxos params staked genesis) (outputs tx)"

definition transfer_stake_lock ::
  "('sig, 'pk, 'x) node_lib_scheme \<Rightarrow> transaction \<Rightarrow> utxo \<Rightarrow> u32 \<Rightarrow>
     (governance_state, unit, node_error) st" where
  "transfer_stake_lock lib tx u ht g =
     (let key = (u_txid u, u_vout u) in
      if \<not> is_utxo_locked g (u_txid u) (u_vout u) ht then (g, Ok ())
      else let outs = filter (\<lambda>(_, out). out_value out > 0) (List.enumerate 0 (outputs tx)) in
        if \<not> is_coinstake tx \<or> length outs \<noteq> 1 \<or> script_pubkey (snd (outs ! 0)) \<noteq> u_script u \<or>
           out_value (snd (outs ! 0)) < u_value u
        then (g, Err (invalid ''vote-locked stake must re-lock all value to the same script''))
        else let lock = (the (fmlookup (locked_utxos g) key))
               \<lparr>lock_txid := txid lib tx, lock_vout := of_nat (fst (outs ! 0))\<rparr>
          in (g\<lparr>locked_utxos := fmupd (lock_txid lock, lock_vout lock) lock
               (fmdrop key (locked_utxos g))\<rparr>, Ok ()))"

end
