(* ===== verification/Voting.thy ===== *)
theory Voting
  imports GovernanceProps Samples
begin

text \<open>
  What votes can do: payloads survive the trip through a data output, parameters never leave their
  bounds, and a proposal is applied only after its quorum and its threshold, on frozen tallies.
\<close>

section \<open>Payloads\<close>

lemma starts_with_append [simp]: "starts_with (p @ d) p"
  by (simp add: starts_with_def)

lemmas prefix_defs = PROPOSAL_PREFIX_def VOTE_PREFIX_def SIGNED_VOTE_PREFIX_def

lemma length_prefixes [simp]:
  "length PROPOSAL_PREFIX = 5" "length VOTE_PREFIX = 5" "length SIGNED_VOTE_PREFIX = 5"
  by (simp_all add: prefix_defs)

lemma param_from_u8_u8 [simp]: "param_from_u8 (param_id_u8 p) = Some p"
  by (cases p) (simp_all add: param_from_u8_def param_id_u8_def)

lemma decode_encode_proposal: "decode_proposal (encode_proposal p) = Some p"
proof -
  have s: "slice 6 14 (encode_proposal p) = u64_le (new_value p)"
    "slice 14 18 (encode_proposal p) = u32_le (activation_height p)"
    "slice 18 22 (encode_proposal p) = u32_le (voting_end p)"
    "slice 22 30 (encode_proposal p) = u64_le (deposit p)"
    by (simp_all add: encode_proposal_def slice_def)
  have "encode_proposal p ! 5 = param_id_u8 (param p)" "length (encode_proposal p) = 30"
    "starts_with (encode_proposal p) PROPOSAL_PREFIX"
    by (simp_all add: encode_proposal_def nth_append)
  then show ?thesis by (simp add: decode_proposal_def s)
qed

lemma decode_vote_body:
  "length i = 8 \<Longrightarrow> decode_vote (VOTE_PREFIX @ i @ [vote_choice_u8 c]) =
     Some \<lparr>vote_proposal_id = i, vote_choice_of = c\<rparr>"
  by (cases c) (simp_all add: decode_vote_def vote_choice_u8_def slice_def nth_append)

lemma decode_encode_vote: "length (vote_proposal_id v) = 8 \<Longrightarrow> decode_vote (encode_vote v) = Some v"
  by (simp add: encode_vote_def decode_vote_body)

definition vote_wf :: "signed_vote \<Rightarrow> bool" where
  "vote_wf s \<longleftrightarrow> length (vote_proposal_id (sv_vote s)) = 8 \<and> length (fst (sv_outpoint s)) = 32 \<and>
     length (sv_signature s) = 65"

lemma length_encode_signed_vote: "vote_wf s \<Longrightarrow> length (encode_signed_vote s) = 115"
  by (simp add: vote_wf_def encode_signed_vote_def unsigned_bytes_def)

lemma decode_encode_signed_vote:
  assumes "vote_wf s"
  shows "decode_signed_vote (encode_signed_vote s) = Some s"
proof -
  let ?e = "encode_signed_vote s"
  have e: "slice 5 14 ?e = vote_proposal_id (sv_vote s) @ [vote_choice_u8 (vote_choice_of (sv_vote s))]"
    "slice 14 46 ?e = fst (sv_outpoint s)" "slice 46 50 ?e = u32_le (snd (sv_outpoint s))"
    "drop 50 ?e = sv_signature s" "starts_with ?e SIGNED_VOTE_PREFIX"
    using assms by (simp_all add: vote_wf_def encode_signed_vote_def unsigned_bytes_def slice_def)
  show ?thesis
    using assms
    by (simp add: decode_signed_vote_def length_encode_signed_vote e decode_vote_body vote_wf_def)
qed

lemma op_return_data_long:
  assumes "length d = n" "75 < n" "n < 256"
  shows "op_return_data ([0x6a, 0x4c, of_nat n] @ d) = Some d"
  using assms by (simp add: op_return_data_def unat_of_nat)

text \<open>
  C38: A signed vote written into a data output is read back from the script as the same vote.
\<close>

theorem signed_vote_roundtrip:
  assumes "vote_wf s"
  shows "\<exists>scr. signed_vote_script s = Ok scr \<and>
    Option.bind (op_return_data scr) decode_signed_vote = Some s"
proof -
  have n: "length (encode_signed_vote s) = 115" using assms by (rule length_encode_signed_vote)
  then have "signed_vote_script s = Ok ([0x6a, 0x4c, of_nat 115] @ encode_signed_vote s)"
    by (simp add: signed_vote_script_def push_data_def MAX_PUSH_SIZE_def Let_def)
  moreover have "op_return_data ([0x6a, 0x4c, of_nat 115] @ encode_signed_vote s) =
      Some (encode_signed_vote s)"
    by (rule op_return_data_long) (simp_all add: n)
  ultimately show ?thesis using decode_encode_signed_vote [OF assms] by simp
qed

definition sample_vote :: signed_vote where
  "sample_vote = \<lparr>sv_vote = \<lparr>vote_proposal_id = replicate 8 7, vote_choice_of = Yes\<rparr>,
     sv_outpoint = (replicate 32 1, 3), sv_signature = replicate 65 9\<rparr>"

theorem signed_vote_roundtrip_witness:
  "vote_wf sample_vote \<and> (\<exists>scr. signed_vote_script sample_vote = Ok scr \<and>
    Option.bind (op_return_data scr) decode_signed_vote = Some sample_vote)"
proof -
  have "vote_wf sample_vote" by (simp add: vote_wf_def sample_vote_def)
  with signed_vote_roundtrip [of sample_vote] show ?thesis by blast
qed

section \<open>Parameter bounds\<close>

definition params_ok :: "consensus_params \<Rightarrow> bool" where
  "params_ok p \<longleftrightarrow> 1 \<le> pos_annual_rate_bps p \<and> pos_annual_rate_bps p \<le> 1000 \<and>
     60 \<le> reward_age_cap p \<and> reward_age_cap p \<le> 365 * 86400 \<and>
     60 \<le> min_stake_age p \<and> min_stake_age p \<le> 365 * 86400 \<and>
     60 \<le> max_stake_age p \<and> max_stake_age p \<le> 365 * 86400 \<and> min_stake_age p \<le> max_stake_age p \<and> COIN \<le> min_stake_amount p \<and> min_stake_amount p \<le> MAX_SUPPLY \<and>
     30 \<le> target_block_time p \<and> target_block_time p \<le> 600"

lemma default_params_ok: "params_ok default_params"
  by (simp add: params_ok_def default_params_def MAX_STAKE_AGE_def MIN_STAKE_AGE_def
      MIN_STAKE_AMOUNT_def COIN_def MAX_SUPPLY_def TARGET_BLOCK_TIME_def)

lemma ucast_rate:
  assumes "1 \<le> (v :: u64)" "v \<le> 1000"
  shows "1 \<le> (ucast v :: u32)" "(ucast v :: u32) \<le> 1000"
proof -
  have "unat v \<le> 1000" "1 \<le> unat v" using assms by (simp_all add: word_le_nat_alt)
  then have "unat (ucast v :: u32) = unat v" by (simp add: unsigned_ucast_eq take_bit_nat_eq_self)
  then show "1 \<le> (ucast v :: u32)" "(ucast v :: u32) \<le> 1000"
    using \<open>unat v \<le> 1000\<close> \<open>1 \<le> unat v\<close> by (simp_all add: word_le_nat_alt)
qed

lemma apply_param_ok:
  assumes "params_ok p" "apply_param i p v = Ok p'"
  shows "params_ok p'"
  using assms ucast_rate [of v]
  by (cases i) (auto simp: apply_param_def apply_candidate_def params_ok_def Let_def split: if_splits)

lemma activate_ok: "params_ok p \<Longrightarrow> activate utxos ts (ps, p) x = (ps', p') \<Longrightarrow> params_ok p'"
  by (auto simp: activate_def Let_def dest: apply_param_ok split: prod.splits result.splits if_splits)

lemma activate_fold_ok:
  "params_ok p \<Longrightarrow> foldl (activate utxos ts) (ps, p) xs = (ps', p') \<Longrightarrow> params_ok p'"
proof (induction xs arbitrary: ps p)
  case (Cons x xs)
  obtain ps1 p1 where a: "activate utxos ts (ps, p) x = (ps1, p1)" by fastforce
  then show ?case using Cons.IH [of p1 ps1] Cons.prems activate_ok [OF Cons.prems(1) a] by simp
qed simp

lemma begin_block_params_ok:
  "params_ok p \<Longrightarrow> begin_block ht utxos ts (g, p) = (g', p') \<Longrightarrow> params_ok p'"
  by (auto simp: begin_block_def Let_def intro: activate_fold_ok split: prod.splits)

text \<open>Whatever is voted in, a year of staking mints at most a tenth of the stake.\<close>

lemma reward_le_tenth:
  assumes "params_ok p"
  shows "\<exists>r. compute_pos_reward_with p stake age = Ok r \<and> unat r \<le> unat stake div 10"
proof -
  have r: "unat (pos_annual_rate_bps p) \<le> 1000" and c: "unat (reward_age_cap p) \<le> 31536000"
    using assms by (simp_all add: params_ok_def word_le_nat_alt)
  have "reward_numerator p stake age \<le> unat stake * 31536000 * 1000"
    unfolding reward_numerator_def using r c by (intro mult_le_mono) auto
  then have n: "reward_numerator p stake age \<le> unat stake * 31536000000" by simp
  then have "reward_numerator p stake age < 2 ^ 64 * REWARD_DENOMINATOR"
    using unat_u64_lt [of stake] by (simp add: REWARD_DENOMINATOR_def)
  from compute_pos_reward_exact [OF this] obtain r where
    ok: "compute_pos_reward_with p stake age = Ok r" "unat r = reward_numerator p stake age div REWARD_DENOMINATOR"
    by blast
  have "unat r \<le> unat stake * 31536000000 div REWARD_DENOMINATOR"
    unfolding ok(2) using n by (rule div_le_mono)
  also have "\<dots> = unat stake div 10" by (simp add: REWARD_DENOMINATOR_def)
  finally show ?thesis using ok(1) by blast
qed

section \<open>Reachable states\<close>

definition supermajority :: "proposal_record \<Rightarrow> bool" where
  "supermajority r \<longleftrightarrow>
     0 < unat (quorum_supply r) \<and> 0 < unat (yes r) + unat (no r) \<and>
     33 * unat (quorum_supply r) \<le> 100 * (unat (yes r) + unat (no r) + unat (abstain r)) \<and>
     66 * (unat (yes r) + unat (no r)) \<le> 100 * unat (yes r)"

lemma unat_mult_fits: "unat a * unat b < 2 ^ 128 \<Longrightarrow> unat (a * b :: u128) = unat a * unat b"
  by (simp add: unat_word_ariths)

lemma tally_Passed:
  "(\<exists>a b c. tally (rec_proposal r) (yes r) (no r) (abstain r) (quorum_supply r) ht = Passed a b c) \<longleftrightarrow>
     voting_end (rec_proposal r) \<le> ht \<and> supermajority r"
proof -
  have y: "unat (yes r) < 2 ^ 64" "unat (no r) < 2 ^ 64" "unat (abstain r) < 2 ^ 64"
    "unat (quorum_supply r) < 2 ^ 64" by (rule unat_u64_lt)+
  have s2: "unat (ucast (yes r) + ucast (no r) :: u128) = unat (yes r) + unat (no r)"
    using y by (simp add: unat_word_ariths)
  have s3: "unat (ucast (yes r) + ucast (no r) + ucast (abstain r) :: u128) =
      unat (yes r) + unat (no r) + unat (abstain r)"
    using y s2 by (simp add: unat_word_ariths(1) [of "_ + _"])
  have m: "unat ((ucast (yes r) + ucast (no r) + ucast (abstain r)) * 100 :: u128) =
        100 * (unat (yes r) + unat (no r) + unat (abstain r))"
    "unat (ucast (quorum_supply r) * ucast DEFAULT_QUORUM_PCT :: u128) = 33 * unat (quorum_supply r)"
    "unat (ucast (yes r) * 100 :: u128) = 100 * unat (yes r)"
    "unat ((ucast (yes r) + ucast (no r)) * ucast DEFAULT_THRESHOLD_PCT :: u128) =
        66 * (unat (yes r) + unat (no r))"
    by (subst unat_mult_fits; use y in \<open>simp add: s2 s3 DEFAULT_QUORUM_PCT_def DEFAULT_THRESHOLD_PCT_def\<close>)+
  have z: "quorum_supply r = 0 \<longleftrightarrow> unat (quorum_supply r) = 0"
    "(ucast (yes r) + ucast (no r) :: u128) = 0 \<longleftrightarrow> unat (yes r) + unat (no r) = 0"
    using s2 by (simp_all add: unat_eq_0 [symmetric] del: unat_eq_0)
  show ?thesis
    by (simp only: tally_def Let_def word_less_nat_alt m z supermajority_def not_less [symmetric]) auto
qed

definition record_ok :: "proposal_record \<Rightarrow> bool" where
  "record_ok r \<longleftrightarrow> (decided r \<longrightarrow> voted_outpoints r = {||}) \<and>
     (passed r \<longrightarrow> decided r \<and> supermajority r) \<and> (applied r \<longrightarrow> passed r)"

definition gov_ok :: "governance_state \<Rightarrow> bool" where
  "gov_ok g \<longleftrightarrow> fmpred (\<lambda>_. record_ok) (proposals g)"

lemma decide_record_ok:
  assumes "record_ok r"
  shows "record_ok (decide_record ht r)"
proof -
  have s: "supermajority (r\<lparr>decided := d, passed := p, voted_outpoints := v\<rparr>) = supermajority r"
    "supermajority (r\<lparr>decided := d, passed := p\<rparr>) = supermajority r"
    "supermajority (r\<lparr>voted_outpoints := v\<rparr>) = supermajority r" for d p v
    by (simp_all add: supermajority_def)
  have t: "(case tally (rec_proposal r) (yes r) (no r) (abstain r) (quorum_supply r) ht of
      Passed _ _ _ \<Rightarrow> True | _ \<Rightarrow> False) \<Longrightarrow> supermajority r"
    using tally_Passed [of r ht] by (auto split: proposal_outcome.splits)
  show ?thesis
    using assms t by (auto simp: decide_record_def record_ok_def Let_def s)
qed

lemma activate_gov_ok:
  assumes "fmpred (\<lambda>_. record_ok) ps" "i \<in> fmdom' ps" "passed (the (fmlookup ps i))"
    "activate utxos ts (ps, p) (a, c, i) = (ps', p')"
  shows "fmpred (\<lambda>_. record_ok) ps'" "fmdom' ps' = fmdom' ps"
    "\<And>k. passed (the (fmlookup ps' k)) \<longleftrightarrow> passed (the (fmlookup ps k))"
proof -
  obtain r where r: "fmlookup ps i = Some r" using assms(2) by (auto simp: fmlookup_dom'_iff)
  then obtain f where ps': "ps' = fmupd i (r\<lparr>activation_failed := f, applied := True\<rparr>) ps"
    using assms(4) by (auto simp: activate_def Let_def split: result.splits)
  have "record_ok r" "passed r" using assms(1,3) r by auto
  then have "record_ok (r\<lparr>activation_failed := f, applied := True\<rparr>)"
    by (simp add: record_ok_def supermajority_def)
  then show "fmpred (\<lambda>_. record_ok) ps'" unfolding ps' using assms(1) by (rule fmpred_upd [rotated])
  show "fmdom' ps' = fmdom' ps" using assms(2) by (auto simp: ps')
  show "passed (the (fmlookup ps' k)) \<longleftrightarrow> passed (the (fmlookup ps k))" for k
    using r by (auto simp: ps')
qed

lemma activate_fold_gov_ok:
  "fmpred (\<lambda>_. record_ok) ps \<Longrightarrow>
     \<forall>(a, c, i)\<in>set xs. i \<in> fmdom' ps \<and> passed (the (fmlookup ps i)) \<Longrightarrow>
     foldl (activate utxos ts) (ps, p) xs = (ps', p') \<Longrightarrow> fmpred (\<lambda>_. record_ok) ps'"
proof (induction xs arbitrary: ps p)
  case (Cons x xs)
  obtain a c i where x: "x = (a, c, i)" by (cases x)
  obtain ps1 p1 where s: "activate utxos ts (ps, p) (a, c, i) = (ps1, p1)" by fastforce
  have i: "i \<in> fmdom' ps" "passed (the (fmlookup ps i))" using Cons.prems(2) x by auto
  note st = activate_gov_ok [OF Cons.prems(1) i s]
  show ?case
    using Cons.IH [OF st(1)] Cons.prems(2,3) x s st(2,3) by simp
qed simp

lemma pending_passed:
  "(a, c, i) \<in> set (pending_activations ht ps) \<Longrightarrow> i \<in> fmdom' ps \<and> passed (the (fmlookup ps i))"
  by (auto simp: pending_activations_def set_sorted_list_of_fmap fmlookup_dom'_iff split: if_splits)

lemma begin_block_gov_ok: "gov_ok g \<Longrightarrow> begin_block ht utxos ts (g, p) = (g', p') \<Longrightarrow> gov_ok g'"
proof -
  assume g: "gov_ok g" and b: "begin_block ht utxos ts (g, p) = (g', p')"
  define ps where "ps = fmmap (decide_record ht) (proposals g)"
  have ps: "fmpred (\<lambda>_. record_ok) ps"
    using g decide_record_ok by (auto simp: gov_ok_def ps_def fmpred_iff)
  obtain ps' q where f: "foldl (activate utxos ts) (ps, p) (pending_activations ht ps) = (ps', q)"
    by fastforce
  have "fmpred (\<lambda>_. record_ok) ps'"
    by (rule activate_fold_gov_ok [OF ps _ f]) (use pending_passed in fast)
  then show "gov_ok g'" using b f by (auto simp: begin_block_def Let_def ps_def gov_ok_def)
qed

lemma cast_vote_gov_ok:
  assumes "gov_ok g"
  shows "gov_ok (fst (cast_vote ht s u vn g))"
proof -
  let ?i = "vote_proposal_id (sv_vote s)"
  obtain org stake oh where vw: "voting_weight g (sv_outpoint s) u = (org, stake, oh)"
    by (cases "voting_weight g (sv_outpoint s) u")
  show ?thesis
  proof (cases "fmlookup (proposals g) ?i")
    case None
    then show ?thesis using assms by (simp add: cast_vote_def vw)
  next
    case (Some r)
    show ?thesis
    proof (cases "decided r")
      case True
      then show ?thesis using assms Some by (simp add: cast_vote_def vw)
    next
      case False
      define r1 where "r1 = r\<lparr>voted_outpoints := finsert org (voted_outpoints r)\<rparr>"
      have r: "record_ok r" using assms Some unfolding gov_ok_def by (rule fmpredD)
      have upd: "gov_ok (g\<lparr>proposals := fmupd ?i r' (proposals g)\<rparr>)"
        "gov_ok (g\<lparr>proposals := fmupd ?i r' (proposals g), locked_utxos := ls\<rparr>)"
        if "decided r' = decided r" "passed r' = passed r" "applied r' = applied r" for r' ls
      proof -
        have "record_ok r'" using r False that by (auto simp: record_ok_def)
        then show "gov_ok (g\<lparr>proposals := fmupd ?i r' (proposals g)\<rparr>)"
          "gov_ok (g\<lparr>proposals := fmupd ?i r' (proposals g), locked_utxos := ls\<rparr>)"
          using assms by (auto simp: gov_ok_def)
      qed
      have r1: "decided r1 = decided r" "passed r1 = passed r" "applied r1 = applied r"
        by (simp_all add: r1_def)
      have r2: "decided r2 = decided r \<and> passed r2 = passed r \<and> applied r2 = applied r"
        if "count_vote c stake r1 = Some r2" for c r2
        using that r1 by (auto simp: count_vote_def split: vote_choice.splits)
      show ?thesis
        using assms upd [OF r1] r2
        by (simp add: cast_vote_def vw Some r1_def [symmetric] Let_def upd split: option.splits)
    qed
  qed
qed

lemma new_record_ok:
  "record_ok \<lparr>rec_proposal = p, created_height = ht, yes = 0, no = 0, abstain = 0, decided = False,
     passed = False, applied = False, activation_failed = False, quorum_supply = q,
     voted_outpoints = {||}\<rparr>"
  by (simp add: record_ok_def)

lemma process_proposal_gov_ok:
  assumes "gov_ok g"
  shows "gov_ok (fst (process_proposal lib ht params staked burned d g))"
proof -
  have "gov_ok (g\<lparr>proposals := fmupd i r (proposals g)\<rparr>)" if "record_ok r" for i r
    using assms that by (auto simp: gov_ok_def)
  note upd = this [OF new_record_ok]
  show ?thesis
    using assms
    by (cases "decode_proposal d"; cases "validate_proposal (the (decode_proposal d)) ht burned params")
      (simp_all add: process_proposal_def Let_def upd)
qed

lemma process_vote_gov_ok:
  assumes "gov_ok g"
  shows "gov_ok (fst (process_vote lib ht ts utxos params genesis d g))"
  using assms
  by (simp add: process_vote_def cast_vote_gov_ok split: option.split result.split)

lemma process_output_gov_ok:
  assumes "gov_ok g"
  shows "gov_ok (fst (process_output lib ht ts utxos params staked genesis out g))"
  using assms
  by (simp add: process_output_def process_proposal_gov_ok process_vote_gov_ok split: option.split)

interpretation govok: step_relation "\<lambda>g g'. gov_ok g \<longrightarrow> gov_ok g'"
  by unfold_locales auto

lemma process_transaction_gov_ok:
  "gov_ok g \<Longrightarrow> process_transaction lib tx ht ts utxos params staked genesis g = (g', r) \<Longrightarrow> gov_ok g'"
proof -
  have "moves (\<lambda>g g'. gov_ok g \<longrightarrow> gov_ok g')
      (process_transaction lib tx ht ts utxos params staked genesis)"
    unfolding process_transaction_def
    by (rule govok.moves_each) (simp add: moves_def process_output_gov_ok)
  then show "gov_ok g \<Longrightarrow> process_transaction lib tx ht ts utxos params staked genesis g = (g', r) \<Longrightarrow> gov_ok g'"
    unfolding moves_def by (metis fst_conv)
qed

lemma transfer_stake_lock_proposals:
  "transfer_stake_lock lib tx u ht g = (g', r) \<Longrightarrow> proposals g' = proposals g"
  by (auto simp: transfer_stake_lock_def Let_def split: if_splits)

text \<open>
  The states a node can reach: the start of a block, each transaction (failed ones leave their
  partial effects) and the move of a lock with its stake, in any order and on any chain state.
\<close>

inductive gov_reach ::
  "('sig, 'pk, 'x) node_lib_scheme \<Rightarrow> governance_state \<Rightarrow> consensus_params \<Rightarrow> bool" for lib where
  start: "gov_reach lib new_governance default_params"
| block: "gov_reach lib g p \<Longrightarrow> begin_block ht utxos ts (g, p) = (g', p') \<Longrightarrow> gov_reach lib g' p'"
| tx: "gov_reach lib g p \<Longrightarrow>
    process_transaction lib t ht ts utxos p staked genesis g = (g', r) \<Longrightarrow> gov_reach lib g' p"
| transfer: "gov_reach lib g p \<Longrightarrow> transfer_stake_lock lib t u ht g = (g', r) \<Longrightarrow> gov_reach lib g' p"

lemma gov_reach_ok: "gov_reach lib g p \<Longrightarrow> gov_ok g \<and> params_ok p"
proof (induction rule: gov_reach.induct)
  case start
  show ?case by (simp add: gov_ok_def new_governance_def default_params_ok)
next
  case (block g p ht utxos ts g' p')
  then show ?case
    using begin_block_gov_ok [OF _ block(2)] begin_block_params_ok [OF _ block(2)] by simp
next
  case (tx g p t ht ts utxos staked genesis g' r)
  then show ?case using process_transaction_gov_ok [OF _ tx(2)] by simp
next
  case (transfer g p t u ht g' r)
  then show ?case using transfer_stake_lock_proposals [OF transfer(2)] by (simp add: gov_ok_def)
qed

text \<open>
  C36: In every reachable state, a proposal that was applied is decided, had a turnout of at least 33
  per cent of the stake recorded at its creation and at least 66 per cent of yes among the yes and
  no votes; and its tallies are final, as no vote is accepted on a decided proposal.
\<close>

theorem applied_had_supermajority:
  assumes "gov_reach lib g p" "fmlookup (proposals g) i = Some r" "applied r"
  shows "decided r \<and> supermajority r \<and> voted_outpoints r = {||} \<and>
    (vote_proposal_id (sv_vote s) = i \<longrightarrow>
      (\<exists>e. cast_vote ht s u vn g = (g, Err e)))"
proof -
  have r: "record_ok r" using gov_reach_ok [OF assms(1)] assms(2) unfolding gov_ok_def by blast
  then have d: "decided r" using assms(3) by (simp add: record_ok_def)
  obtain org stake oh where "voting_weight g (sv_outpoint s) u = (org, stake, oh)"
    by (cases "voting_weight g (sv_outpoint s) u")
  then have "\<exists>e. cast_vote ht s u vn g = (g, Err e)" if "vote_proposal_id (sv_vote s) = i"
    using that d assms(2) by (simp add: cast_vote_def)
  then show ?thesis using r d assms(3) by (simp add: record_ok_def)
qed

text \<open>
  C37: whatever governance activates, starting from the default parameters, every parameter stays
  within the range a proposal may set: the rate from 1 to 1000 basis points, the reward cap and both
  stake ages from a minute to a year with the minimum at most the maximum, the stake amount from one
  coin to the maximum supply and the block time from 30 to 600 seconds. The reward is then computed
  without a panic and is at most a tenth of the stake.
\<close>

theorem reachable_params_bounded:
  assumes "gov_reach lib g p"
  shows "params_ok p \<and> (\<exists>r. compute_pos_reward_with p stake age = Ok r \<and> unat r \<le> unat stake div 10)"
  using gov_reach_ok [OF assms] reward_le_tenth by blast

section \<open>A proposal that passes\<close>

text \<open>A concrete run: a proposal, one vote by the only staker, the decision and the activation.\<close>

definition sample_proposal :: proposal where
  "sample_proposal = \<lparr>param = PosAnnualRateBps, new_value = 700, activation_height = 5896,
     voting_end = 3880, deposit = 10000000000\<rparr>"

definition sample_id :: bytes where
  "sample_id = take 8 (encode_proposal sample_proposal)"

definition data_tx :: "u64 \<Rightarrow> bytes \<Rightarrow> transaction" where
  "data_tx v scr = sample_tx\<lparr>outputs := [\<lparr>out_value = v, script_pubkey = scr\<rparr>]\<rparr>"

definition staker_utxo :: utxo where
  "staker_utxo = \<lparr>u_txid = replicate 32 1, u_vout = 3, u_value = 1000000000,
     u_script = [0x76, 0xa9, 0x14] @ replicate 20 9 @ [0x88, 0xac], u_height = 10, u_timestamp = 1000\<rparr>"

definition staker_set :: "(out_point, utxo) fmap" where
  "staker_set = fmupd (replicate 32 1, 3) staker_utxo fmempty"

definition staker_vote :: signed_vote where
  "staker_vote = \<lparr>sv_vote = \<lparr>vote_proposal_id = sample_id, vote_choice_of = Yes\<rparr>,
     sv_outpoint = (replicate 32 1, 3), sv_signature = 1 # replicate 64 9\<rparr>"

definition sample_record :: "u64 \<Rightarrow> bool \<Rightarrow> bool \<Rightarrow> out_point fset \<Rightarrow> proposal_record" where
  "sample_record y d a vs = \<lparr>rec_proposal = sample_proposal, created_height = 1000, yes = y, no = 0,
     abstain = 0, decided = d, passed = d, applied = a, activation_failed = False,
     quorum_supply = 1000000000, voted_outpoints = vs\<rparr>"

lemma sample_record_sel:
  "passed (sample_record y d a vs) = d" "applied (sample_record y d a vs) = a"
  "rec_proposal (sample_record y d a vs) = sample_proposal"
  "created_height (sample_record y d a vs) = 1000"
  "sample_record y d a vs\<lparr>activation_failed := False, applied := True\<rparr> = sample_record y d True vs"
  by (simp_all add: sample_record_def)

lemma op_return_data_short:
  assumes "length d = n" "1 \<le> n" "n \<le> 75"
  shows "op_return_data ([0x6a, of_nat n] @ d) = Some d"
  using assms by (simp add: op_return_data_def unat_of_nat word_le_nat_alt)

lemma sample_run_propose:
  "process_transaction sample_lib (data_tx 10000000000 ([0x6a, of_nat 30] @ encode_proposal sample_proposal))
     1000 50000 staker_set default_params 1000000000 [] new_governance =
   (\<lparr>proposals = fmupd sample_id (sample_record 0 False False {||}) fmempty, locked_utxos = fmempty\<rparr>, Ok ())"
proof -
  have d: "op_return_data ([0x6a, of_nat 30] @ encode_proposal sample_proposal) =
      Some (encode_proposal sample_proposal)"
    by (rule op_return_data_short) (simp_all add: encode_proposal_def)
  have v: "validate_proposal sample_proposal 1000 10000000000 default_params = Ok ()"
    by (simp add: validate_proposal_def sample_proposal_def checked_sub_def checked_add_def
        MIN_VOTING_BLOCKS_def MAX_VOTING_BLOCKS_def MIN_ACTIVATION_DELAY_def MAX_ACTIVATION_DELAY_def
        DEFAULT_LOCK_GRACE_BLOCKS_def MIN_PROPOSAL_DEPOSIT_def COIN_def apply_param_def
        apply_candidate_def default_params_def MIN_STAKE_AGE_def MAX_STAKE_AGE_def)
  have i: "proposal_id_of sample_lib sample_proposal 1000 = sample_id"
    by (simp add: proposal_id_of_def sample_lib_def pad_to_def sample_id_def encode_proposal_def)
  have s: "starts_with (encode_proposal sample_proposal) PROPOSAL_PREFIX"
    by (simp add: encode_proposal_def)
  show ?thesis
    unfolding process_transaction_def data_tx_def
    by (simp add: process_output_def d [simplified] s process_proposal_def decode_encode_proposal v
        i Let_def new_governance_def sample_record_def)
qed

lemma staker_stakeable: "is_stakeable staker_utxo" "from_bytes (u_script staker_utxo) = Ok (u_script staker_utxo)"
  "classify_script (u_script staker_utxo) = P2PKH"
  by code_simp+

definition staker_name :: bytes where
  "staker_name = encode_address sample_lib (from_pubkey sample_lib (replicate 33 9) True 70)"

definition staker_lock :: vote_lock where
  "staker_lock = \<lparr>lock_txid = replicate 32 1, lock_vout = 3, unlock_height = 3886, voter = staker_name,
     lock_proposal_id = sample_id, voting_origin = (replicate 32 1, 3), voting_value = 1000000000,
     voting_origin_height = 10\<rparr>"

lemma length_sample_id: "length sample_id = 8"
  by (simp add: sample_id_def encode_proposal_def)

lemma staker_owner: "vote_owner sample_lib staker_vote staker_utxo [] = Ok staker_name"
proof -
  have h: "hash160 sample_lib (replicate 33 9) = replicate 20 9"
    by (simp add: hash160_def sample_lib_def pad_to_def)
  have sl: "slice 3 23 (u_script staker_utxo) = replicate 20 9"
    by (simp add: slice_def staker_utxo_def)
  have r: "recover_ecdsa sample_lib m (drop 1 (sv_signature staker_vote)) i = Some (replicate 33 9)" for m i
    by (simp add: sample_lib_def staker_vote_def)
  have g: "length (sv_signature staker_vote) = 65" "sv_signature staker_vote ! 0 = 1"
    by (simp_all add: staker_vote_def)
  have k: "serialize_pk sample_lib (replicate 33 9) = replicate 33 9" by (simp add: sample_lib_def)
  show ?thesis
    unfolding vote_owner_def
    by (simp add: g r [unfolded One_nat_def] staker_stakeable sl k h staker_name_def)
qed

lemma staker_mature: "mature_stake default_params 100000 staker_utxo"
  using staker_stakeable(1)
  by (simp add: mature_stake_def staker_utxo_def default_params_def MIN_STAKE_AMOUNT_def COIN_def
      MIN_STAKE_AGE_def)

lemma sample_run_vote:
  assumes "signed_vote_script staker_vote = Ok scr"
  shows "process_transaction sample_lib (data_tx 0 scr) 2000 100000 staker_set default_params 1000000000 []
     \<lparr>proposals = fmupd sample_id (sample_record 0 False False {||}) fmempty, locked_utxos = fmempty\<rparr> =
   (\<lparr>proposals = fmupd sample_id (sample_record 1000000000 False False {|(replicate 32 1, 3)|}) fmempty,
     locked_utxos = fmupd (replicate 32 1, 3) staker_lock fmempty\<rparr>, Ok ())"
proof -
  have wf: "vote_wf staker_vote" by (simp add: vote_wf_def staker_vote_def length_sample_id)
  have n: "length (encode_signed_vote staker_vote) = 115" using wf by (rule length_encode_signed_vote)
  then have "scr = [0x6a, 0x4c, of_nat 115] @ encode_signed_vote staker_vote"
    using assms by (simp add: signed_vote_script_def push_data_def MAX_PUSH_SIZE_def Let_def)
  moreover have "op_return_data ([0x6a, 0x4c, of_nat 115] @ encode_signed_vote staker_vote) =
      Some (encode_signed_vote staker_vote)"
    by (rule op_return_data_long) (simp_all add: n)
  ultimately have d: "op_return_data scr = Some (encode_signed_vote staker_vote)" by simp
  have p: "\<not> starts_with (encode_signed_vote staker_vote) PROPOSAL_PREFIX"
    "starts_with (encode_signed_vote staker_vote) SIGNED_VOTE_PREFIX"
    by (simp_all add: encode_signed_vote_def unsigned_bytes_def starts_with_def prefix_defs)
  have l: "fmlookup staker_set (sv_outpoint staker_vote) = Some staker_utxo"
    by (simp add: staker_set_def staker_vote_def)
  have c: "cast_vote 2000 staker_vote staker_utxo staker_name
     \<lparr>proposals = fmupd sample_id (sample_record 0 False False {||}) fmempty, locked_utxos = fmempty\<rparr> =
     (\<lparr>proposals = fmupd sample_id (sample_record 1000000000 False False {|(replicate 32 1, 3)|}) fmempty,
       locked_utxos = fmupd (replicate 32 1, 3) staker_lock fmempty\<rparr>, Ok ())"
    by (simp add: cast_vote_def voting_weight_def staker_vote_def sample_record_def sample_proposal_def
        count_vote_def checked_add_def DEFAULT_LOCK_GRACE_BLOCKS_def staker_utxo_def staker_lock_def Let_def)
  show ?thesis
    unfolding process_transaction_def data_tx_def
    by (simp add: process_output_def d p process_vote_def decode_encode_signed_vote [OF wf] l
        staker_mature staker_owner c)
qed

lemma sorted_list_of_fmap_single: "sorted_list_of_fmap (fmupd k v fmempty) = [(k, v)]"
  by (simp add: sorted_list_of_fmap_def sorted_list_of_fset.rep_eq)

lemma retain_single:
  "fmfilter (\<lambda>k. case fmlookup (fmupd op l fmempty) k of None \<Rightarrow> False | Some l \<Rightarrow> ht < unlock_height l)
     (fmupd op l fmempty) = (if ht < unlock_height l then fmupd op l fmempty else fmempty)"
  by (rule fmap_ext) auto

lemma sample_run_decide:
  "begin_block 3880 staker_set 150000
     (\<lparr>proposals = fmupd sample_id (sample_record 1000000000 False False {|(replicate 32 1, 3)|}) fmempty,
       locked_utxos = fmupd (replicate 32 1, 3) staker_lock fmempty\<rparr>, default_params) =
   (\<lparr>proposals = fmupd sample_id (sample_record 1000000000 True False {||}) fmempty,
     locked_utxos = fmupd (replicate 32 1, 3) staker_lock fmempty\<rparr>, default_params)"
proof -
  have "decide_record 3880 (sample_record 1000000000 False False {|(replicate 32 1, 3)|}) =
      sample_record 1000000000 True False {||}"
    by (simp add: decide_record_def sample_record_def sample_proposal_def tally_def
        DEFAULT_QUORUM_PCT_def DEFAULT_THRESHOLD_PCT_def)
  then show ?thesis
    by (simp add: begin_block_def pending_activations_def sorted_list_of_fmap_single sample_record_sel
        sample_proposal_def fmmap_fmupd retain_single Let_def del: fmupd_lookup cong del: fmfilter_cong)
      (simp add: staker_lock_def)
qed

lemma sample_run_activate:
  "begin_block 5896 staker_set 200000
     (\<lparr>proposals = fmupd sample_id (sample_record 1000000000 True False {||}) fmempty,
       locked_utxos = fmupd (replicate 32 1, 3) staker_lock fmempty\<rparr>, default_params) =
   (\<lparr>proposals = fmupd sample_id (sample_record 1000000000 True True {||}) fmempty,
     locked_utxos = fmempty\<rparr>, default_params\<lparr>pos_annual_rate_bps := 700\<rparr>)"
proof -
  let ?p = "default_params\<lparr>pos_annual_rate_bps := 700\<rparr>"
  have d: "decide_record 5896 (sample_record 1000000000 True False {||}) =
      sample_record 1000000000 True False {||}"
    by (simp add: decide_record_def sample_record_def sample_proposal_def)
  have "is_stakeable_with ?p staker_utxo"
    using staker_stakeable(1) by (simp add: is_stakeable_def is_stakeable_with_def)
  then have c: "candidate_has_stake ?p staker_set 200000"
    by (simp add: candidate_has_stake_def staker_set_def fm_values_def sorted_list_of_fmap_single
        checked_sub_def staker_utxo_def default_params_def MIN_STAKE_AGE_def MAX_STAKE_AGE_def)
  have a: "apply_param PosAnnualRateBps default_params 700 = Ok ?p"
    by (simp add: apply_param_def apply_candidate_def default_params_def MIN_STAKE_AGE_def
        MAX_STAKE_AGE_def)
  show ?thesis
    by (simp add: begin_block_def d fmmap_fmupd pending_activations_def sorted_list_of_fmap_single
        sample_record_sel sample_proposal_def activate_def a c Let_def staker_lock_def)
qed

lemma sample_run:
  "gov_reach sample_lib
     \<lparr>proposals = fmupd sample_id (sample_record 1000000000 True True {||}) fmempty,
      locked_utxos = fmempty\<rparr> (default_params\<lparr>pos_annual_rate_bps := 700\<rparr>)"
proof -
  have wf: "vote_wf staker_vote" by (simp add: vote_wf_def staker_vote_def length_sample_id)
  then obtain scr where scr: "signed_vote_script staker_vote = Ok scr"
    using length_encode_signed_vote [OF wf]
    by (simp add: signed_vote_script_def push_data_def MAX_PUSH_SIZE_def Let_def)
  show ?thesis
    by (rule gov_reach.block [OF gov_reach.block [OF gov_reach.tx [OF gov_reach.tx
        [OF gov_reach.start sample_run_propose] sample_run_vote [OF scr]] sample_run_decide]
        sample_run_activate])
qed

theorem applied_had_supermajority_witness:
  "supermajority (sample_record 1000000000 True True {||})"
  using applied_had_supermajority [OF sample_run, of sample_id "sample_record 1000000000 True True {||}"]
  by (simp add: sample_record_def)

theorem reachable_params_bounded_witness:
  "params_ok (default_params\<lparr>pos_annual_rate_bps := 700\<rparr>) \<and>
     (\<exists>r. compute_pos_reward_with (default_params\<lparr>pos_annual_rate_bps := 700\<rparr>) 1000 500 = Ok r \<and> unat r \<le> 100)"
  using reachable_params_bounded [OF sample_run, of 1000 500] by simp

end
