(* ===== verification/Ledger.thy ===== *)
theory Ledger
  imports Governance Deployments
begin

text \<open>
  The state of the node and the application of transactions and blocks to it:
  \<open>vtorrent-node/src/chain.rs\<close> and \<open>vtorrent-node/src/chain/chain_reorg.rs\<close>. Hash maps and B-tree
  maps are finite maps. The reused commitment buffers of the source hold no state between calls and
  are left out. The overrides compiled for tests are fields, \<open>None\<close> in a release build. A step on
  the chain and its journal keeps both also when it returns an error.
\<close>

unbundle bit_operations_syntax

section \<open>State\<close>

datatype utxo_change = Utxo_Added out_point | Utxo_Removed out_point utxo

record block_journal =
  j_block_hash :: bytes
  j_height :: u32
  changes :: "utxo_change list"
  j_claimed :: "bytes list"
  supply_delta :: u64
  staked_delta :: int
  j_utxo_root :: bytes
  previous_governance :: "governance_undo option"
  previous_params :: consensus_params
  previous_supply :: u64
  previous_staked :: u64

record body_source =
  block_body :: "bytes \<Rightarrow> block option"
  block_body_at_height :: "u32 \<Rightarrow> block option"

record chain =
  blocks :: "(bytes, block) fmap"
  headers :: "(bytes, block_header) fmap"
  block_body_cache :: nat
  source :: "body_source option"
  height_index :: "bytes list"
  tx_index :: "(bytes, bytes \<times> nat) fmap"
  utxo_set :: "(out_point, utxo) fmap"
  claimed_addresses :: "bytes fset"
  journals :: "block_journal list"
  max_reorg_depth :: u32
  cumulative_work :: "(bytes, u64) fmap"
  parent_map :: "(bytes, bytes) fmap"
  block_heights :: "(bytes, u32) fmap"
  total_supply :: u64
  total_staked :: u64
  allow_pow_test_blocks :: bool
  chain_params :: consensus_params
  governance :: governance_state
  governance_test_activation :: "u32 option"
  governance_test_deployment :: "(deployment \<times> u32) option"

type_synonym ledger = "chain \<times> block_journal"

definition best_height :: "chain \<Rightarrow> u32" where
  "best_height c = of_nat (length (height_index c) - 1)"

definition best_hash :: "chain \<Rightarrow> bytes option" where
  "best_hash c = (if height_index c = [] then None else Some (last (height_index c)))"

definition nth_opt :: "'a list \<Rightarrow> nat \<Rightarrow> 'a option" where
  "nth_opt xs i = (if i < length xs then Some (xs ! i) else None)"

definition block_hash_at_height :: "chain \<Rightarrow> u32 \<Rightarrow> bytes option" where
  "block_hash_at_height c ht = nth_opt (height_index c) (unat ht)"

definition get_block_at_height :: "chain \<Rightarrow> u32 \<Rightarrow> block option" where
  "get_block_at_height c ht = Option.bind (nth_opt (height_index c) (unat ht)) (fmlookup (blocks c))"

definition get_header_at_height :: "chain \<Rightarrow> u32 \<Rightarrow> block_header option" where
  "get_header_at_height c ht = Option.bind (nth_opt (height_index c) (unat ht)) (fmlookup (headers c))"

definition chain_block_height :: "chain \<Rightarrow> bytes \<Rightarrow> u32 option" where
  "chain_block_height c h = fmlookup (block_heights c) h"

section \<open>Governance activation\<close>

definition DEFAULT_PERIOD :: u32 where "DEFAULT_PERIOD = 2016"
definition DEPLOYMENT_THRESHOLD_PCT :: u32 where "DEPLOYMENT_THRESHOLD_PCT = 90"

definition count_signal :: "chain \<Rightarrow> byte \<Rightarrow> u32 \<Rightarrow> u32 list \<Rightarrow> nat \<Rightarrow> u32 list" where
  "count_signal c vbit period counts h =
     (case get_header_at_height c (of_nat h) of
        None \<Rightarrow> counts
      | Some bh \<Rightarrow>
          if drop_bit (unat vbit mod 32) (header_version bh) AND 1 = 1
          then counts[h div unat period := counts ! (h div unat period) + 1] else counts)"

definition count_signals :: "chain \<Rightarrow> byte \<Rightarrow> u32 \<Rightarrow> u32 list" where
  "count_signals c vbit period =
     (if period = 0 then []
      else let tip = unat (best_height c); periods = tip div unat period + 1 in
        foldl (count_signal c vbit period) (replicate periods 0) [0..<tip + 1])"

definition governance_deployment_config :: "chain \<Rightarrow> deployment option \<times> u32" where
  "governance_deployment_config c =
     (case governance_test_deployment c of
        Some (d, period) \<Rightarrow> (Some d, period)
      | None \<Rightarrow> (governance_deployment, DEFAULT_PERIOD))"

definition governance_active :: "chain \<Rightarrow> u32 \<Rightarrow> bool" where
  "governance_active c ht =
     (case governance_test_activation c of
        Some activation \<Rightarrow> ht \<ge> activation
      | None \<Rightarrow> (case governance_deployment_config c of
          (None, _) \<Rightarrow> False
        | (Some d, period) \<Rightarrow>
            deployment_state d period DEPLOYMENT_THRESHOLD_PCT ht
              (count_signals c (dep_bit d) period) = Active))"

section \<open>Cold-staking spends\<close>

definition push_items :: "bytes \<Rightarrow> bytes list" where
  "push_items s = List.map_filter (\<lambda>it. case it of PushData d \<Rightarrow> Some d | _ \<Rightarrow> None) (script_items s)"

definition is_p2cs :: "bytes \<Rightarrow> bool" where
  "is_p2cs s = (case classify_script s of P2CS _ _ _ \<Rightarrow> True | _ \<Rightarrow> False)"

definition p2cs_redeem_script :: "bytes \<Rightarrow> bytes \<Rightarrow> bytes option" where
  "p2cs_redeem_script utxo_script sig_script =
     (case from_bytes utxo_script of
        Err _ \<Rightarrow> None
      | Ok scr \<Rightarrow> (case classify_script scr of
          P2CS _ _ _ \<Rightarrow> Some utxo_script
        | P2SH \<Rightarrow> (case from_bytes sig_script of
            Err _ \<Rightarrow> None
          | Ok sig \<Rightarrow>
              if push_items sig = [] then None
              else let redeem = last (push_items sig) in
                (case from_bytes redeem of
                   Err _ \<Rightarrow> None
                 | Ok r \<Rightarrow> if is_p2cs r then Some redeem else None))
        | _ \<Rightarrow> None))"

text \<open>The signature check on the stack items that a cold spend must show.\<close>

definition cold_signature_ok ::
  "('sig, 'pk, 'x) node_lib_scheme \<Rightarrow> transaction \<Rightarrow> nat \<Rightarrow> utxo \<Rightarrow> bytes \<Rightarrow> bytes list \<Rightarrow> bool" where
  "cold_signature_ok lib tx input_index u spending_hash pushes =
     (if length pushes < 3 then False
      else let sig = pushes ! (length pushes - 3); pubkey = pushes ! (length pushes - 2) in
        if hash160 lib pubkey \<noteq> spending_hash then False
        else if sig = [] then False
        else if last sig \<noteq> 0x01 then False
        else case sig_from_der lib (butlast sig) of
          None \<Rightarrow> False
        | Some sg \<Rightarrow> (case pk_from_slice lib pubkey of
            None \<Rightarrow> False
          | Some pk \<Rightarrow> verify_ecdsa lib (sighash lib tx input_index (u_script u)) sg pk))"

definition p2cs_cold_spend_authorized ::
  "('sig, 'pk, 'x) node_lib_scheme \<Rightarrow> transaction \<Rightarrow> nat \<Rightarrow> utxo \<Rightarrow> bool" where
  "p2cs_cold_spend_authorized lib tx input_index u =
     (let sig_bytes = script_sig (inputs tx ! input_index) in
      case p2cs_redeem_script (u_script u) sig_bytes of
        None \<Rightarrow> False
      | Some p2cs_script \<Rightarrow> (case from_bytes p2cs_script of
          Err _ \<Rightarrow> False
        | Ok scr \<Rightarrow> (case classify_script scr of
            P2CS _ spending_hash locktime \<Rightarrow>
              if lock_time tx < locktime then False
              else (case from_bytes sig_bytes of
                  Err _ \<Rightarrow> False
                | Ok sig_scr \<Rightarrow>
                    (let pushes = push_items sig_scr;
                         is_sh = (case from_bytes (u_script u) of
                             Ok s \<Rightarrow> classify_script s = P2SH | Err _ \<Rightarrow> False)
                     in cold_signature_ok lib tx input_index u spending_hash
                          (if is_sh then butlast pushes else pushes)))
          | _ \<Rightarrow> False)))"

section \<open>Journals\<close>

definition new_journal :: "chain \<Rightarrow> bytes \<Rightarrow> u32 \<Rightarrow> block_journal" where
  "new_journal c hash ht =
     \<lparr>j_block_hash = hash, j_height = ht, changes = [], j_claimed = [], supply_delta = 0,
      staked_delta = 0, j_utxo_root = zero_hash, previous_governance = None,
      previous_params = chain_params c, previous_supply = total_supply c,
      previous_staked = total_staked c\<rparr>"

definition undo_change :: "(out_point, utxo) fmap \<Rightarrow> utxo_change \<Rightarrow> (out_point, utxo) fmap" where
  "undo_change us ch = (case ch of Utxo_Added k \<Rightarrow> fmdrop k us | Utxo_Removed k u \<Rightarrow> fmupd k u us)"

definition rollback_changes :: "utxo_change list \<Rightarrow> bytes list \<Rightarrow> chain \<Rightarrow> chain" where
  "rollback_changes chs claims c =
     c\<lparr>utxo_set := foldl undo_change (utxo_set c) (rev chs),
       claimed_addresses := foldl (\<lambda>s a. s |-| {|a|}) (claimed_addresses c) (rev claims)\<rparr>"

definition restore_governance :: "governance_undo option \<Rightarrow> (chain, unit, node_error) st" where
  "restore_governance u c =
     (case u of
        None \<Rightarrow> (c, Ok ())
      | Some undo \<Rightarrow> (case restore_undo undo (governance c) of
          None \<Rightarrow> (c, Err (Panic ''journaled proposal must exist''))
        | Some g \<Rightarrow> (c\<lparr>governance := g\<rparr>, Ok ())))"

definition rollback_journal :: "block_journal \<Rightarrow> (chain, unit, node_error) st" where
  "rollback_journal j = st_then
     (st_update (\<lambda>c. c\<lparr>chain_params := previous_params j, total_supply := previous_supply j,
        total_staked := previous_staked j\<rparr>))
     (st_then (restore_governance (previous_governance j))
        (st_update (rollback_changes (changes j) (j_claimed j))))"

definition recompute_utxo_root :: "('sig, 'pk, 'x) crypto_scheme \<Rightarrow> chain \<Rightarrow> bytes" where
  "recompute_utxo_root cr c =
     compute_merkle_root_from_txids cr (map (hash_utxo cr) (fm_values (utxo_set c)))"

text \<open>The sum over the stakeable outputs; \<open>sum\<close> panics on overflow with overflow checks.\<close>

definition stakeable_sum :: "consensus_params \<Rightarrow> (out_point, utxo) fmap \<Rightarrow> u64 nresult" where
  "stakeable_sum params us =
     (let n = sum_list (map (\<lambda>u. unat (u_value u)) (filter (is_stakeable_with params) (fm_values us)))
      in if n < 2 ^ 64 then Ok (of_nat n) else Err (Panic ''attempt to add with overflow''))"

definition begin_governance_block ::
  "u32 \<Rightarrow> u32 \<Rightarrow> bool \<Rightarrow> block_journal \<Rightarrow> (chain, unit, node_error) st" where
  "begin_governance_block ht ts gov_active j c =
     (if gov_active then
        (let (g, p) = begin_block ht (utxo_set c) ts (governance c, chain_params c);
             c1 = c\<lparr>governance := g, chain_params := p\<rparr>
         in if min_stake_amount p \<noteq> min_stake_amount (previous_params j)
            then (case stakeable_sum p (utxo_set c1) of
                Ok n \<Rightarrow> (c1\<lparr>total_staked := n\<rparr>, Ok ()) | Err e \<Rightarrow> (c1, Err e))
            else (c1, Ok ()))
      else (c, Ok ()))"

definition compute_supply_delta :: "transaction \<Rightarrow> u64 \<Rightarrow> u64 \<Rightarrow> u64" where
  "compute_supply_delta tx total_in total_out =
     (if is_legacy_claim tx \<and> claim_address tx \<noteq> None then 0 else sat_sub total_out total_in)"

section \<open>Inputs\<close>

definition input_env ::
  "('sig, 'pk, 'x) node_lib_scheme \<Rightarrow> transaction \<Rightarrow> nat \<Rightarrow> utxo \<Rightarrow> u32 \<Rightarrow> u32 \<Rightarrow> script_env" where
  "input_env lib tx input_index u ht ts =
     \<lparr>tx_hash = sighash lib tx input_index (u_script u), block_height = ht, block_time = ts,
      tx_lock_time = lock_time tx, input_sequence = sequence (inputs tx ! input_index),
      utxo_height = u_height u, utxo_timestamp = u_timestamp u\<rparr>"

definition verify_script ::
  "('sig, 'pk, 'x) node_lib_scheme \<Rightarrow> transaction \<Rightarrow> nat \<Rightarrow> utxo \<Rightarrow> u32 \<Rightarrow> u32 \<Rightarrow> unit nresult" where
  "verify_script lib tx input_index u ht ts =
     (case from_bytes (script_sig (inputs tx ! input_index)) of
        Err _ \<Rightarrow> Err (InvalidTransaction ''Invalid scriptSig'')
      | Ok sig \<Rightarrow> (case from_bytes (u_script u) of
          Err _ \<Rightarrow> Err (InvalidTransaction ''Invalid scriptPubKey'')
        | Ok spk \<Rightarrow> (case execute lib (new_engine (input_env lib tx input_index u ht ts)) sig spk of
            Err _ \<Rightarrow> Err (InvalidTransaction ''Script verification failed for input'')
          | Ok _ \<Rightarrow> Ok ())))"

definition verify_input ::
  "('sig, 'pk, 'x) node_lib_scheme \<Rightarrow> transaction \<Rightarrow> nat \<Rightarrow> utxo \<Rightarrow> u32 \<Rightarrow> u32 \<Rightarrow> unit nresult" where
  "verify_input lib tx input_index u ht ts =
     (if is_legacy_claim tx then Ok ()
      else res_bind (verify_script lib tx input_index u ht ts) (\<lambda>_.
        if \<not> is_coinstake tx
           \<and> p2cs_redeem_script (u_script u) (script_sig (inputs tx ! input_index)) \<noteq> None
           \<and> \<not> p2cs_cold_spend_authorized lib tx input_index u
        then Err (InvalidTransaction ''P2CS spend must be authorized by the cold spending key'')
        else Ok ()))"

text \<open>One round of the input loop: the chain, the journal, the running input total, the stake.\<close>

definition spend_input ::
  "('sig, 'pk, 'x) node_lib_scheme \<Rightarrow> transaction \<Rightarrow> u32 \<Rightarrow> u32 \<Rightarrow> bool \<Rightarrow> nat \<times> tx_input \<Rightarrow>
     (ledger \<times> u64 \<times> utxo option, unit, node_error) st" where
  "spend_input lib tx ht ts gov_active = (\<lambda>(input_index, inp) ((c, j), total_in, stake_in).
     let key = (prev_txid inp, prev_vout inp) in
     if gov_active \<and> is_utxo_locked (governance c) (prev_txid inp) (prev_vout inp) ht \<and> \<not> is_coinstake tx
     then (((c, j), total_in, stake_in), Err (InvalidTransaction ''input is locked by a governance vote''))
     else case fmlookup (utxo_set c) key of
       None \<Rightarrow> (((c, j), total_in, stake_in),
         if is_legacy_claim tx then Ok () else Err (InvalidTransaction ''Input not found in UTXO set''))
     | Some u \<Rightarrow>
         (let c1 = c\<lparr>utxo_set := fmdrop key (utxo_set c)\<rparr>;
              j1 = j\<lparr>changes := changes j @ [Utxo_Removed key u]\<rparr>;
              total1 = sat_add total_in (u_value u) in
          case verify_input lib tx input_index u ht ts of
            Err e \<Rightarrow> (((c1, j1), total1, stake_in), Err e)
          | Ok _ \<Rightarrow>
              (let stake1 = (if is_coinstake tx \<and> input_index = 0 then Some u else stake_in) in
               if is_stakeable_with (chain_params c1) u
               then (case checked_i64 (staked_delta j1 - sint (u_value u)) of
                   None \<Rightarrow> (((c1, j1), total1, stake1),
                     Err (InvalidTransaction ''Staked-supply delta underflow''))
                 | Some d \<Rightarrow> (((c1, j1\<lparr>staked_delta := d\<rparr>), total1, stake1), Ok ()))
               else (((c1, j1), total1, stake1), Ok ()))))"

definition spend_inputs ::
  "('sig, 'pk, 'x) node_lib_scheme \<Rightarrow> transaction \<Rightarrow> u32 \<Rightarrow> u32 \<Rightarrow> bool \<Rightarrow>
     (ledger \<times> u64 \<times> utxo option, unit, node_error) st" where
  "spend_inputs lib tx ht ts gov_active =
     (if is_coinbase tx then st_lift (\<lambda>_. Ok ())
      else st_each (spend_input lib tx ht ts gov_active) (List.enumerate 0 (inputs tx)))"

section \<open>Claims and outputs\<close>

definition output_utxo :: "bytes \<Rightarrow> u32 \<Rightarrow> u32 \<Rightarrow> nat \<times> tx_output \<Rightarrow> utxo" where
  "output_utxo tid ht ts = (\<lambda>(vout, out). \<lparr>u_txid = tid, u_vout = of_nat vout, u_value = out_value out,
     u_script = script_pubkey out, u_height = ht, u_timestamp = ts\<rparr>)"

definition record_claim ::
  "('sig, 'pk, 'x) node_lib_scheme \<Rightarrow> (bytes \<Rightarrow> u64) \<Rightarrow> transaction \<Rightarrow> u32 \<Rightarrow> (ledger, unit, node_error) st" where
  "record_claim lib legacy_balance tx ht = (\<lambda>(c, j).
     if ht = 0 \<and> claim_address tx = None then
       ((c, j), if claim_signature tx \<noteq> None
          then Err (InvalidTransaction ''Genesis distribution must not carry a claim signature'') else Ok ())
     else case claim_address tx of
       None \<Rightarrow> ((c, j), Err (InvalidTransaction ''Legacy claim is missing its address''))
     | Some addr \<Rightarrow>
         if addr |\<in>| claimed_addresses c then ((c, j), Err (ClaimAlreadyProcessed addr))
         else (case validate_legacy_claim lib tx (legacy_balance addr) of
             Err _ \<Rightarrow> ((c, j), Err (InvalidTransaction ''Invalid legacy claim''))
           | Ok _ \<Rightarrow> ((c\<lparr>claimed_addresses := finsert addr (claimed_addresses c)\<rparr>,
               j\<lparr>j_claimed := j_claimed j @ [addr]\<rparr>), Ok ())))"

definition apply_claim ::
  "('sig, 'pk, 'x) node_lib_scheme \<Rightarrow> (bytes \<Rightarrow> u64) \<Rightarrow> transaction \<Rightarrow> u32 \<Rightarrow> u32 \<Rightarrow>
     (ledger, unit, node_error) st" where
  "apply_claim lib legacy_balance tx ht ts =
     (if is_legacy_claim tx then
        st_then (record_claim lib legacy_balance tx ht)
          (st_require (\<lambda>_. ht = 1 \<longrightarrow>
             list_ex (\<lambda>x. is_stakeable (output_utxo (txid lib tx) ht ts x)) (List.enumerate 0 (outputs tx)))
           (InvalidTransaction ''Bootstrap claim must create a stakeable (P2PKH >= MIN_STAKE_AMOUNT) output''))
      else st_lift (\<lambda>_. Ok ()))"

definition add_output ::
  "transaction \<Rightarrow> bytes \<Rightarrow> u32 \<Rightarrow> u32 \<Rightarrow> nat \<times> tx_output \<Rightarrow> (ledger, unit, node_error) st" where
  "add_output tx tid ht ts = (\<lambda>(vout, out) (c, j).
     if \<not> is_utxo_eligible out tx ht then ((c, j), Ok ())
     else let key = (tid, of_nat vout); u = output_utxo tid ht ts (vout, out) in
       case (if is_stakeable_with (chain_params c) u
             then checked_i64 (staked_delta j + sint (out_value out)) else Some (staked_delta j)) of
         None \<Rightarrow> ((c, j), Err (InvalidTransaction ''Staked-supply delta overflow''))
       | Some d \<Rightarrow> ((c\<lparr>utxo_set := fmupd key u (utxo_set c)\<rparr>,
           j\<lparr>staked_delta := d, changes := changes j @ [Utxo_Added key]\<rparr>), Ok ()))"

definition add_outputs ::
  "('sig, 'pk, 'x) node_lib_scheme \<Rightarrow> transaction \<Rightarrow> u32 \<Rightarrow> u32 \<Rightarrow> (ledger, unit, node_error) st" where
  "add_outputs lib tx ht ts = st_each (add_output tx (txid lib tx) ht ts) (List.enumerate 0 (outputs tx))"

section \<open>Transactions\<close>

definition is_bootstrap_utxo :: "chain \<Rightarrow> u32 \<Rightarrow> utxo \<Rightarrow> bool" where
  "is_bootstrap_utxo c ht staked \<longleftrightarrow> ht = 2 \<and> u_height staked = 1 \<and>
     (case get_block_at_height c 1 of
        None \<Rightarrow> False
      | Some b \<Rightarrow> (case transactions b of [] \<Rightarrow> False | tx # _ \<Rightarrow> is_legacy_claim tx))"

text \<open>The re-lock rule of a coinstake that spends a cold-staking output.\<close>

definition check_relock :: "transaction \<Rightarrow> utxo \<Rightarrow> unit nresult" where
  "check_relock tx staked =
     (case p2cs_redeem_script (u_script staked) (script_sig (inputs tx ! 0)) of
        None \<Rightarrow> Ok ()
      | Some p2cs_script \<Rightarrow>
          if p2cs_redirected_value_with_redeem (u_script staked) p2cs_script (outputs tx) > 0
          then Err (InvalidTransaction ''P2CS coinstake must re-lock all value to the same cold-stake script'')
          else if foldl sat_add 0 (map out_value (filter (\<lambda>out. out_value out > 0 \<and>
              script_pubkey out = u_script staked) (outputs tx))) < u_value staked
          then Err (InvalidTransaction ''P2CS coinstake re-locks less than the staked value'')
          else Ok ())"

definition check_coinstake ::
  "('sig, 'pk, 'x) node_lib_scheme \<Rightarrow> transaction \<Rightarrow> u32 \<Rightarrow> u32 \<Rightarrow> u64 \<Rightarrow> utxo option \<Rightarrow> chain \<Rightarrow>
     unit nresult" where
  "check_coinstake lib tx ht ts parent_modifier stake_in c =
     (case stake_in of
        None \<Rightarrow> Err (InvalidTransaction ''Coinstake must spend a stake input'')
      | Some staked \<Rightarrow>
          if \<not> is_stakeable_with (chain_params c) staked
          then Err (InvalidTransaction ''Coinstake input is not a stakeable output'')
          else if u_value staked < min_stake_amount (chain_params c)
          then Err (InvalidTransaction ''Stake value is below minimum'')
          else let coin_age = (ucast (sat_sub ts (u_timestamp staked)) :: u64);
                   min_age_ok = (is_bootstrap_utxo c ht staked \<or>
                     coin_age \<ge> min_stake_age (chain_params c)) in
            if \<not> min_age_ok \<or> coin_age > max_stake_age (chain_params c)
            then Err (InvalidTransaction ''Stake age is outside the allowed range'')
            else if \<not> check_stake_kernel_v2 lib parent_modifier staked ts (total_staked c)
            then Err (InvalidTransaction ''Coinstake kernel hash does not meet the stake target'')
            else res_bind (compute_pos_reward_with (chain_params c) (u_value staked) coin_age) (\<lambda>max_reward.
              if sat_sub (total_output tx) (u_value staked) > max_reward
              then Err (InvalidTransaction ''Coinstake mints above the allowed reward'')
              else check_relock tx staked))"

definition is_transfer :: "transaction \<Rightarrow> bool" where
  "is_transfer tx \<longleftrightarrow> \<not> is_coinbase tx \<and> \<not> is_coinstake tx \<and> \<not> is_legacy_claim tx"

definition move_stake_lock ::
  "('sig, 'pk, 'x) node_lib_scheme \<Rightarrow> transaction \<Rightarrow> u32 \<Rightarrow> bool \<Rightarrow> utxo option \<Rightarrow>
     (ledger, unit, node_error) st" where
  "move_stake_lock lib tx ht gov_active stake_in = (\<lambda>(c, j).
     case (gov_active, stake_in) of
       (True, Some staked) \<Rightarrow>
         (let (g, r) = transfer_stake_lock lib tx staked ht (governance c)
          in ((c\<lparr>governance := g\<rparr>, j), r))
     | _ \<Rightarrow> ((c, j), Ok ()))"

definition add_supply :: "transaction \<Rightarrow> u64 \<Rightarrow> (ledger, unit, node_error) st" where
  "add_supply tx total_in = st_update (\<lambda>(c, j). (c, j\<lparr>supply_delta :=
     sat_add (supply_delta j) (compute_supply_delta tx total_in (total_output tx))\<rparr>))"

text \<open>What follows the input loop, given the input total and the stake it found.\<close>

definition finish_transaction ::
  "('sig, 'pk, 'x) node_lib_scheme \<Rightarrow> (bytes \<Rightarrow> u64) \<Rightarrow> transaction \<Rightarrow> u32 \<Rightarrow> u32 \<Rightarrow> u64 \<Rightarrow> bool \<Rightarrow>
     u64 \<Rightarrow> utxo option \<Rightarrow> (ledger, unit, node_error) st" where
  "finish_transaction lib legacy_balance tx ht ts parent_modifier gov_active total_in stake_in =
     st_then (apply_claim lib legacy_balance tx ht ts)
     (st_then (add_outputs lib tx ht ts)
     (st_then (st_require (\<lambda>_. is_transfer tx \<longrightarrow> total_output tx \<le> total_in)
        (InvalidTransaction ''Transaction creates value''))
     (st_then (st_lift (\<lambda>(c, j). if is_coinstake tx
        then check_coinstake lib tx ht ts parent_modifier stake_in c else Ok ()))
     (st_then (move_stake_lock lib tx ht gov_active stake_in)
        (add_supply tx total_in)))))"

definition apply_transaction_journaled ::
  "('sig, 'pk, 'x) node_lib_scheme \<Rightarrow> (bytes \<Rightarrow> u64) \<Rightarrow> transaction \<Rightarrow> u32 \<Rightarrow> u32 \<Rightarrow> u64 \<Rightarrow> bool \<Rightarrow>
     (ledger, unit, node_error) st" where
  "apply_transaction_journaled lib legacy_balance tx ht ts parent_modifier gov_active s =
     (case spend_inputs lib tx ht ts gov_active (s, 0, None) of
        ((s1, total_in, stake_in), Err e) \<Rightarrow> (s1, Err e)
      | ((s1, total_in, stake_in), Ok _) \<Rightarrow>
          finish_transaction lib legacy_balance tx ht ts parent_modifier gov_active total_in stake_in s1)"

definition process_governance ::
  "('sig, 'pk, 'x) node_lib_scheme \<Rightarrow> transaction \<Rightarrow> u32 \<Rightarrow> u32 \<Rightarrow> bool \<Rightarrow> (ledger, unit, node_error) st" where
  "process_governance lib tx ht ts gov_active = (\<lambda>(c, j).
     if gov_active then
       (case height_index c of
          [] \<Rightarrow> ((c, j), Err (Panic ''index out of bounds''))
        | genesis # _ \<Rightarrow>
            (let (g, r) = process_transaction lib tx ht ts (utxo_set c) (chain_params c)
               (total_staked c) genesis (governance c)
             in ((c\<lparr>governance := g\<rparr>, j), r)))
     else ((c, j), Ok ()))"

definition apply_transaction ::
  "('sig, 'pk, 'x) node_lib_scheme \<Rightarrow> (bytes \<Rightarrow> u64) \<Rightarrow> transaction \<Rightarrow> u32 \<Rightarrow> u32 \<Rightarrow> u64 \<Rightarrow> bool \<Rightarrow>
     (ledger, unit, node_error) st" where
  "apply_transaction lib legacy_balance tx ht ts parent_modifier gov_active =
     st_then (process_governance lib tx ht ts gov_active)
       (apply_transaction_journaled lib legacy_balance tx ht ts parent_modifier gov_active)"

section \<open>Blocks\<close>

definition on_chain :: "(chain, unit, node_error) st \<Rightarrow> (ledger, unit, node_error) st" where
  "on_chain m = (\<lambda>(c, j). let (c', r) = m c in ((c', j), r))"

definition add_staked :: "u64 \<Rightarrow> int \<Rightarrow> u64" where
  "add_staked staked d = (if d \<ge> 0 then sat_add staked (of_int d) else sat_sub staked (of_int (- d)))"

definition commit_block :: "('sig, 'pk, 'x) crypto_scheme \<Rightarrow> (ledger, unit, node_error) st" where
  "commit_block cr = (\<lambda>(c, j).
     let new_supply = sat_add (total_supply c) (supply_delta j) in
     if new_supply > MAX_SUPPLY
     then ((c, j), Err (InvalidBlock ''Block would exceed maximum supply''))
     else let c1 = c\<lparr>total_supply := new_supply, total_staked := add_staked (total_staked c) (staked_delta j)\<rparr>
       in ((c1, j\<lparr>j_utxo_root := recompute_utxo_root cr c1\<rparr>), Ok ()))"

definition apply_block_body ::
  "('sig, 'pk, 'x) node_lib_scheme \<Rightarrow> (bytes \<Rightarrow> u64) \<Rightarrow> block \<Rightarrow> u32 \<Rightarrow> u64 \<Rightarrow> bool \<Rightarrow>
     (ledger, unit, node_error) st" where
  "apply_block_body lib legacy_balance b ht parent_modifier gov_active = (\<lambda>(c, j).
     st_then (on_chain (begin_governance_block ht (timestamp (header b)) gov_active j))
     (st_then (st_each (\<lambda>tx. apply_transaction lib legacy_balance tx ht (timestamp (header b))
         parent_modifier gov_active) (transactions b))
       (commit_block lib)) (c, j))"

definition parent_stake_modifier :: "chain \<Rightarrow> block \<Rightarrow> u32 \<Rightarrow> u64 nresult" where
  "parent_stake_modifier c b ht =
     (if ht = 0 then Ok 0
      else ok_or (map_option stake_modifier (fmlookup (headers c) (prev_block_hash (header b))))
        (ChainError ''Parent block not found for stake modifier''))"

text \<open>A panic unwinds past the rollback; every other error is followed by it.\<close>

definition rollback_unless_panic :: "node_error \<Rightarrow> block_journal \<Rightarrow> chain \<Rightarrow> chain \<times> block_journal nresult" where
  "rollback_unless_panic e j c =
     (case e of
        Panic _ \<Rightarrow> (c, Err e)
      | _ \<Rightarrow> (case rollback_journal j c of (c', Ok _) \<Rightarrow> (c', Err e) | (c', Err p) \<Rightarrow> (c', Err p)))"

definition apply_block_journaled ::
  "('sig, 'pk, 'x) node_lib_scheme \<Rightarrow> (bytes \<Rightarrow> u64) \<Rightarrow> block \<Rightarrow> u32 \<Rightarrow>
     (chain, block_journal, node_error) st" where
  "apply_block_journaled lib legacy_balance b ht c =
     (let gov_active = governance_active c ht; j = new_journal c (block_hash lib b) ht in
      case parent_stake_modifier c b ht of
        Err e \<Rightarrow> (c, Err e)
      | Ok parent_modifier \<Rightarrow>
          (let ((c1, j1), r) = apply_block_body lib legacy_balance b ht parent_modifier gov_active (c, j);
               j2 = j1\<lparr>previous_governance :=
                 if gov_active then Some (undo_since (governance c1) (governance c)) else None\<rparr>
           in case r of Ok _ \<Rightarrow> (c1, Ok j2) | Err e \<Rightarrow> rollback_unless_panic e j2 c1))"

end
