(* ===== verification/LedgerSamples.thy ===== *)
theory LedgerSamples
  imports Ledger
begin

text \<open>
  A small chain and two blocks for it, on which the hypotheses of the ledger theorems are shown to
  hold. The chain has one unspent output; the first block mints and spends it, the second fails
  after it has minted.
\<close>

definition key_script :: bytes where
  "key_script = [0x76, 0xa9, 0x14, 7, 0, 0, 0, 0, 0, 0, 0, 0, 0, 0, 0, 0, 0, 0, 0, 0, 0, 0, 0, 0x88, 0xac]"

definition coin_key :: out_point where
  "coin_key = (replicate 32 9, 0)"

definition coin_utxo :: utxo where
  "coin_utxo = \<lparr>u_txid = replicate 32 9, u_vout = 0, u_value = 5000000000, u_script = key_script,
     u_height = 3, u_timestamp = 1000\<rparr>"

definition parent_hash :: bytes where
  "parent_hash = replicate 32 3"

definition parent_header :: block_header where
  "parent_header = \<lparr>header_version = 1, prev_block_hash = zero_hash, merkle_root = zero_hash,
     utxo_root = zero_hash, timestamp = 4000, bits = 0x1e0fffff, nonce = 1, stake_modifier = 17\<rparr>"

definition small_chain :: chain where
  "small_chain = \<lparr>blocks = fmempty, headers = fmupd parent_hash parent_header fmempty,
     block_body_cache = 1000, source = None,
     height_index = [replicate 32 1, replicate 32 2, replicate 32 4, replicate 32 5, parent_hash],
     tx_index = fmempty, utxo_set = fmupd coin_key coin_utxo fmempty, claimed_addresses = {||},
     journals = [], max_reorg_depth = 100, cumulative_work = fmempty, parent_map = fmempty,
     block_heights = fmempty, total_supply = 9000000000, total_staked = 5000000000,
     allow_pow_test_blocks = True, chain_params = default_params, governance = new_governance,
     governance_test_activation = None, governance_test_deployment = None\<rparr>"

definition mint_tx :: transaction where
  "mint_tx = \<lparr>tx_version = 1, tx_kind = Coinbase,
     inputs = [\<lparr>prev_txid = zero_hash, prev_vout = 0xffffffff, script_sig = [5], sequence = 0xffffffff\<rparr>],
     outputs = [\<lparr>out_value = 700000000, script_pubkey = key_script\<rparr>], lock_time = 5,
     claim_address = None, claim_signature = None\<rparr>"

text \<open>The unlocking script pushes a signature, equal to the key, with its hash type, then the key.\<close>

definition spend_tx :: "bytes \<Rightarrow> transaction" where
  "spend_tx tid = \<lparr>tx_version = 1, tx_kind = tx_type.Standard,
     inputs = [\<lparr>prev_txid = tid, prev_vout = 0, script_sig = [2, 7, 1, 1, 7], sequence = 0\<rparr>],
     outputs = [\<lparr>out_value = 4999990000, script_pubkey = key_script\<rparr>], lock_time = 0,
     claim_address = None, claim_signature = None\<rparr>"

definition block_of :: "transaction list \<Rightarrow> block" where
  "block_of txs = \<lparr>header = parent_header\<lparr>prev_block_hash := parent_hash, timestamp := 5000\<rparr>,
     transactions = txs\<rparr>"

definition good_block :: block where
  "good_block = block_of [mint_tx, spend_tx (replicate 32 9)]"

definition bad_block :: block where
  "bad_block = block_of [mint_tx, spend_tx (replicate 32 8)]"

section \<open>Running them\<close>

lemma small_governance: "governance_active small_chain ht = False"
  by (simp add: governance_active_def small_chain_def governance_deployment_config_def
      governance_deployment_def)

lemma small_modifier: "parent_stake_modifier small_chain (block_of txs) 5 = Ok 17"
  by (simp add: parent_stake_modifier_def small_chain_def block_of_def parent_header_def ok_or_def)

lemma sample_txid: "txid sample_lib tx = pad_to 32 (tx_enc tx)"
  by (simp add: txid_def sha256d_def sample_lib_def pad_to_def)

lemma key_script_ok: "from_bytes key_script = Ok key_script" "classify_script key_script = P2PKH"
  by code_simp+

lemma build_key_script: "build_p2pkh (7 # replicate 19 0) = Ok key_script"
  by code_simp

definition spend_env :: "bytes \<Rightarrow> script_env" where
  "spend_env h = \<lparr>tx_hash = h, block_height = 5, block_time = 5000, tx_lock_time = 0,
     input_sequence = 0, utxo_height = 3, utxo_timestamp = 1000\<rparr>"

lemma spend_unlock:
  "unlock sample_lib (spend_env h) [2, 7, 1, 1, 7] =
     Ok \<lparr>stack = [[7], [7, 1]], alt_stack = [], env = spend_env h\<rparr>"
proof -
  have b: "builds [2, 7, 1, 1, 7] [PushData [7, 1], PushData [7]]"
    unfolding builds_def by (rule conjI) code_simp+
  show ?thesis
    unfolding unlock_def
    by (simp add: run_builds [OF b] exec_simps MAX_SCRIPT_EXEC_STEPS_def MAX_STACK_DEPTH_def)
qed

lemma spend_keyhash: "keyhash_unlocks sample_lib (spend_env h) (7 # replicate 19 0) [[7], [7, 1]]"
proof -
  have "hash160 sample_lib [7] = 7 # replicate 19 0" by code_simp
  moreover have "check_sig sample_lib (spend_env h) [7, 1] [7] = Ok ()"
    by (simp add: check_sig_def sample_lib_def)
  ultimately show ?thesis by simp
qed

lemma spend_executes: "execute sample_lib (new_engine (spend_env h)) [2, 7, 1, 1, 7] key_script = Ok ()"
  using spend_keyhash [of h] by (simp add: p2pkh_unlocks [OF build_key_script] spend_unlock)

lemma spend_verifies: "verify_input sample_lib (spend_tx tid) 0 coin_utxo 5 5000 = Ok ()"
proof -
  have e: "input_env sample_lib (spend_tx tid) 0 coin_utxo 5 5000 =
      spend_env (sighash sample_lib (spend_tx tid) 0 key_script)"
    by (simp add: input_env_def spend_env_def spend_tx_def coin_utxo_def)
  have "verify_script sample_lib (spend_tx tid) 0 coin_utxo 5 5000 = Ok ()"
  proof -
    have "from_bytes [2, 7, 1, 1, 7] = Ok [2, 7, 1, 1, 7]" by code_simp
    then show ?thesis unfolding verify_script_def e
      using spend_executes by (simp add: spend_tx_def coin_utxo_def key_script_ok)
  qed
  then show ?thesis
    by (simp add: verify_input_def p2cs_redeem_script_def coin_utxo_def key_script_ok)
qed

lemma key_output:
  "is_utxo_eligible \<lparr>out_value = v, script_pubkey = key_script\<rparr> tx ht"
  "is_stakeable_with default_params \<lparr>u_txid = i, u_vout = n, u_value = v, u_script = key_script,
     u_height = ht, u_timestamp = ts\<rparr> \<longleftrightarrow> 100000000 \<le> v"
  by (auto simp: is_utxo_eligible_def is_stakeable_with_def key_script_ok default_params_def
      MIN_STAKE_AMOUNT_def COIN_def)

lemmas run_defs = apply_transaction_def process_governance_def apply_transaction_journaled_def
  spend_inputs_def finish_transaction_def apply_claim_def add_outputs_def add_output_def
  output_utxo_def is_transfer_def move_stake_lock_def add_supply_def total_output_def
  compute_supply_delta_def checked_i64_def st_then_def st_bind_def st_lift_def st_update_def
  st_require_def sat_add_def sat_sub_def Let_def

lemma mint_kind: "is_coinbase mint_tx" "\<not> is_coinstake mint_tx" "\<not> is_legacy_claim mint_tx"
  "outputs mint_tx = [\<lparr>out_value = 700000000, script_pubkey = key_script\<rparr>]"
  by (simp_all add: is_coinbase_def is_coinstake_def is_legacy_claim_def mint_tx_def)

lemma spend_kind: "\<not> is_coinbase (spend_tx i)" "\<not> is_coinstake (spend_tx i)"
  "\<not> is_legacy_claim (spend_tx i)"
  "outputs (spend_tx i) = [\<lparr>out_value = 4999990000, script_pubkey = key_script\<rparr>]"
  "inputs (spend_tx i) = [\<lparr>prev_txid = i, prev_vout = 0, script_sig = [2, 7, 1, 1, 7], sequence = 0\<rparr>]"
  by (simp_all add: is_coinbase_def is_coinstake_def is_legacy_claim_def spend_tx_def)

definition minted :: "bytes \<Rightarrow> ledger" where
  "minted h = (small_chain\<lparr>utxo_set := fmupd (txid sample_lib mint_tx, 0)
      (output_utxo (txid sample_lib mint_tx) 5 5000 (0, \<lparr>out_value = 700000000, script_pubkey = key_script\<rparr>))
      (utxo_set small_chain)\<rparr>,
    (new_journal small_chain h 5)\<lparr>supply_delta := 700000000, staked_delta := 700000000,
      changes := [Utxo_Added (txid sample_lib mint_tx, 0)]\<rparr>)"

lemma mint_runs:
  "apply_transaction sample_lib bal mint_tx 5 5000 17 False (small_chain, new_journal small_chain h 5) =
     (minted h, Ok ())"
proof -
  have p: "chain_params small_chain = default_params" by (simp add: small_chain_def)
  show ?thesis using mint_kind by (simp add: run_defs key_output p new_journal_def minted_def)
qed

lemma mint_id: "txid sample_lib mint_tx \<noteq> replicate 32 n" "txid sample_lib mint_tx \<noteq> txid sample_lib (spend_tx i)"
    "txid sample_lib (spend_tx i) \<noteq> replicate 32 9"
proof -
  have le: "le_bytes 4 (Suc 0) = [1, 0, 0, 0]" "le_bytes 4 0 = [0, 0, 0, 0]" by code_simp+
  have m: "take 8 (txid sample_lib mint_tx) = [1, 0, 0, 0, 1, 0, 0, 0]"
    by (simp add: sample_txid pad_to_def tx_enc_def mint_tx_def tx_type_u32_def u32_le_def le)
  have s: "take 8 (txid sample_lib (spend_tx i)) = [1, 0, 0, 0, 0, 0, 0, 0]"
    by (simp add: sample_txid pad_to_def tx_enc_def spend_tx_def tx_type_u32_def u32_le_def le)
  have r: "take 8 (replicate 32 n) = replicate 8 n" for n :: byte by simp
  show "txid sample_lib mint_tx \<noteq> replicate 32 n"
  proof
    assume "txid sample_lib mint_tx = replicate 32 n"
    then have "replicate 8 n = [1, 0, 0, 0, 1, 0, 0, 0]" using m r by metis
    then show False by (auto simp: numeral_eq_Suc)
  qed
  show "txid sample_lib mint_tx \<noteq> txid sample_lib (spend_tx i)" using m s by auto
  show "txid sample_lib (spend_tx i) \<noteq> replicate 32 9"
  proof
    assume "txid sample_lib (spend_tx i) = replicate 32 9"
    then have "hd (replicate 32 9) = hd [1, 0, 0, 0, 0, 0, 0, 0 :: byte]"
      using s by (metis hd_take zero_less_numeral)
    then show False by simp
  qed
qed

lemma spend_runs:
  "\<exists>t. apply_transaction sample_lib bal (spend_tx (replicate 32 9)) 5 5000 17 False (minted h) = (t, Ok ()) \<and>
     supply_delta (snd t) = 700000000 \<and> total_supply (fst t) = 9000000000"
proof -
  obtain c j where m: "minted h = (c, j)" by (cases "minted h")
  then have l: "fmlookup (utxo_set c) (replicate 32 9, 0) = Some coin_utxo"
    and c: "chain_params c = default_params" "total_supply c = 9000000000"
    and j: "staked_delta j = 700000000" "supply_delta j = 700000000"
    using mint_id(1) [of 9] by (auto simp: minted_def small_chain_def coin_key_def new_journal_def)
  have s: "is_stakeable_with default_params coin_utxo" "u_value coin_utxo = 5000000000"
    by (simp_all add: coin_utxo_def key_output)
  show ?thesis
    unfolding m by (simp add: run_defs spend_input_def key_output spend_kind c j l s spend_verifies)
qed

lemma good_runs: "\<exists>c' j. apply_block_journaled sample_lib bal good_block 5 small_chain = (c', Ok j)"
proof -
  let ?h = "block_hash sample_lib good_block"
  obtain t where t: "apply_transaction sample_lib bal (spend_tx (replicate 32 9)) 5 5000 17 False (minted ?h) =
      (t, Ok ())" "supply_delta (snd t) = 700000000" "total_supply (fst t) = 9000000000"
    using spend_runs by blast
  have "\<exists>u. apply_block_body sample_lib bal good_block 5 17 False (small_chain, new_journal small_chain ?h 5) =
      (u, Ok ())"
    using t by (cases t) (simp add: apply_block_body_def good_block_def block_of_def st_then_def st_bind_def on_chain_def
      begin_governance_block_def mint_runs commit_block_def sat_add_def MAX_SUPPLY_def COIN_def Let_def)
  moreover have "parent_stake_modifier small_chain good_block 5 = Ok 17"
    unfolding good_block_def by (rule small_modifier)
  ultimately show ?thesis by (auto simp: apply_block_journaled_def small_governance)
qed

lemma bad_runs:
  "\<exists>c'. apply_block_journaled sample_lib bal bad_block 5 small_chain =
     (c', Err (InvalidTransaction ''Input not found in UTXO set''))"
proof -
  let ?h = "block_hash sample_lib bad_block" and ?e = "InvalidTransaction ''Input not found in UTXO set''"
  obtain c j where m: "minted ?h = (c, j)" by (cases "minted ?h")
  have "fmlookup (utxo_set c) (replicate 32 8, 0) = None"
    using m mint_id(1) [of 8] by (auto simp: minted_def small_chain_def coin_key_def)
  then have "apply_transaction sample_lib bal (spend_tx (replicate 32 8)) 5 5000 17 False (minted ?h) =
      ((c, j), Err ?e)"
    by (simp add: m run_defs spend_input_def spend_kind)
  then have "apply_block_body sample_lib bal bad_block 5 17 False (small_chain, new_journal small_chain ?h 5) =
      ((c, j), Err ?e)"
    by (simp add: apply_block_body_def bad_block_def block_of_def st_then_def st_bind_def on_chain_def
      begin_governance_block_def mint_runs)
  moreover have "parent_stake_modifier small_chain bad_block 5 = Ok 17"
    unfolding bad_block_def by (rule small_modifier)
  ultimately show ?thesis
    by (auto simp: apply_block_journaled_def small_governance rollback_unless_panic_def
        rollback_journal_def restore_governance_def st_then_def st_bind_def st_update_def)
qed

end
