(* ===== verification/LedgerProps.thy ===== *)
theory LedgerProps
  imports LedgerSamples GovernanceProps
begin

text \<open>
  Rolling back: every step of a block, failed or not, only appends to the journal what undoing the
  appended entries takes back. So a rejected block leaves no trace and an applied block can be
  undone exactly, provided its transactions create fresh outpoints.
\<close>

section \<open>Undoing the appended entries\<close>

definition undo_claims :: "bytes fset \<Rightarrow> bytes list \<Rightarrow> bytes fset" where
  "undo_claims s claims = foldl (\<lambda>s a. s |-| {|a|}) s claims"

lemma rollback_changes_eq:
  "rollback_changes chs claims c = c\<lparr>utxo_set := foldl undo_change (utxo_set c) (rev chs),
     claimed_addresses := undo_claims (claimed_addresses c) (rev claims)\<rparr>"
  by (simp add: rollback_changes_def undo_claims_def)

text \<open>The parts of the chain that applying a transaction leaves alone.\<close>

definition same_frame :: "chain \<Rightarrow> chain \<Rightarrow> bool" where
  "same_frame c c' \<longleftrightarrow> c'\<lparr>utxo_set := utxo_set c, claimed_addresses := claimed_addresses c,
     governance := governance c\<rparr> = c"

definition same_journal_head :: "block_journal \<Rightarrow> block_journal \<Rightarrow> bool" where
  "same_journal_head j j' \<longleftrightarrow> j_block_hash j' = j_block_hash j \<and> j_height j' = j_height j \<and>
     previous_params j' = previous_params j \<and> previous_supply j' = previous_supply j \<and>
     previous_staked j' = previous_staked j \<and> previous_governance j' = previous_governance j"

definition undoable :: "bytes set \<Rightarrow> ledger \<Rightarrow> ledger \<Rightarrow> bool" where
  "undoable T = (\<lambda>(c, j) (c', j'). \<exists>chs claims.
     changes j' = changes j @ chs \<and> j_claimed j' = j_claimed j @ claims \<and>
     foldl undo_change (utxo_set c') (rev chs) = utxo_set c \<and>
     undo_claims (claimed_addresses c') (rev claims) = claimed_addresses c \<and>
     same_frame c c' \<and> same_journal_head j j' \<and>
     fmdom' (utxo_set c') \<subseteq> fmdom' (utxo_set c) \<union> T \<times> UNIV)"

lemma same_frame_refl [simp]: "same_frame c c"
  by (simp add: same_frame_def)

lemma same_frame_iff:
  "same_frame c c' \<longleftrightarrow> (\<exists>us cl g. c' = c\<lparr>utxo_set := us, claimed_addresses := cl, governance := g\<rparr>)"
proof
  assume "same_frame c c'"
  then have "c' = c\<lparr>utxo_set := utxo_set c', claimed_addresses := claimed_addresses c',
      governance := governance c'\<rparr>"
    unfolding same_frame_def by (cases c; cases c') simp
  then show "\<exists>us cl g. c' = c\<lparr>utxo_set := us, claimed_addresses := cl, governance := g\<rparr>" by blast
qed (auto simp: same_frame_def)

lemma same_frame_trans: "same_frame c d \<Longrightarrow> same_frame d e \<Longrightarrow> same_frame c e"
  unfolding same_frame_iff
proof (elim exE)
  fix us cl g us' cl' g'
  assume "d = c\<lparr>utxo_set := us, claimed_addresses := cl, governance := g\<rparr>"
    "e = d\<lparr>utxo_set := us', claimed_addresses := cl', governance := g'\<rparr>"
  then have "e = c\<lparr>utxo_set := us', claimed_addresses := cl', governance := g'\<rparr>" by simp
  then show "\<exists>us cl g. e = c\<lparr>utxo_set := us, claimed_addresses := cl, governance := g\<rparr>" by blast
qed

lemma undoable_refl: "undoable T s s"
  by (cases s) (auto simp: undoable_def undo_claims_def same_journal_head_def intro: exI [of _ "[]"])

lemma undoable_trans:
  assumes "undoable T s t" "undoable T t u"
  shows "undoable T s u"
proof -
  obtain c j c' j' c'' j'' where s: "s = (c, j)" "t = (c', j')" "u = (c'', j'')"
    by (metis surj_pair)
  from assms(1) obtain a b where 1: "changes j' = changes j @ a" "j_claimed j' = j_claimed j @ b"
    "foldl undo_change (utxo_set c') (rev a) = utxo_set c"
    "undo_claims (claimed_addresses c') (rev b) = claimed_addresses c" "same_frame c c'"
    "same_journal_head j j'" "fmdom' (utxo_set c') \<subseteq> fmdom' (utxo_set c) \<union> T \<times> UNIV"
    unfolding undoable_def s by auto
  from assms(2) obtain a' b' where 2: "changes j'' = changes j' @ a'" "j_claimed j'' = j_claimed j' @ b'"
    "foldl undo_change (utxo_set c'') (rev a') = utxo_set c'"
    "undo_claims (claimed_addresses c'') (rev b') = claimed_addresses c'" "same_frame c' c''"
    "same_journal_head j' j''" "fmdom' (utxo_set c'') \<subseteq> fmdom' (utxo_set c') \<union> T \<times> UNIV"
    unfolding undoable_def s by auto
  show ?thesis
    unfolding undoable_def s prod.case
  proof (intro exI conjI)
    show "changes j'' = changes j @ (a @ a')" "j_claimed j'' = j_claimed j @ (b @ b')"
      using 1(1,2) 2(1,2) by simp_all
    show "foldl undo_change (utxo_set c'') (rev (a @ a')) = utxo_set c"
      using 1(3) 2(3) by simp
    show "undo_claims (claimed_addresses c'') (rev (b @ b')) = claimed_addresses c"
      using 1(4) 2(4) by (simp add: undo_claims_def)
    show "same_frame c c''" using 1(5) 2(5) by (rule same_frame_trans)
    show "same_journal_head j j''" using 1(6) 2(6) by (simp add: same_journal_head_def)
    show "fmdom' (utxo_set c'') \<subseteq> fmdom' (utxo_set c) \<union> T \<times> UNIV" using 1(7) 2(7) by blast
  qed
qed

interpretation undo: step_relation "undoable T" for T
  by unfold_locales (rule undoable_refl, erule (1) undoable_trans)

text \<open>The same relation on the state of the input loop.\<close>

definition undoable_in :: "bytes set \<Rightarrow> ledger \<times> u64 \<times> utxo option \<Rightarrow> ledger \<times> u64 \<times> utxo option \<Rightarrow> bool" where
  "undoable_in T s t \<longleftrightarrow> undoable T (fst s) (fst t)"

interpretation undo_in: step_relation "undoable_in T" for T
  by unfold_locales (auto simp: undoable_in_def undoable_refl intro: undoable_trans)

section \<open>The steps are undoable\<close>

lemma undoable_remove:
  assumes "fmlookup (utxo_set c) k = Some u"
  shows "undoable T (c, j) (c\<lparr>utxo_set := fmdrop k (utxo_set c)\<rparr>,
    j\<lparr>changes := changes j @ [Utxo_Removed k u]\<rparr>)"
    "undoable T (c, j) (c\<lparr>utxo_set := fmdrop k (utxo_set c)\<rparr>,
    j\<lparr>changes := changes j @ [Utxo_Removed k u], staked_delta := d\<rparr>)"
proof -
  have "fmupd k u (fmdrop k (utxo_set c)) = utxo_set c" by (rule fmap_ext) (use assms in auto)
  then show "undoable T (c, j) (c\<lparr>utxo_set := fmdrop k (utxo_set c)\<rparr>,
      j\<lparr>changes := changes j @ [Utxo_Removed k u]\<rparr>)"
    "undoable T (c, j) (c\<lparr>utxo_set := fmdrop k (utxo_set c)\<rparr>,
      j\<lparr>changes := changes j @ [Utxo_Removed k u], staked_delta := d\<rparr>)"
    by (auto simp: undoable_def undo_change_def undo_claims_def same_frame_def same_journal_head_def)
qed

lemma spend_input_undoable: "moves (undoable_in T) (spend_input lib tx ht ts gov x)"
  unfolding moves_def
proof
  fix s :: "ledger \<times> u64 \<times> utxo option"
  obtain idx inp where x: "x = (idx, inp)" by (cases x)
  obtain c j ti si where s: "s = ((c, j), ti, si)" by (metis surj_pair)
  let ?k = "(prev_txid inp, prev_vout inp)"
  show "undoable_in T s (fst (spend_input lib tx ht ts gov x s))"
  proof (cases "fmlookup (utxo_set c) ?k")
    case None
    then show ?thesis by (simp add: spend_input_def x s Let_def undoable_in_def undoable_refl)
  next
    case (Some u)
    note rem = undoable_remove [OF Some]
    show ?thesis
      using rem undoable_refl [of T "(c, j)"]
      by (simp add: spend_input_def x s Let_def undoable_in_def Some split: result.split option.split)
  qed
qed

lemma spend_inputs_undoable: "moves (undoable_in T) (spend_inputs lib tx ht ts gov)"
  unfolding spend_inputs_def
  by (auto intro: undo_in.moves_lift undo_in.moves_each spend_input_undoable)

lemma undoable_claim:
  "addr |\<notin>| claimed_addresses c \<Longrightarrow> undoable T (c, j)
     (c\<lparr>claimed_addresses := finsert addr (claimed_addresses c)\<rparr>, j\<lparr>j_claimed := j_claimed j @ [addr]\<rparr>)"
  by (auto simp: undoable_def undo_claims_def same_frame_def same_journal_head_def)

lemma record_claim_undoable: "moves (undoable T) (record_claim lib bal tx ht)"
  unfolding moves_def record_claim_def
  by (auto simp: undoable_refl undoable_claim split: option.split result.split)

lemma apply_claim_undoable: "moves (undoable T) (apply_claim lib bal tx ht ts)"
  unfolding apply_claim_def
  by (auto intro: undo.moves_then undo.moves_lift undo.moves_require record_claim_undoable)

lemma undoable_add:
  assumes "fmlookup (utxo_set c) (tid, v) = None" "tid \<in> T"
  shows "undoable T (c, j) (c\<lparr>utxo_set := fmupd (tid, v) u (utxo_set c)\<rparr>,
    j\<lparr>staked_delta := d, changes := changes j @ [Utxo_Added (tid, v)]\<rparr>)"
proof -
  have "fmdrop (tid, v) (fmupd (tid, v) u (utxo_set c)) = utxo_set c"
    by (rule fmap_ext) (auto simp: assms(1))
  then show ?thesis using assms(2)
    by (auto simp: undoable_def undo_change_def undo_claims_def same_frame_def same_journal_head_def)
qed

lemma of_nat_u32_eq: "m < 2 ^ 32 \<Longrightarrow> n < 2 ^ 32 \<Longrightarrow> (of_nat m :: u32) = of_nat n \<longleftrightarrow> m = n"
  by (simp add: word_unat_eq_iff unat_of_nat)

lemma add_outputs_undoable:
  assumes "k + length outs \<le> 2 ^ 32" "tid \<in> T"
    and "\<And>i. k \<le> i \<Longrightarrow> i < k + length outs \<Longrightarrow> fmlookup (utxo_set c) (tid, of_nat i) = None"
  shows "undoable T (c, j) (fst (st_each (add_output tx tid ht ts) (List.enumerate k outs) (c, j)))"
  using assms
proof (induction outs arbitrary: k c j)
  case Nil
  then show ?case by (simp add: undoable_refl)
next
  case (Cons out outs)
  have fr: "fmlookup (utxo_set c) (tid, of_nat k) = None" using Cons.prems(3) [of k] by simp
  note add = undoable_add [OF fr Cons.prems(2)]
  obtain c1 j1 r where st: "add_output tx tid ht ts (k, out) (c, j) = ((c1, j1), r)"
    by (metis surj_pair)
  then have u: "undoable T (c, j) (c1, j1)"
    using add [of j] add [of j _ "staked_delta j"] undoable_refl [of T "(c, j)"]
    by (auto simp: add_output_def Let_def split: if_splits option.splits)
  show ?case
  proof (cases r)
    case (Err e)
    then show ?thesis using u st by simp
  next
    case (Ok x)
    have "fmlookup (utxo_set c1) (tid, of_nat i) = None" if "Suc k \<le> i" "i < Suc k + length outs" for i
    proof -
      have "(of_nat k :: u32) \<noteq> of_nat i" using that Cons.prems(1) by (subst of_nat_u32_eq) auto
      moreover have "fmlookup (utxo_set c) (tid, of_nat i) = None" using Cons.prems(3) [of i] that by simp
      ultimately show ?thesis using st
        by (auto simp: add_output_def Let_def split: if_splits option.splits)
    qed
    then have "undoable T (c1, j1) (fst (st_each (add_output tx tid ht ts) (List.enumerate (Suc k) outs) (c1, j1)))"
      using Cons.prems by (intro Cons.IH) auto
    then show ?thesis using u st Ok by (auto intro: undoable_trans)
  qed
qed

text \<open>A transaction whose outpoints are new to the set of unspent outputs.\<close>

definition fresh_tx :: "('sig, 'pk, 'x) node_lib_scheme \<Rightarrow> transaction \<Rightarrow> chain \<Rightarrow> bool" where
  "fresh_tx lib tx c \<longleftrightarrow> length (outputs tx) \<le> 2 ^ 32 \<and>
     (\<forall>v. fmlookup (utxo_set c) (txid lib tx, v) = None)"

lemma undoable_dom: "undoable T (c, j) (c', j') \<Longrightarrow> fmdom' (utxo_set c') \<subseteq> fmdom' (utxo_set c) \<union> T \<times> UNIV"
  by (auto simp: undoable_def)

lemma undoable_mono: "undoable T s t \<Longrightarrow> T \<subseteq> T' \<Longrightarrow> undoable T' s t"
  unfolding undoable_def by (cases s; cases t; simp) blast

lemma fresh_tx_undoable:
  assumes "fresh_tx lib tx c" "undoable T (c, j) (c', j')" "txid lib tx \<notin> T"
  shows "fresh_tx lib tx c'"
  unfolding fresh_tx_def
proof (intro conjI allI)
  show "length (outputs tx) \<le> 2 ^ 32" using assms(1) by (simp add: fresh_tx_def)
  fix v
  have "(txid lib tx, v) \<notin> fmdom' (utxo_set c)" using assms(1) by (simp add: fresh_tx_def fmdom'_notI)
  then have "(txid lib tx, v) \<notin> fmdom' (utxo_set c')" using undoable_dom [OF assms(2)] assms(3) by blast
  then show "fmlookup (utxo_set c') (txid lib tx, v) = None" by (rule fmdom'_notD)
qed

lemma apply_claim_utxo:
  "apply_claim lib bal tx ht ts (c, j) = ((c', j'), r) \<Longrightarrow> utxo_set c' = utxo_set c"
  by (auto simp: apply_claim_def record_claim_def st_then_def st_bind_def st_lift_def st_require_def
      split: if_splits option.splits result.splits)

lemma move_stake_lock_undoable: "moves (undoable T) (move_stake_lock lib tx ht gov si)"
  unfolding moves_def move_stake_lock_def
  by (auto simp: undoable_def undo_claims_def same_frame_def same_journal_head_def Let_def
      split: bool.split option.split prod.split)

lemma process_governance_undoable: "moves (undoable T) (process_governance lib tx ht ts gov)"
  unfolding moves_def process_governance_def
  by (auto simp: undoable_def undo_claims_def same_frame_def same_journal_head_def Let_def
      split: list.split prod.split)

lemma add_supply_undoable: "moves (undoable T) (add_supply tx ti)"
  unfolding add_supply_def
  by (rule undo.moves_update)
    (auto simp: undoable_def undo_claims_def same_frame_def same_journal_head_def)

lemma finish_transaction_undoable:
  assumes "fresh_tx lib tx c"
  shows "undoable {txid lib tx} (c, j) (fst (finish_transaction lib bal tx ht ts pm gov ti si (c, j)))"
  unfolding finish_transaction_def
proof (rule undo.then_from)
  show "undoable {txid lib tx} (c, j) (fst (apply_claim lib bal tx ht ts (c, j)))"
    using apply_claim_undoable unfolding moves_def by blast
next
  fix t x
  assume a: "apply_claim lib bal tx ht ts (c, j) = (t, Ok x)"
  obtain c1 j1 where t: "t = (c1, j1)" by (cases t)
  have us: "utxo_set c1 = utxo_set c" using a t apply_claim_utxo by blast
  show "undoable {txid lib tx} t (fst (st_then (add_outputs lib tx ht ts)
     (st_then (st_require (\<lambda>_. is_transfer tx \<longrightarrow> total_output tx \<le> ti)
        (InvalidTransaction ''Transaction creates value''))
     (st_then (st_lift (\<lambda>(c, j). if is_coinstake tx
        then check_coinstake lib tx ht ts pm si c else Ok ()))
     (st_then (move_stake_lock lib tx ht gov si) (add_supply tx ti)))) t))"
  proof (rule undo.then_from)
    show "undoable {txid lib tx} t (fst (add_outputs lib tx ht ts t))"
      unfolding t add_outputs_def using assms us
      by (intro add_outputs_undoable) (auto simp: fresh_tx_def)
    have "moves (undoable {txid lib tx}) (st_then (st_require (\<lambda>_. is_transfer tx \<longrightarrow> total_output tx \<le> ti)
        (InvalidTransaction ''Transaction creates value''))
     (st_then (st_lift (\<lambda>(c, j). if is_coinstake tx
        then check_coinstake lib tx ht ts pm si c else Ok ()))
     (st_then (move_stake_lock lib tx ht gov si) (add_supply tx ti))))"
      by (intro undo.moves_then undo.moves_require undo.moves_lift move_stake_lock_undoable
          add_supply_undoable)
    then show "undoable {txid lib tx} u (fst (st_then (st_require (\<lambda>_. is_transfer tx \<longrightarrow> total_output tx \<le> ti)
        (InvalidTransaction ''Transaction creates value''))
     (st_then (st_lift (\<lambda>(c, j). if is_coinstake tx
        then check_coinstake lib tx ht ts pm si c else Ok ()))
     (st_then (move_stake_lock lib tx ht gov si) (add_supply tx ti))) u))" for u
      unfolding moves_def by blast
  qed
qed

lemma apply_transaction_journaled_undoable:
  assumes "fresh_tx lib tx c"
  shows "undoable {txid lib tx} (c, j)
    (fst (apply_transaction_journaled lib bal tx ht ts pm gov (c, j)))"
proof -
  obtain c1 j1 ti si r where sp: "spend_inputs lib tx ht ts gov ((c, j), 0, None) = (((c1, j1), ti, si), r)"
    by (metis surj_pair)
  have "undoable_in {} ((c, j), 0, None) ((c1, j1), ti, si)"
    using movesD [OF spend_inputs_undoable sp] .
  then have u: "undoable {} (c, j) (c1, j1)" by (simp add: undoable_in_def)
  then have u': "undoable {txid lib tx} (c, j) (c1, j1)" by (rule undoable_mono) simp
  have "fresh_tx lib tx c1" using fresh_tx_undoable [OF assms u] by simp
  then show ?thesis
    using u' finish_transaction_undoable [of lib tx c1 j1]
    by (cases r) (auto simp: apply_transaction_journaled_def sp intro: undoable_trans)
qed

lemma apply_transaction_undoable:
  assumes "fresh_tx lib tx c"
  shows "undoable {txid lib tx} (c, j) (fst (apply_transaction lib bal tx ht ts pm gov (c, j)))"
  unfolding apply_transaction_def
proof (rule undo.then_from)
  show "undoable {txid lib tx} (c, j) (fst (process_governance lib tx ht ts gov (c, j)))"
    using process_governance_undoable unfolding moves_def by blast
next
  fix t x
  assume p: "process_governance lib tx ht ts gov (c, j) = (t, Ok x)"
  obtain c1 j1 where t: "t = (c1, j1)" by (cases t)
  have "undoable {} (c, j) (c1, j1)" using movesD [OF process_governance_undoable p] t by simp
  then have "fresh_tx lib tx c1" by (rule fresh_tx_undoable [OF assms]) simp
  then show "undoable {txid lib tx} t (fst (apply_transaction_journaled lib bal tx ht ts pm gov t))"
    unfolding t by (rule apply_transaction_journaled_undoable)
qed

text \<open>The transactions of a block: pairwise different identifiers, all new.\<close>

definition fresh_txs :: "('sig, 'pk, 'x) node_lib_scheme \<Rightarrow> transaction list \<Rightarrow> chain \<Rightarrow> bool" where
  "fresh_txs lib txs c \<longleftrightarrow> distinct (map (txid lib) txs) \<and> (\<forall>tx\<in>set txs. fresh_tx lib tx c)"

lemma fresh_txs_tail:
  assumes f: "fresh_txs lib (tx # txs) c" and u: "undoable {txid lib tx} (c, j) (c1, j1)"
  shows "fresh_txs lib txs c1"
  unfolding fresh_txs_def
proof (intro conjI ballI)
  show "distinct (map (txid lib) txs)" using f by (simp add: fresh_txs_def)
  fix t assume t: "t \<in> set txs"
  then have "txid lib t \<notin> {txid lib tx}" "fresh_tx lib t c"
    using f unfolding fresh_txs_def by (auto simp: image_iff)
  then show "fresh_tx lib t c1" using fresh_tx_undoable u by blast
qed

lemma apply_transactions_undoable:
  "fresh_txs lib txs c \<Longrightarrow> undoable (txid lib ` set txs) (c, j)
     (fst (st_each (\<lambda>tx. apply_transaction lib bal tx ht ts pm gov) txs (c, j)))"
proof (induction txs arbitrary: c j)
  case Nil
  then show ?case by (simp add: undoable_refl)
next
  case (Cons tx txs)
  obtain c1 j1 r where st: "apply_transaction lib bal tx ht ts pm gov (c, j) = ((c1, j1), r)"
    by (metis surj_pair)
  have "fresh_tx lib tx c" using Cons.prems by (simp add: fresh_txs_def)
  from apply_transaction_undoable [OF this] st have u: "undoable {txid lib tx} (c, j) (c1, j1)"
    by (metis fst_conv)
  then have u': "undoable (txid lib ` set (tx # txs)) (c, j) (c1, j1)" by (rule undoable_mono) simp
  have "fresh_txs lib txs c1" using Cons.prems u by (rule fresh_txs_tail)
  from Cons.IH [OF this, of j1]
  have rest: "undoable (txid lib ` set (tx # txs)) (c1, j1)
      (fst (st_each (\<lambda>tx. apply_transaction lib bal tx ht ts pm gov) txs (c1, j1)))"
    by (rule undoable_mono) auto
  show ?case using u' rest st by (cases r) (auto intro: undoable_trans)
qed

section \<open>Blocks\<close>

text \<open>The parts of the chain that applying a block leaves alone.\<close>

definition same_static :: "chain \<Rightarrow> chain \<Rightarrow> bool" where
  "same_static c c' \<longleftrightarrow> c'\<lparr>utxo_set := utxo_set c, claimed_addresses := claimed_addresses c,
     governance := governance c, chain_params := chain_params c, total_supply := total_supply c,
     total_staked := total_staked c\<rparr> = c"

lemma same_static_refl [simp]: "same_static c c"
  by (simp add: same_static_def)

lemma same_static_trans: "same_static c d \<Longrightarrow> same_static d e \<Longrightarrow> same_static c e"
  unfolding same_static_def by (cases c; cases d; cases e) simp

lemma same_frame_static: "same_frame c c' \<Longrightarrow> same_static c c'"
  unfolding same_frame_def same_static_def by (cases c; cases c') simp

lemma begin_governance_block_frame:
  assumes "begin_governance_block ht ts gov j c = (c1, r)"
  shows "same_static c c1" "utxo_set c1 = utxo_set c" "claimed_addresses c1 = claimed_addresses c"
    "total_supply c1 = total_supply c"
  using assms
  by (auto simp: begin_governance_block_def same_static_def Let_def
      split: if_splits prod.splits result.splits)

lemma commit_block_frame:
  assumes "commit_block cr (c, j) = ((c1, j1), r)"
  shows "same_static c c1" "utxo_set c1 = utxo_set c" "claimed_addresses c1 = claimed_addresses c"
    "governance c1 = governance c" "chain_params c1 = chain_params c"
    "changes j1 = changes j" "j_claimed j1 = j_claimed j" "same_journal_head j j1"
proof -
  show "same_static c c1" "utxo_set c1 = utxo_set c" "claimed_addresses c1 = claimed_addresses c"
    "governance c1 = governance c" "chain_params c1 = chain_params c"
    using assms by (auto simp: commit_block_def same_static_def Let_def split: if_splits)
  show "changes j1 = changes j" "j_claimed j1 = j_claimed j" "same_journal_head j j1"
    using assms by (auto simp: commit_block_def same_journal_head_def Let_def split: if_splits)
qed

text \<open>What a run of a block leaves behind: a journal that takes back all it did.\<close>

definition journaled :: "chain \<Rightarrow> ledger \<Rightarrow> bool" where
  "journaled c = (\<lambda>(c', j').
     foldl undo_change (utxo_set c') (rev (changes j')) = utxo_set c \<and>
     undo_claims (claimed_addresses c') (rev (j_claimed j')) = claimed_addresses c \<and>
     previous_params j' = chain_params c \<and> previous_supply j' = total_supply c \<and>
     previous_staked j' = total_staked c \<and> same_static c c')"

lemma rollback_journal_exact:
  assumes j: "journaled c (c', j')"
    and g: "\<And>d. governance d = governance c' \<Longrightarrow>
      restore_governance (previous_governance j') d = (d\<lparr>governance := governance c\<rparr>, Ok ())"
  shows "rollback_journal j' c' = (c, Ok ())"
proof -
  let ?d = "c'\<lparr>chain_params := previous_params j', total_supply := previous_supply j',
      total_staked := previous_staked j'\<rparr>"
  have "rollback_changes (changes j') (j_claimed j') (?d\<lparr>governance := governance c\<rparr>) = c"
    using j unfolding journaled_def rollback_changes_eq same_static_def by (cases c; cases c') simp
  then show ?thesis
    using g [of ?d] by (simp add: rollback_journal_def st_then_def st_bind_def st_update_def)
qed

lemma restore_since:
  "governance d = g' \<Longrightarrow>
     restore_governance (Some (undo_since g' g)) d = (d\<lparr>governance := g\<rparr>, Ok ())"
  by (simp add: restore_governance_def undo_since_inverse)

lemma apply_block_body_journaled:
  assumes b: "apply_block_body lib bal b ht pm gov (c, new_journal c h ht) = ((c1, j1), r)"
    and f: "fresh_txs lib (transactions b) c"
  shows "journaled c (c1, j1)"
proof -
  let ?j = "new_journal c h ht" and ?ts = "timestamp (header b)"
  let ?txs = "st_each (\<lambda>tx. apply_transaction lib bal tx ht ?ts pm gov) (transactions b)"
  obtain c0 r0 where g: "begin_governance_block ht ?ts gov ?j c = (c0, r0)" by fastforce
  note fr = begin_governance_block_frame [OF g]
  have j0: "journaled c (c0, ?j)"
    using fr by (simp add: journaled_def new_journal_def undo_claims_def)
  have "fresh_txs lib (transactions b) c0" using f fr(2) by (simp add: fresh_txs_def fresh_tx_def)
  from apply_transactions_undoable [OF this]
  have und: "undoable (txid lib ` set (transactions b)) (c0, ?j) (fst (?txs (c0, ?j)))" .
  obtain c2 j2 r2 where tx: "?txs (c0, ?j) = ((c2, j2), r2)" by (metis surj_pair)
  have j2: "journaled c (c2, j2)"
  proof -
    obtain chs claims where u: "changes j2 = changes ?j @ chs" "j_claimed j2 = j_claimed ?j @ claims"
      "foldl undo_change (utxo_set c2) (rev chs) = utxo_set c0"
      "undo_claims (claimed_addresses c2) (rev claims) = claimed_addresses c0"
      "same_frame c0 c2" "same_journal_head ?j j2"
      using und unfolding tx fst_conv undoable_def by auto
    have "same_static c c2" using fr(1) same_frame_static [OF u(5)] by (rule same_static_trans)
    then show ?thesis
      using u(1,2,3,4,6) fr(2,3) by (simp add: journaled_def new_journal_def same_journal_head_def)
  qed
  obtain c3 j3 r3 where cm: "commit_block lib (c2, j2) = ((c3, j3), r3)" by (metis surj_pair)
  have j3: "journaled c (c3, j3)"
    using j2 commit_block_frame [OF cm]
    by (auto simp: journaled_def same_journal_head_def intro: same_static_trans)
  have "(c1, j1) \<in> {(c0, ?j), (c2, j2), (c3, j3)}"
    using b
    by (cases r0; cases r2)
      (simp_all add: apply_block_body_def st_then_def st_bind_def on_chain_def g tx cm)
  then show ?thesis using j0 j2 j3 by auto
qed

text \<open>While governance is inactive no step touches its state.\<close>

definition same_gov :: "ledger \<Rightarrow> ledger \<Rightarrow> bool" where
  "same_gov s t \<longleftrightarrow> governance (fst t) = governance (fst s)"

interpretation sgov: step_relation same_gov
  by unfold_locales (auto simp: same_gov_def)

interpretation sgov_in: step_relation "\<lambda>s t. same_gov (fst s) (fst t)"
  by unfold_locales (auto simp: same_gov_def)

lemma spend_inputs_gov: "moves (\<lambda>s t. same_gov (fst s) (fst t)) (spend_inputs lib tx ht ts gov)"
proof -
  have "moves (\<lambda>s t. same_gov (fst s) (fst t)) (spend_input lib tx ht ts gov x)" for x
    by (auto simp: moves_def same_gov_def spend_input_def Let_def split: prod.split option.split result.split)
  then show ?thesis
    unfolding spend_inputs_def by (auto intro: sgov_in.moves_lift sgov_in.moves_each)
qed

lemma apply_claim_gov: "moves same_gov (apply_claim lib bal tx ht ts)"
proof -
  have "moves same_gov (record_claim lib bal tx ht)"
    by (auto simp: moves_def same_gov_def record_claim_def split: prod.split option.split result.split)
  then show ?thesis
    unfolding apply_claim_def by (auto intro: sgov.moves_then sgov.moves_lift sgov.moves_require)
qed

lemma add_outputs_gov: "moves same_gov (add_outputs lib tx ht ts)"
  unfolding add_outputs_def
  by (rule sgov.moves_each)
    (auto simp: moves_def same_gov_def add_output_def Let_def split: prod.split option.split)

lemma finish_transaction_gov: "moves same_gov (finish_transaction lib bal tx ht ts pm False ti si)"
proof -
  have "moves same_gov (move_stake_lock lib tx ht False si)" "moves same_gov (add_supply tx ti)"
    by (auto simp: moves_def same_gov_def move_stake_lock_def add_supply_def st_update_def split: prod.split)
  then show ?thesis
    unfolding finish_transaction_def
    by (intro sgov.moves_then apply_claim_gov add_outputs_gov sgov.moves_require sgov.moves_lift)
qed

lemma apply_transaction_gov: "moves same_gov (apply_transaction lib bal tx ht ts pm False)"
  unfolding apply_transaction_def
proof (rule sgov.moves_then)
  show "moves same_gov (process_governance lib tx ht ts False)"
    by (auto simp: moves_def same_gov_def process_governance_def)
  show "moves same_gov (apply_transaction_journaled lib bal tx ht ts pm False)"
    unfolding moves_def
  proof
    fix s
    obtain s1 ti si r where sp: "spend_inputs lib tx ht ts False (s, 0, None) = ((s1, ti, si), r)"
      by (metis surj_pair)
    have "same_gov s s1" using movesD [OF spend_inputs_gov sp] by simp
    moreover have "same_gov s1 (fst (finish_transaction lib bal tx ht ts pm False ti si s1))"
      using finish_transaction_gov unfolding moves_def by blast
    ultimately show "same_gov s (fst (apply_transaction_journaled lib bal tx ht ts pm False s))"
      by (cases r) (auto simp: apply_transaction_journaled_def sp same_gov_def)
  qed
qed

lemma apply_block_body_gov:
  assumes "apply_block_body lib bal b ht pm False (c, j) = ((c1, j1), r)"
  shows "governance c1 = governance c"
proof -
  have "moves same_gov (st_then (on_chain (begin_governance_block ht (timestamp (header b)) False j))
     (st_then (st_each (\<lambda>tx. apply_transaction lib bal tx ht (timestamp (header b)) pm False)
        (transactions b)) (commit_block lib)))"
    by (intro sgov.moves_then sgov.moves_each apply_transaction_gov)
      (auto simp: moves_def same_gov_def on_chain_def begin_governance_block_def commit_block_def Let_def)
  from movesD [OF this] assms show ?thesis
    unfolding apply_block_body_def by (fastforce simp: same_gov_def)
qed

lemma body_rollback:
  assumes b: "apply_block_body lib bal b ht pm gov (c, new_journal c h ht) = ((c1, j1), r)"
    and f: "fresh_txs lib (transactions b) c"
    and j: "j2 = j1\<lparr>previous_governance :=
      if gov then Some (undo_since (governance c1) (governance c)) else None\<rparr>"
  shows "rollback_journal j2 c1 = (c, Ok ())"
proof (rule rollback_journal_exact)
  show "journaled c (c1, j2)"
    using apply_block_body_journaled [OF b f] by (simp add: journaled_def j)
  fix d :: chain
  assume d: "governance d = governance c1"
  show "restore_governance (previous_governance j2) d = (d\<lparr>governance := governance c\<rparr>, Ok ())"
  proof (cases gov)
    case True
    then show ?thesis using restore_since [OF d] by (simp add: j)
  next
    case False
    then have "apply_block_body lib bal b ht pm False (c, new_journal c h ht) = ((c1, j1), r)"
      using b by simp
    then have "governance c1 = governance c" by (rule apply_block_body_gov)
    then show ?thesis using d False by (cases d) (simp add: j restore_governance_def)
  qed
qed

lemma good_fresh: "fresh_txs sample_lib (transactions good_block) small_chain"
  and bad_fresh: "fresh_txs sample_lib (transactions bad_block) small_chain"
  using mint_id(1) [of 9] mint_id(2) [of "replicate 32 9"] mint_id(2) [of "replicate 32 8"]
    mint_id(3) [of "replicate 32 9"] mint_id(3) [of "replicate 32 8"]
  by (auto simp: fresh_txs_def fresh_tx_def good_block_def bad_block_def block_of_def small_chain_def
      coin_key_def mint_kind spend_kind)

lemma block_rollback:
  assumes "fresh_txs lib (transactions b) c" "apply_block_journaled lib bal b ht c = (c', Ok j)"
  shows "rollback_journal j c' = (c, Ok ())"
proof -
  let ?gov = "governance_active c ht" and ?j = "new_journal c (block_hash lib b) ht"
  obtain pm where pm: "parent_stake_modifier c b ht = Ok pm"
    using assms(2) by (auto simp: apply_block_journaled_def Let_def split: result.splits)
  obtain c1 j1 r where b: "apply_block_body lib bal b ht pm ?gov (c, ?j) = ((c1, j1), r)"
    by (metis surj_pair)
  have "r = Ok ()" "c' = c1" and j: "j = j1\<lparr>previous_governance :=
      if ?gov then Some (undo_since (governance c1) (governance c)) else None\<rparr>"
    using assms(2) pm b
    by (auto simp: apply_block_journaled_def rollback_unless_panic_def Let_def
        split: result.splits node_error.splits prod.splits)
  then show ?thesis using body_rollback [OF b assms(1) refl] by simp
qed

text \<open>A block that is rejected, at whatever transaction, leaves no trace on the chain.\<close>

lemma block_atomic:
  assumes "fresh_txs lib (transactions b) c" "apply_block_journaled lib bal b ht c = (c', Err e)"
    "\<forall>m. e \<noteq> Panic m"
  shows "c' = c"
proof -
  let ?gov = "governance_active c ht" and ?j = "new_journal c (block_hash lib b) ht"
  show ?thesis
  proof (cases "parent_stake_modifier c b ht")
    case (Err x)
    then show ?thesis using assms(2) by (simp add: apply_block_journaled_def Let_def)
  next
    case (Ok pm)
    obtain c1 j1 r where b: "apply_block_body lib bal b ht pm ?gov (c, ?j) = ((c1, j1), r)"
      by (metis surj_pair)
    note rb = body_rollback [OF b assms(1) refl]
    show ?thesis
      using assms(2,3) Ok b rb
      by (cases r) (auto simp: apply_block_journaled_def rollback_unless_panic_def Let_def
          split: node_error.splits)
  qed
qed

text \<open>
  C39: undoing the journal of an applied block gives back the chain exactly as it was before: unspent
  outputs, claims, parameters, supply, staked supply and governance state. The transactions must
  create outpoints that are not in the set, which the hash in their identifiers ensures.
\<close>

theorem apply_block_rollback:
  assumes "fresh_txs lib (transactions b) c" "apply_block_journaled lib bal b ht c = (c', Ok j)"
  shows "rollback_journal j c' = (c, Ok ())"
  using assms by (rule block_rollback)

theorem apply_block_rollback_witness:
  "\<exists>c' j. apply_block_journaled sample_lib (\<lambda>_. 0) good_block 5 small_chain = (c', Ok j) \<and>
     rollback_journal j c' = (small_chain, Ok ())"
  using good_runs apply_block_rollback [OF good_fresh] by blast

end
