(* ===== verification/Genesis.thy ===== *)
theory Genesis
  imports Consensus
begin

text \<open>
  The genesis block and the legacy snapshot of \<open>vtorrent-node/src/genesis.rs\<close>. The snapshot file is
  generated, so its bytes, and the list they decode to, are arguments. \<open>None\<close> is a failed assertion.
\<close>

section \<open>Constants\<close>

definition GENESIS_MESSAGE :: bytes where
  "GENESIS_MESSAGE =
     ascii ''vTorrent 2.0 - Revived 2025 - Old holders made whole - No exchange needed''"

definition GENESIS_TIMESTAMP :: u32 where "GENESIS_TIMESTAMP = 1700000000"
definition GENESIS_BITS :: u32 where "GENESIS_BITS = 0x1e0fffff"
definition LEGACY_SNAPSHOT_HEIGHT :: u32 where "LEGACY_SNAPSHOT_HEIGHT = 1680456"
definition LEGACY_TOTAL_SUPPLY_SATOSHIS :: u64 where "LEGACY_TOTAL_SUPPLY_SATOSHIS = 1158974663136877"
definition LEGACY_ADDRESS_COUNT :: nat where "LEGACY_ADDRESS_COUNT = 59375"

section \<open>The snapshot\<close>

type_synonym snapshot = "(bytes \<times> u64) list"

text \<open>\<open>str::from_utf8\<close>: well-formed sequences of one to four bytes.\<close>

definition utf8_cont :: "byte \<Rightarrow> bool" where
  "utf8_cont b \<longleftrightarrow> 0x80 \<le> b \<and> b \<le> 0xbf"

fun utf8_valid :: "bytes \<Rightarrow> bool" where
  "utf8_valid [] = True"
| "utf8_valid (a # r) =
     (if a \<le> 0x7f then utf8_valid r
      else if 0xc2 \<le> a \<and> a \<le> 0xdf then
        (case r of b # r1 \<Rightarrow> utf8_cont b \<and> utf8_valid r1 | _ \<Rightarrow> False)
      else if 0xe0 \<le> a \<and> a \<le> 0xef then
        (case r of b # c # r1 \<Rightarrow> utf8_cont b \<and> utf8_cont c \<and> (a = 0xe0 \<longrightarrow> 0xa0 \<le> b) \<and>
           (a = 0xed \<longrightarrow> b \<le> 0x9f) \<and> utf8_valid r1 | _ \<Rightarrow> False)
      else if 0xf0 \<le> a \<and> a \<le> 0xf4 then
        (case r of b # c # d # r1 \<Rightarrow> utf8_cont b \<and> utf8_cont c \<and> utf8_cont d \<and>
           (a = 0xf0 \<longrightarrow> 0x90 \<le> b) \<and> (a = 0xf4 \<longrightarrow> b \<le> 0x8f) \<and> utf8_valid r1 | _ \<Rightarrow> False)
      else False)"

text \<open>One entry: 34 address bytes up to the first zero, then the balance.\<close>

definition decode_entry :: "bytes \<Rightarrow> (bytes \<times> u64) option" where
  "decode_entry e =
     (let addr = takeWhile (\<lambda>b. b \<noteq> 0) (take 34 e) in
      if utf8_valid addr then Some (addr, u64_of_le (take 8 (drop 34 e))) else None)"

fun decode_entries :: "nat \<Rightarrow> bytes \<Rightarrow> snapshot option" where
  "decode_entries 0 d = Some []"
| "decode_entries (Suc n) d =
     (case decode_entry (take 42 d) of
        None \<Rightarrow> None
      | Some e \<Rightarrow> map_option (Cons e) (decode_entries n (drop 42 d)))"

definition decode_snapshot :: "bytes \<Rightarrow> snapshot option" where
  "decode_snapshot d =
     (if length d < 4 then None
      else let count = unat (u32_of_le (take 4 d)) in
        if count \<noteq> LEGACY_ADDRESS_COUNT then None
        else if length d \<noteq> 4 + count * 42 then None
        else decode_entries count (drop 4 d))"

definition get_legacy_balance :: "snapshot \<Rightarrow> bytes \<Rightarrow> u64" where
  "get_legacy_balance snap addr =
     (case List.find (\<lambda>(a, _). a = addr) snap of Some (_, bal) \<Rightarrow> bal | None \<Rightarrow> 0)"

definition is_legacy_address :: "snapshot \<Rightarrow> bytes \<Rightarrow> bool" where
  "is_legacy_address snap addr = list_ex (\<lambda>(a, _). a = addr) snap"

section \<open>The genesis block\<close>

definition address_to_script :: "bytes \<Rightarrow> bytes" where
  "address_to_script addr = [0x6a, of_nat (length addr)] @ addr"

definition genesis_coinbase :: transaction where
  "genesis_coinbase = \<lparr>tx_version = 1, tx_kind = Coinbase, inputs = [],
     outputs = [\<lparr>out_value = 0, script_pubkey = GENESIS_MESSAGE\<rparr>], lock_time = 0,
     claim_address = None, claim_signature = None\<rparr>"

definition legacy_distribution :: "snapshot \<Rightarrow> transaction" where
  "legacy_distribution snap = \<lparr>tx_version = 1, tx_kind = LegacyClaim, inputs = [],
     outputs = map (\<lambda>(addr, satoshis). \<lparr>out_value = satoshis, script_pubkey = address_to_script addr\<rparr>) snap,
     lock_time = LEGACY_SNAPSHOT_HEIGHT, claim_address = None, claim_signature = None\<rparr>"

definition genesis_utxos :: "('sig, 'pk, 'x) node_lib_scheme \<Rightarrow> snapshot \<Rightarrow> utxo list" where
  "genesis_utxos lib snap =
     \<lparr>u_txid = txid lib genesis_coinbase, u_vout = 0, u_value = 0, u_script = GENESIS_MESSAGE,
      u_height = 0, u_timestamp = GENESIS_TIMESTAMP\<rparr> #
     map (\<lambda>(i, out). \<lparr>u_txid = txid lib (legacy_distribution snap), u_vout = of_nat i,
       u_value = out_value out, u_script = script_pubkey out, u_height = 0,
       u_timestamp = GENESIS_TIMESTAMP\<rparr>) (List.enumerate 0 (outputs (legacy_distribution snap)))"

definition create_genesis_block :: "('sig, 'pk, 'x) node_lib_scheme \<Rightarrow> snapshot \<Rightarrow> block" where
  "create_genesis_block lib snap =
     (let txs = [genesis_coinbase, legacy_distribution snap];
          hdr = \<lparr>header_version = 1, prev_block_hash = zero_hash, merkle_root = zero_hash,
            utxo_root = zero_hash, timestamp = GENESIS_TIMESTAMP, bits = GENESIS_BITS, nonce = 0,
            stake_modifier = 0\<rparr>;
          temp_block = \<lparr>header = hdr, transactions = txs\<rparr>
      in \<lparr>header = hdr\<lparr>merkle_root := compute_merkle_root lib temp_block,
           utxo_root := compute_utxo_root_sorted lib (genesis_utxos lib snap)\<rparr>, transactions = txs\<rparr>)"

section \<open>Balances\<close>

text \<open>The snapshot value not yet claimed.\<close>

definition unclaimed :: "snapshot \<Rightarrow> bytes set \<Rightarrow> nat" where
  "unclaimed snap cl = sum_list (map (\<lambda>(a, b). if a \<in> cl then 0 else unat b) snap)"

lemma get_legacy_balance_Cons:
  "get_legacy_balance ((a, b) # snap) addr = (if a = addr then b else get_legacy_balance snap addr)"
  by (simp add: get_legacy_balance_def)

lemma get_legacy_balance_notin: "addr \<notin> fst ` set snap \<Longrightarrow> get_legacy_balance snap addr = 0"
  by (induction snap) (auto simp: get_legacy_balance_def)

lemma unclaimed_insert_notin:
  "addr \<notin> fst ` set snap \<Longrightarrow> unclaimed snap (insert addr cl) = unclaimed snap cl"
  unfolding unclaimed_def by (induction snap) auto

lemma unclaimed_insert:
  assumes "distinct (map fst snap)" "addr \<notin> cl"
  shows "unclaimed snap cl = unat (get_legacy_balance snap addr) + unclaimed snap (insert addr cl)"
  using assms(1)
proof (induction snap)
  case Nil
  then show ?case by (simp add: unclaimed_def get_legacy_balance_def)
next
  case (Cons x snap)
  obtain a b where x: "x = (a, b)" by (cases x)
  show ?case
  proof (cases "a = addr")
    case True
    then have "unclaimed snap (insert addr cl) = unclaimed snap cl"
      using Cons.prems x by (intro unclaimed_insert_notin) auto
    then show ?thesis using True assms(2) x
      by (simp add: unclaimed_def get_legacy_balance_Cons)
  next
    case False
    then show ?thesis using Cons x by (simp add: unclaimed_def get_legacy_balance_Cons)
  qed
qed

text \<open>Decoding inverts the layout of the file.\<close>

definition encode_entry :: "bytes \<times> u64 \<Rightarrow> bytes" where
  "encode_entry = (\<lambda>(addr, bal). addr @ replicate (34 - length addr) 0 @ u64_le bal)"

lemma decode_encode_entry:
  assumes "length addr \<le> 34" "0 \<notin> set addr" "utf8_valid addr"
  shows "decode_entry (encode_entry (addr, bal)) = Some (addr, bal)"
proof -
  have "takeWhile (\<lambda>b. b \<noteq> 0) (addr @ replicate (34 - length addr) 0) = addr"
    using assms(2) by (subst takeWhile_append2) (auto simp: takeWhile_replicate)
  then show ?thesis using assms(1,3) by (simp add: decode_entry_def encode_entry_def)
qed

end
