(* ===== verification/Chain.thy ===== *)
theory Chain
  imports LedgerProps Genesis
begin

text \<open>
  The chain manager: \<open>Chain\<close> of \<open>vtorrent-node/src/chain.rs\<close> with the reorganisation of
  \<open>vtorrent-node/src/chain/chain_reorg.rs\<close>. The iteration order of the hash map of bodies is an
  argument \<open>order\<close>, a rank on hashes; the clock reading is an argument \<open>now\<close>. The loops that follow
  parent links are \<open>partial_function\<close>s: \<open>None\<close> is a run that does not return. Sums and height
  increments panic on overflow, as the release profile checks arithmetic.
\<close>

section \<open>Results\<close>

definition usize_MAX :: nat where "usize_MAX = 2 ^ 64 - 1"
definition DEFAULT_BLOCK_BODY_CACHE :: nat where "DEFAULT_BLOCK_BODY_CACHE = 4096"
definition MAX_FORK_BODIES :: nat where "MAX_FORK_BODIES = 256"

record rolled_back_block =
  rb_hash :: bytes
  rb_height :: u32
  utxos_to_remove :: "out_point list"
  utxos_to_restore :: "utxo list"
  claimed_to_remove :: "bytes list"

record applied_fork_block =
  af_block :: block
  af_height :: u32
  af_added :: "utxo list"
  af_removed :: "out_point list"
  af_claimed :: "bytes list"

datatype block_acceptance =
    MainChain u32 "utxo list" "out_point list" "bytes list"
  | Reorg bytes bytes u32 "transaction list" "rolled_back_block list" "applied_fork_block list"
  | Fork bytes
  | Duplicate

fun acceptance_eq :: "block_acceptance \<Rightarrow> block_acceptance \<Rightarrow> bool" where
  "acceptance_eq (MainChain h1 _ _ _) (MainChain h2 _ _ _) = (h1 = h2)"
| "acceptance_eq (Reorg o1 n1 d1 _ _ _) (Reorg o2 n2 d2 _ _ _) = (o1 = o2 \<and> n1 = n2 \<and> d1 = d2)"
| "acceptance_eq (Fork f1) (Fork f2) = (f1 = f2)"
| "acceptance_eq Duplicate Duplicate = True"
| "acceptance_eq _ _ = False"

section \<open>The transaction index\<close>

definition index_block_transactions ::
  "('sig, 'pk, 'x) node_lib_scheme \<Rightarrow> bytes \<Rightarrow> block \<Rightarrow> chain \<Rightarrow> chain" where
  "index_block_transactions lib hash b c = c\<lparr>tx_index :=
     foldl (\<lambda>ix (off, tx). fmupd (txid lib tx) (hash, off) ix) (tx_index c)
       (List.enumerate 0 (transactions b))\<rparr>"

definition body_transactions :: "chain \<Rightarrow> bytes \<Rightarrow> transaction list" where
  "body_transactions c hash = (case fmlookup (blocks c) hash of None \<Rightarrow> [] | Some b \<Rightarrow> transactions b)"

definition remove_block_transactions ::
  "('sig, 'pk, 'x) node_lib_scheme \<Rightarrow> bytes \<Rightarrow> chain \<Rightarrow> chain" where
  "remove_block_transactions lib hash c = c\<lparr>tx_index :=
     foldl (\<lambda>ix tx. fmdrop (txid lib tx) ix) (tx_index c) (body_transactions c hash)\<rparr>"

section \<open>Rolling back the tip\<close>

fun change_key :: "utxo_change \<Rightarrow> out_point" where
  "change_key (Utxo_Added k) = k"
| "change_key (Utxo_Removed k u) = k"

text \<open>What the store must undo: the touched outpoints, in order, by what they are afterwards.\<close>

definition rolled_back ::
  "block_journal \<Rightarrow> (out_point, utxo) fmap \<Rightarrow> rolled_back_block" where
  "rolled_back j us =
     (let touched = sorted_list_of_fset (fset_of_list (map change_key (changes j))) in
      \<lparr>rb_hash = j_block_hash j, rb_height = j_height j,
       utxos_to_remove = filter (\<lambda>k. fmlookup us k = None) touched,
       utxos_to_restore = List.map_filter (fmlookup us) touched,
       claimed_to_remove = j_claimed j\<rparr>)"

definition rollback_one_block ::
  "('sig, 'pk, 'x) node_lib_scheme \<Rightarrow>
     (chain, transaction list \<times> rolled_back_block, node_error) st" where
  "rollback_one_block lib c =
     (if journals c = [] then (c, Err (ChainError ''No journal to roll back''))
      else let j = last (journals c);
               txs = body_transactions c (j_block_hash j);
               us = foldl undo_change (utxo_set c) (rev (changes j));
               c1 = c\<lparr>journals := butlast (journals c), utxo_set := us,
                 claimed_addresses := foldl (\<lambda>s a. s |-| {|a|}) (claimed_addresses c) (j_claimed j),
                 total_supply := previous_supply j, total_staked := previous_staked j,
                 chain_params := previous_params j\<rparr>
        in case restore_governance (previous_governance j) c1 of
             (c2, Err e) \<Rightarrow> (c2, Err e)
           | (c2, Ok _) \<Rightarrow>
               (let c3 = remove_block_transactions lib (j_block_hash j) c2
                in (c3\<lparr>height_index := butlast (height_index c3)\<rparr>, Ok (txs, rolled_back j us))))"

section \<open>Ancestors\<close>

partial_function (option) ancestors_from :: "(bytes, bytes) fmap \<Rightarrow> bytes \<Rightarrow> bytes \<Rightarrow> bytes list option" where
  "ancestors_from parents genesis tip =
     (if tip = genesis then Some [tip]
      else case fmlookup parents tip of
        None \<Rightarrow> Some [tip]
      | Some parent \<Rightarrow> Option.bind (ancestors_from parents genesis parent) (\<lambda>path. Some (tip # path)))"

declare ancestors_from.simps [code]

definition ancestors :: "chain \<Rightarrow> bytes \<Rightarrow> bytes list nresult" where
  "ancestors c tip =
     (case height_index c of
        [] \<Rightarrow> Err (Panic ''index out of bounds'')
      | genesis # _ \<Rightarrow> ok_or (ancestors_from (parent_map c) genesis tip) (Panic ''the loop does not end''))"

text \<open>The links from the new tip down to the fork point; the inner \<open>None\<close> is a missing parent.\<close>

partial_function (option) path_down ::
  "(bytes, bytes) fmap \<Rightarrow> bytes \<Rightarrow> bytes \<Rightarrow> bytes list option option" where
  "path_down parents fork_point cursor =
     (if cursor = fork_point then Some (Some [])
      else case fmlookup parents cursor of
        None \<Rightarrow> Some None
      | Some parent \<Rightarrow> Option.bind (path_down parents fork_point parent)
          (\<lambda>path. Some (map_option (Cons cursor) path)))"

declare path_down.simps [code]

definition to_apply :: "chain \<Rightarrow> bytes \<Rightarrow> bytes \<Rightarrow> bytes list nresult" where
  "to_apply c fork_point new_tip =
     (case path_down (parent_map c) fork_point new_tip of
        None \<Rightarrow> Err (Panic ''the loop does not end'')
      | Some None \<Rightarrow> Err (ChainError ''Missing parent during reorg apply'')
      | Some (Some path) \<Rightarrow> Ok (rev path))"

section \<open>Reorganising\<close>

lemma rollback_one_block_journals:
  "rollback_one_block lib c = (c', Ok r) \<Longrightarrow> journals c' = butlast (journals c) \<and> journals c \<noteq> []"
  by (auto simp: rollback_one_block_def remove_block_transactions_def restore_governance_def Let_def
      split: if_splits option.splits)

function rollback_to ::
  "('sig, 'pk, 'x) node_lib_scheme \<Rightarrow> u32 \<Rightarrow>
     (chain, transaction list \<times> rolled_back_block list, node_error) st" where
  "rollback_to lib fork_height c =
     (if best_height c > fork_height then
        (case rollback_one_block lib c of
           (c1, Err e) \<Rightarrow> (c1, Err e)
         | (c1, Ok (txs, rb)) \<Rightarrow>
             (case rollback_to lib fork_height c1 of
                (c2, Err e) \<Rightarrow> (c2, Err e)
              | (c2, Ok (rest, rbs)) \<Rightarrow> (c2, Ok (txs @ rest, rb # rbs))))
      else (c, Ok ([], [])))"
  by pat_completeness auto

termination
proof (relation "measure (\<lambda>(lib, h, c). length (journals c))", goal_cases)
  case (2 lib fork_height c)
  then show ?case by (auto dest!: rollback_one_block_journals [OF sym])
qed simp

declare rollback_to.simps [simp del]

text \<open>A loop that collects a value per item.\<close>

fun st_collect :: "('i \<Rightarrow> ('s, 'a, 'e) st) \<Rightarrow> 'i list \<Rightarrow> ('s, 'a list, 'e) st" where
  "st_collect f [] s = (s, Ok [])"
| "st_collect f (x # xs) s =
     (case f x s of
        (s1, Err e) \<Rightarrow> (s1, Err e)
      | (s1, Ok y) \<Rightarrow> (case st_collect f xs s1 of
          (s2, Err e) \<Rightarrow> (s2, Err e) | (s2, Ok ys) \<Rightarrow> (s2, Ok (y # ys))))"

definition fork_diff :: "(out_point, utxo) fmap \<Rightarrow> utxo_change list \<Rightarrow> utxo list \<times> out_point list" where
  "fork_diff us chs = foldl (\<lambda>(added, removed) ch. case ch of
       Utxo_Added key \<Rightarrow>
         ((case fmlookup us key of Some u \<Rightarrow> added @ [u] | None \<Rightarrow> added), filter (\<lambda>k. k \<noteq> key) removed)
     | Utxo_Removed key _ \<Rightarrow> (added, removed @ [key])) ([], []) chs"

definition root_mismatch :: "block \<Rightarrow> block_journal \<Rightarrow> bool" where
  "root_mismatch b j \<longleftrightarrow> is_pos (header b) \<and> utxo_root (header b) \<noteq> j_utxo_root j"

definition apply_fork_block ::
  "('sig, 'pk, 'x) node_lib_scheme \<Rightarrow> (bytes \<Rightarrow> u64) \<Rightarrow> u32 \<Rightarrow> nat \<times> bytes \<Rightarrow>
     (chain, applied_fork_block, node_error) st" where
  "apply_fork_block lib bal fork_height = (\<lambda>(i, hash) c.
     if unat fork_height + 1 + i \<ge> 2 ^ 32 then (c, Err (Panic ''attempt to add with overflow''))
     else case fmlookup (blocks c) hash of
       None \<Rightarrow> (c, Err (ChainError ''Missing block during reorg''))
     | Some b \<Rightarrow>
         (let ht = fork_height + 1 + of_nat i in
          case apply_block_journaled lib bal b ht c of
            (c1, Err e) \<Rightarrow> (c1, Err e)
          | (c1, Ok j) \<Rightarrow>
              if root_mismatch b j
              then (c1, Err (InvalidBlock ''UTXO root does not match computed post-state root''))
              else (let c2 = index_block_transactions lib hash b c1;
                        (added, removed) = fork_diff (utxo_set c2) (changes j)
                    in (c2\<lparr>journals := journals c2 @ [j], height_index := height_index c2 @ [hash]\<rparr>,
                        Ok \<lparr>af_block = b, af_height = ht, af_added = added, af_removed = removed,
                            af_claimed = j_claimed j\<rparr>))))"

definition find_fork_point :: "bytes list \<Rightarrow> bytes list \<Rightarrow> bytes" where
  "find_fork_point old_chain new_chain =
     (case List.find (\<lambda>h. h \<in> set new_chain) old_chain of Some h \<Rightarrow> h | None \<Rightarrow> zero_hash)"

type_synonym reorg_result = "transaction list \<times> rolled_back_block list \<times> applied_fork_block list"

text \<open>The two halves of the reorganisation: rolling back and applying the branch.\<close>

definition switch_branch ::
  "('sig, 'pk, 'x) node_lib_scheme \<Rightarrow> (bytes \<Rightarrow> u64) \<Rightarrow> bytes \<Rightarrow> u32 \<Rightarrow> bytes \<Rightarrow> u32 \<Rightarrow>
     (chain, reorg_result, node_error) st" where
  "switch_branch lib bal fork_point fork_height new_tip new_tip_height =
     st_bind (rollback_to lib fork_height) (\<lambda>(txs, rbs).
     st_bind (st_lift (\<lambda>c. to_apply c fork_point new_tip)) (\<lambda>path.
     st_bind (st_collect (apply_fork_block lib bal fork_height) (List.enumerate 0 path)) (\<lambda>afs.
     st_then (st_require (\<lambda>c. best_hash c = Some new_tip \<and> best_height c = new_tip_height)
         (ChainError ''reorg verification failed''))
       (st_lift (\<lambda>_. Ok (txs, rbs, afs))))))"

definition reorganize_to_inner ::
  "('sig, 'pk, 'x) node_lib_scheme \<Rightarrow> (bytes \<Rightarrow> u64) \<Rightarrow> bytes \<Rightarrow> u32 \<Rightarrow>
     (chain, reorg_result, node_error) st" where
  "reorganize_to_inner lib bal new_tip new_tip_height c =
     (let old_tip = (case best_hash c of Some h \<Rightarrow> h | None \<Rightarrow> zero_hash) in
      case ancestors c new_tip of
        Err e \<Rightarrow> (c, Err e)
      | Ok new_chain \<Rightarrow> (case ancestors c old_tip of
          Err e \<Rightarrow> (c, Err e)
        | Ok old_chain \<Rightarrow>
            (let fork_point = find_fork_point old_chain new_chain in
             if fork_point = zero_hash
             then (c, Err (ChainError ''No common ancestor found during reorg''))
             else case chain_block_height c fork_point of
               None \<Rightarrow> (c, Err (ChainError ''Fork point not on main chain''))
             | Some fork_height \<Rightarrow>
                 if unat (sat_sub (best_height c) fork_height) > length (journals c)
                 then (c, Err (ChainError ''Reorg depth exceeds available rollback history''))
                 else switch_branch lib bal fork_point fork_height new_tip new_tip_height c)))"

text \<open>The fields saved before a reorganisation and put back when it fails. A panic unwinds past it.\<close>

definition restore_saved :: "chain \<Rightarrow> chain \<Rightarrow> chain" where
  "restore_saved saved c = c\<lparr>height_index := height_index saved, tx_index := tx_index saved,
     utxo_set := utxo_set saved, claimed_addresses := claimed_addresses saved,
     journals := journals saved, total_supply := total_supply saved,
     total_staked := total_staked saved, governance := governance saved,
     chain_params := chain_params saved\<rparr>"

definition is_panic :: "node_error \<Rightarrow> bool" where
  "is_panic e = (case e of Panic _ \<Rightarrow> True | _ \<Rightarrow> False)"

definition reorganize_to ::
  "('sig, 'pk, 'x) node_lib_scheme \<Rightarrow> (bytes \<Rightarrow> u64) \<Rightarrow> bytes \<Rightarrow> u32 \<Rightarrow>
     (chain, reorg_result, node_error) st" where
  "reorganize_to lib bal new_tip new_tip_height c =
     (case reorganize_to_inner lib bal new_tip new_tip_height c of
        (c1, Ok r) \<Rightarrow> (c1, Ok r)
      | (c1, Err e) \<Rightarrow> (if is_panic e then c1 else restore_saved c c1, Err e))"

section \<open>Pruning bodies\<close>

definition retained_main_bodies :: "chain \<Rightarrow> nat" where
  "retained_main_bodies c =
     (if block_body_cache c = usize_MAX then length (height_index c)
      else min (length (height_index c)) (max (block_body_cache c) 2))"

text \<open>The leaf to evict: the first of least work among the fork bodies without a child.\<close>

definition fork_leaves :: "(bytes \<Rightarrow> nat) \<Rightarrow> chain \<Rightarrow> bytes list" where
  "fork_leaves order c =
     filter (\<lambda>h. h \<notin> set (height_index c) \<and> h |\<notin>| fmran (parent_map c))
       (sort_key order (sorted_list_of_fset (fmdom (blocks c))))"

definition known_work :: "chain \<Rightarrow> bytes \<Rightarrow> u64" where
  "known_work c h = (case fmlookup (cumulative_work c) h of Some w \<Rightarrow> w | None \<Rightarrow> - 1)"

definition forget_block :: "bytes \<Rightarrow> chain \<Rightarrow> chain" where
  "forget_block h c = c\<lparr>blocks := fmdrop h (blocks c), headers := fmdrop h (headers c),
     parent_map := fmdrop h (parent_map c), block_heights := fmdrop h (block_heights c),
     cumulative_work := fmdrop h (cumulative_work c)\<rparr>"

lemma fork_leaves_bodies: "h \<in> set (fork_leaves order c) \<Longrightarrow> h |\<in>| fmdom (blocks c)"
  by (simp add: fork_leaves_def)

lemma arg_min_list_mem: "xs \<noteq> [] \<Longrightarrow> arg_min_list f xs \<in> set xs"
  by (rule arg_min_list_in)

function prune_fork_bodies :: "(bytes \<Rightarrow> nat) \<Rightarrow> chain \<Rightarrow> chain" where
  "prune_fork_bodies order c =
     (if fcard (fmdom (blocks c)) > retained_main_bodies c + MAX_FORK_BODIES \<and> fork_leaves order c \<noteq> []
      then prune_fork_bodies order
        (forget_block (arg_min_list (known_work c) (fork_leaves order c)) c)
      else c)"
  by pat_completeness auto

termination
proof (relation "measure (\<lambda>(order, c). fcard (fmdom (blocks c)))")
  fix order :: "bytes \<Rightarrow> nat" and c
  assume a: "retained_main_bodies c + MAX_FORK_BODIES < fcard (fmdom (blocks c)) \<and> fork_leaves order c \<noteq> []"
  then have "arg_min_list (known_work c) (fork_leaves order c) |\<in>| fmdom (blocks c)"
    using arg_min_list_mem fork_leaves_bodies by blast
  then show "((order, forget_block (arg_min_list (known_work c) (fork_leaves order c)) c), order, c)
      \<in> measure (\<lambda>(order, c). fcard (fmdom (blocks c)))"
    using a by (simp add: forget_block_def)
qed simp

declare prune_fork_bodies.simps [simp del]

definition prune_main_body :: "chain \<Rightarrow> chain" where
  "prune_main_body c =
     (let len = length (height_index c) in
      if block_body_cache c = usize_MAX \<or> len \<le> block_body_cache c then c
      else let victim_height = len - 1 - block_body_cache c in
        if victim_height < 2 then c
        else case nth_opt (height_index c) victim_height of
          None \<Rightarrow> c
        | Some hash \<Rightarrow>
            if list_ex (\<lambda>j. j_block_hash j = hash) (journals c) then c
            else c\<lparr>blocks := fmdrop hash (blocks c)\<rparr>)"

definition prune_bodies :: "(bytes \<Rightarrow> nat) \<Rightarrow> chain \<Rightarrow> chain" where
  "prune_bodies order c = prune_fork_bodies order (prune_main_body c)"

section \<open>Adding a block\<close>

definition main_diff :: "(out_point, utxo) fmap \<Rightarrow> utxo_change list \<Rightarrow> utxo list \<times> out_point list" where
  "main_diff us chs =
     (List.map_filter (\<lambda>ch. case ch of Utxo_Added k \<Rightarrow> fmlookup us k | Utxo_Removed _ _ \<Rightarrow> None) chs,
      List.map_filter (\<lambda>ch. case ch of Utxo_Added _ \<Rightarrow> None | Utxo_Removed k _ \<Rightarrow> Some k) chs)"

definition overflow :: node_error where
  "overflow = Panic ''attempt to add with overflow''"

definition work_of :: "chain \<Rightarrow> bytes \<Rightarrow> u64" where
  "work_of c h = (case fmlookup (cumulative_work c) h of Some w \<Rightarrow> w | None \<Rightarrow> 0)"

definition trim_journals :: "chain \<Rightarrow> chain" where
  "trim_journals c = c\<lparr>journals :=
     drop (length (journals c) - unat (max_reorg_depth c)) (journals c)\<rparr>"

text \<open>The bookkeeping of a block, shared by both paths.\<close>

definition register_block :: "bytes \<Rightarrow> bytes \<Rightarrow> u32 \<Rightarrow> u64 \<Rightarrow> block \<Rightarrow> chain \<Rightarrow> chain" where
  "register_block hash parent ht work b c = c\<lparr>cumulative_work := fmupd hash work (cumulative_work c),
     parent_map := fmupd hash parent (parent_map c), block_heights := fmupd hash ht (block_heights c),
     headers := fmupd hash (header b) (headers c), blocks := fmupd hash b (blocks c)\<rparr>"

definition validate_child ::
  "('sig, 'pk, 'x) node_lib_scheme \<Rightarrow> u32 \<Rightarrow> chain \<Rightarrow> block \<Rightarrow> u32 \<Rightarrow> block_header \<Rightarrow> bytes \<Rightarrow> unit nresult" where
  "validate_child lib now c b parent_height parent prev_hash =
     validate_block_inner lib now b parent_height (timestamp parent) (bits parent)
       (stake_modifier parent) prev_hash (allow_pow_test_blocks c)"

definition add_main_block ::
  "('sig, 'pk, 'x) node_lib_scheme \<Rightarrow> (bytes \<Rightarrow> u64) \<Rightarrow> (bytes \<Rightarrow> nat) \<Rightarrow> u32 \<Rightarrow> block \<Rightarrow>
     (chain, block_acceptance, node_error) st" where
  "add_main_block lib bal order now b c =
     (let hash = block_hash lib b; prev_hash = prev_block_hash (header b) in
      if best_height c = - 1 then (c, Err overflow)
      else case get_header_at_height c (best_height c) of
        None \<Rightarrow> (c, Err (ChainError ''Previous block not found''))
      | Some prev_header \<Rightarrow>
        (let ht = best_height c + 1 in
         case validate_child lib now c b (best_height c) prev_header prev_hash of
           Err e \<Rightarrow> (c, Err e)
         | Ok _ \<Rightarrow> (case apply_block_journaled lib bal b ht c of
             (c1, Err e) \<Rightarrow> (c1, Err e)
           | (c1, Ok j) \<Rightarrow>
               if root_mismatch b j then
                 (case rollback_journal j c1 of
                    (c2, Err e) \<Rightarrow> (c2, Err e)
                  | (c2, Ok _) \<Rightarrow>
                      (c2, Err (InvalidBlock ''UTXO root does not match computed post-state root'')))
               else if work_of c1 prev_hash = - 1 then (c1, Err overflow)
               else (let (added, removed) = main_diff (utxo_set c1) (changes j);
                         c2 = trim_journals (c1\<lparr>journals := journals c1 @ [j]\<rparr>);
                         c3 = index_block_transactions lib hash b c2;
                         c4 = register_block hash prev_hash ht (work_of c1 prev_hash + 1) b c3;
                         c5 = prune_bodies order (c4\<lparr>height_index := height_index c4 @ [hash]\<rparr>)
                     in (c5, Ok (MainChain ht added removed (j_claimed j)))))))"

definition add_fork_block ::
  "('sig, 'pk, 'x) node_lib_scheme \<Rightarrow> (bytes \<Rightarrow> u64) \<Rightarrow> (bytes \<Rightarrow> nat) \<Rightarrow> u32 \<Rightarrow> bytes \<Rightarrow> u32 \<Rightarrow> block \<Rightarrow>
     (chain, block_acceptance, node_error) st" where
  "add_fork_block lib bal order now main_tip parent_height b c =
     (let hash = block_hash lib b; prev_hash = prev_block_hash (header b) in
      if parent_height = - 1 then (c, Err overflow)
      else case fmlookup (headers c) prev_hash of
        None \<Rightarrow> (c, Err (ChainError ''missing parent header''))
      | Some parent_hdr \<Rightarrow>
        (let fork_height = parent_height + 1; fork_work = work_of c prev_hash + 1 in
         case validate_child lib now c b parent_height parent_hdr prev_hash of
           Err e \<Rightarrow> (c, Err e)
         | Ok _ \<Rightarrow>
             if work_of c prev_hash = - 1 then (c, Err overflow)
             else (let c1 = register_block hash prev_hash fork_height fork_work b c in
               if fork_work > work_of c1 main_tip then
                 (case reorganize_to lib bal hash fork_height c1 of
                    (c2, Err e) \<Rightarrow> (if is_panic e then c2 else forget_block hash c2, Err e)
                  | (c2, Ok (txs, rbs, afs)) \<Rightarrow>
                      (prune_bodies order c2,
                       Ok (Reorg main_tip hash (of_nat (length rbs)) txs rbs afs)))
               else (prune_bodies order c1, Ok (Fork hash)))))"

definition add_block ::
  "('sig, 'pk, 'x) node_lib_scheme \<Rightarrow> (bytes \<Rightarrow> u64) \<Rightarrow> (bytes \<Rightarrow> nat) \<Rightarrow> u32 \<Rightarrow> block \<Rightarrow>
     (chain, block_acceptance, node_error) st" where
  "add_block lib bal order now b c =
     (let prev_hash = prev_block_hash (header b);
          main_tip = (case best_hash c of Some h \<Rightarrow> h | None \<Rightarrow> zero_hash) in
      if fmlookup (block_heights c) (block_hash lib b) \<noteq> None then (c, Ok Duplicate)
      else if prev_hash = main_tip then add_main_block lib bal order now b c
      else case fmlookup (block_heights c) prev_hash of
        Some parent_height \<Rightarrow> add_fork_block lib bal order now main_tip parent_height b c
      | None \<Rightarrow> (c, Err (InvalidBlock ''Orphan block: parent not found'')))"

section \<open>Construction\<close>

definition empty_chain :: chain where
  "empty_chain = \<lparr>blocks = fmempty, headers = fmempty, block_body_cache = usize_MAX, source = None,
     height_index = [], tx_index = fmempty, utxo_set = fmempty, claimed_addresses = {||},
     journals = [], max_reorg_depth = 100, cumulative_work = fmempty, parent_map = fmempty,
     block_heights = fmempty, total_supply = 0, total_staked = 0, allow_pow_test_blocks = False,
     chain_params = default_params, governance = new_governance,
     governance_test_activation = None, governance_test_deployment = None\<rparr>"

definition with_genesis :: "('sig, 'pk, 'x) node_lib_scheme \<Rightarrow> snapshot \<Rightarrow> chain" where
  "with_genesis lib snap =
     (let g = create_genesis_block lib snap; h = block_hash lib g in
      empty_chain\<lparr>blocks := fmupd h g fmempty, headers := fmupd h (header g) fmempty,
        height_index := [h], cumulative_work := fmupd h 1 fmempty, block_heights := fmupd h 0 fmempty\<rparr>)"

definition new_chain :: "('sig, 'pk, 'x) node_lib_scheme \<Rightarrow> snapshot \<Rightarrow> chain nresult" where
  "new_chain lib snap =
     (let g = create_genesis_block lib snap; h = block_hash lib g in
      case apply_block_journaled lib (get_legacy_balance snap) g 0 (with_genesis lib snap) of
        (_, Err e) \<Rightarrow> Err e
      | (c, Ok j) \<Rightarrow>
          Ok ((index_block_transactions lib h g c)\<lparr>journals := [j]\<rparr>))"

definition new_regtest :: "('sig, 'pk, 'x) node_lib_scheme \<Rightarrow> snapshot \<Rightarrow> chain nresult" where
  "new_regtest lib snap = res_bind (new_chain lib snap) (\<lambda>c. Ok (c\<lparr>allow_pow_test_blocks := True\<rparr>))"

definition REGTEST_FAST_MIN_STAKE_AGE :: u64 where "REGTEST_FAST_MIN_STAKE_AGE = 60"
definition REGTEST_FAST_MAX_STAKE_AGE :: u64 where "REGTEST_FAST_MAX_STAKE_AGE = - 1"

definition new_regtest_fast :: "('sig, 'pk, 'x) node_lib_scheme \<Rightarrow> snapshot \<Rightarrow> chain nresult" where
  "new_regtest_fast lib snap = res_bind (new_regtest lib snap) (\<lambda>c.
     Ok (c\<lparr>chain_params := (chain_params c)\<lparr>min_stake_age := REGTEST_FAST_MIN_STAKE_AGE,
       max_stake_age := REGTEST_FAST_MAX_STAKE_AGE\<rparr>\<rparr>))"

section \<open>The outcomes of adding a block\<close>

lemma rollback_journal_Err: "rollback_journal j c = (c', Err e) \<Longrightarrow> \<exists>m. e = Panic m"
  by (auto simp: rollback_journal_def restore_governance_def st_then_def st_bind_def st_update_def
      split: option.splits)

lemma is_panic_iff: "is_panic e \<longleftrightarrow> (\<exists>m. e = Panic m)"
  by (cases e) (auto simp: is_panic_def)

text \<open>The chain that a block which extends the tip leaves behind.\<close>

definition extended_chain ::
  "('sig, 'pk, 'x) node_lib_scheme \<Rightarrow> block \<Rightarrow> u32 \<Rightarrow> block_journal \<Rightarrow> chain \<Rightarrow> chain" where
  "extended_chain lib b ht j c1 =
     (let hash = block_hash lib b; prev_hash = prev_block_hash (header b);
          c4 = register_block hash prev_hash ht (work_of c1 prev_hash + 1) b
            (index_block_transactions lib hash b (trim_journals (c1\<lparr>journals := journals c1 @ [j]\<rparr>)))
      in c4\<lparr>height_index := height_index c4 @ [hash]\<rparr>)"

lemma add_main_block_cases:
  assumes run: "add_main_block lib bal order now b c = (c', r)" and np: "\<forall>m. r \<noteq> Err (Panic m)"
  obtains (rejected) e where "c' = c" "r = Err e"
  | (failed) e where "apply_block_journaled lib bal b (best_height c + 1) c = (c', Err e)" "\<not> is_panic e" "r = Err e"
  | (mismatch) c1 j e where "apply_block_journaled lib bal b (best_height c + 1) c = (c1, Ok j)"
      "rollback_journal j c1 = (c', Ok ())" "r = Err e"
  | (extended) ph c1 j x where "best_height c \<noteq> - 1" "get_header_at_height c (best_height c) = Some ph"
      "validate_child lib now c b (best_height c) ph (prev_block_hash (header b)) = Ok ()"
      "apply_block_journaled lib bal b (best_height c + 1) c = (c1, Ok j)"
      "work_of c1 (prev_block_hash (header b)) \<noteq> - 1"
      "c' = prune_bodies order (extended_chain lib b (best_height c + 1) j c1)" "r = Ok x"
proof -
  let ?ht = "best_height c + 1" and ?p = "prev_block_hash (header b)"
  note defs = add_main_block_def Let_def
  show ?thesis
  proof (cases "\<exists>e. c' = c \<and> r = Err e")
    case True
    then show ?thesis using rejected by blast
  next
    case False
    then have nz: "best_height c \<noteq> - 1" using run by (auto simp: defs)
    obtain ph where ph: "get_header_at_height c (best_height c) = Some ph"
      using run nz False by (cases "get_header_at_height c (best_height c)") (auto simp: defs)
    have v: "validate_child lib now c b (best_height c) ph ?p = Ok ()"
      using run nz ph False by (cases "validate_child lib now c b (best_height c) ph ?p") (auto simp: defs)
    obtain c1 r1 where a: "apply_block_journaled lib bal b ?ht c = (c1, r1)" by fastforce
    show ?thesis
    proof (cases r1)
      case (Err e)
      then show ?thesis using run np nz ph v a by (intro failed [of e]) (auto simp: defs is_panic_iff)
    next
      case (Ok j)
      obtain c2 r2 where rb: "rollback_journal j c1 = (c2, r2)" by fastforce
      show ?thesis
      proof (cases "root_mismatch b j")
        case True
        then have "r2 = Ok ()" using run np nz ph v a Ok rb
          by (cases r2) (auto simp: defs dest: rollback_journal_Err)
        then show ?thesis using run nz ph v a Ok rb True by (intro mismatch) (auto simp: defs)
      next
        case good: False
        then have w: "work_of c1 ?p \<noteq> - 1" using run np nz ph v a Ok by (auto simp: defs overflow_def)
        with good show ?thesis using run nz ph v a Ok
          by (intro extended) (auto simp: defs main_diff_def extended_chain_def)
      qed
    qed
  qed
qed

lemma add_fork_block_cases:
  assumes run: "add_fork_block lib bal order now main_tip parent_ht b c = (c', r)"
    and np: "\<forall>m. r \<noteq> Err (Panic m)"
    and h: "h = block_hash lib b" and p: "p = prev_block_hash (header b)"
    and c1: "c1 = register_block h p (parent_ht + 1) (work_of c p + 1) b c"
  obtains (rejected) e where "c' = c" "r = Err e"
  | (stored) ph where "parent_ht \<noteq> - 1" "fmlookup (headers c) p = Some ph" "work_of c p \<noteq> - 1"
      "validate_child lib now c b parent_ht ph p = Ok ()"
      "work_of c p + 1 \<le> work_of c1 main_tip" "c' = prune_bodies order c1" "r = Ok (Fork h)"
  | (reorganized) ph c2 txs rbs afs where "parent_ht \<noteq> - 1" "fmlookup (headers c) p = Some ph" "work_of c p \<noteq> - 1"
      "validate_child lib now c b parent_ht ph p = Ok ()" "work_of c p + 1 > work_of c1 main_tip"
      "reorganize_to lib bal h (parent_ht + 1) c1 = (c2, Ok (txs, rbs, afs))" "c' = prune_bodies order c2"
      "r = Ok (Reorg main_tip h (of_nat (length rbs)) txs rbs afs)"
  | (reverted) c2 e where "reorganize_to lib bal h (parent_ht + 1) c1 = (c2, Err e)" "\<not> is_panic e"
      "c' = forget_block h c2" "r = Err e"
proof -
  note run' = run [unfolded add_fork_block_def Let_def, folded h p, folded c1]
  show ?thesis
  proof (cases "\<exists>e. c' = c \<and> r = Err e")
    case True
    then show ?thesis using rejected by blast
  next
    case False
    then have nz: "parent_ht \<noteq> - 1" using run' by auto
    obtain ph where ph: "fmlookup (headers c) p = Some ph"
      using run' nz False by (cases "fmlookup (headers c) p") auto
    have v: "validate_child lib now c b parent_ht ph p = Ok ()"
      using run' nz ph False by (cases "validate_child lib now c b parent_ht ph p") auto
    have w: "work_of c p \<noteq> - 1" using run' nz ph v False by auto
    obtain c2 r2 where re: "reorganize_to lib bal h (parent_ht + 1) c1 = (c2, r2)" by fastforce
    show ?thesis
    proof (cases "work_of c1 main_tip < work_of c p + 1")
      case False
      then show ?thesis using run' nz ph v w by (intro stored [of ph]) simp_all
    next
      case True
      show ?thesis
      proof (cases r2)
        case (Err e)
        then have "(if is_panic e then c2 else forget_block h c2, Err e) = (c', r)"
          using run' nz ph v w re True by simp
        then show ?thesis using np re Err by (intro reverted [of c2 e]) (auto simp: is_panic_iff)
      next
        case (Ok q)
        obtain txs rbs afs where "q = (txs, rbs, afs)" by (cases q)
        then show ?thesis using run' nz ph v w re True Ok
          by (intro reorganized [of ph c2 txs rbs afs]) simp_all
      qed
    qed
  qed
qed

lemma add_block_cases:
  assumes "add_block lib bal order now b c = (c', r)"
    and "tip = (case best_hash c of Some h \<Rightarrow> h | None \<Rightarrow> zero_hash)"
  obtains (known) "c' = c" "r = Ok Duplicate"
  | (main) "fmlookup (block_heights c) (block_hash lib b) = None" "prev_block_hash (header b) = tip"
      "add_main_block lib bal order now b c = (c', r)"
  | (fork) ph where "fmlookup (block_heights c) (block_hash lib b) = None" "prev_block_hash (header b) \<noteq> tip"
      "fmlookup (block_heights c) (prev_block_hash (header b)) = Some ph"
      "add_fork_block lib bal order now tip ph b c = (c', r)"
  | (orphan) "c' = c" "r = Err (InvalidBlock ''Orphan block: parent not found'')"
  using assms unfolding add_block_def Let_def by (auto split: if_splits option.splits)

end
