(* ===== verification/Supply.thy ===== *)
theory Supply
  imports LedgerProps Genesis
begin

text \<open>
  Conservation of coins. The value of the spendable outputs and of the balances that are not yet
  claimed never exceeds the supply the chain records, which never exceeds the maximum.
\<close>

section \<open>Coins\<close>

definition spendable :: "utxo \<Rightarrow> bool" where
  "spendable u \<longleftrightarrow>
     \<not> (case from_bytes (u_script u) of Ok s \<Rightarrow> classify_script s = OpReturn | Err _ \<Rightarrow> False)"

definition coin_value :: "utxo \<Rightarrow> nat" where
  "coin_value u = (if spendable u then unat (u_value u) else 0)"

definition coins :: "(out_point, utxo) fmap \<Rightarrow> nat" where
  "coins us = fm_sum coin_value us"

definition unclaimed_in :: "snapshot \<Rightarrow> chain \<Rightarrow> nat" where
  "unclaimed_in snap c = unclaimed snap (fset (claimed_addresses c))"

text \<open>What holds between blocks, and what holds while a block is applied.\<close>

definition supply_inv :: "snapshot \<Rightarrow> chain \<Rightarrow> bool" where
  "supply_inv snap c \<longleftrightarrow> coins (utxo_set c) + unclaimed_in snap c \<le> unat (total_supply c) \<and>
     total_supply c \<le> MAX_SUPPLY"

definition supply_ok :: "snapshot \<Rightarrow> ledger \<Rightarrow> bool" where
  "supply_ok snap = (\<lambda>(c, j). let lim = unat (total_supply c) + unat (supply_delta j) in
     unat MAX_SUPPLY < lim \<or> coins (utxo_set c) + unclaimed_in snap c \<le> lim)"

definition same_money :: "ledger \<Rightarrow> ledger \<Rightarrow> bool" where
  "same_money = (\<lambda>(c, j) (c', j'). claimed_addresses c' = claimed_addresses c \<and>
     total_supply c' = total_supply c \<and> supply_delta j' = supply_delta j)"

lemma unat_MAX_SUPPLY: "unat MAX_SUPPLY = 2000000000000000"
  by (simp add: MAX_SUPPLY_def COIN_def)

section \<open>Inputs\<close>

lemma verified_spendable:
  assumes "verify_input lib tx i u ht ts = Ok ()" "\<not> is_legacy_claim tx"
  shows "spendable u"
proof -
  have "verify_script lib tx i u ht ts = Ok ()"
    using assms by (cases "verify_script lib tx i u ht ts") (auto simp: verify_input_def)
  then obtain sig spk where "from_bytes (u_script u) = Ok spk"
    and e: "execute lib (new_engine (input_env lib tx i u ht ts)) sig spk = Ok ()"
    by (auto simp: verify_script_def split: result.splits)
  moreover have "classify_script spk \<noteq> OpReturn"
    using e classify_op_return op_return_unspendable by fastforce
  ultimately show ?thesis by (simp add: spendable_def)
qed

definition spent :: "ledger \<times> u64 \<times> utxo option \<Rightarrow> ledger \<times> u64 \<times> utxo option \<Rightarrow> bool" where
  "spent = (\<lambda>(s, ti, _) (s', ti', _). same_money s s' \<and>
     coins (utxo_set (fst s')) + unat ti' \<le> coins (utxo_set (fst s)) + unat ti)"

definition burnt :: "ledger \<times> u64 \<times> utxo option \<Rightarrow> ledger \<times> u64 \<times> utxo option \<Rightarrow> bool" where
  "burnt = (\<lambda>(s, _) (s', _). same_money s s' \<and> coins (utxo_set (fst s')) \<le> coins (utxo_set (fst s)))"

interpretation spends: step_relation spent
  by unfold_locales (auto simp: spent_def same_money_def)

interpretation burns: step_relation burnt
  by unfold_locales (auto simp: burnt_def same_money_def)

text \<open>A successful round of the input loop removes the output it names, if any.\<close>

lemma spend_input_Ok:
  assumes "spend_input lib tx ht ts gov (i, inp) ((c, j), ti, si) = (((c', j'), ti', si'), Ok ())"
  obtains (missing) "is_legacy_claim tx" "c' = c" "j' = j"
  | (found) u where "fmlookup (utxo_set c) (prev_txid inp, prev_vout inp) = Some u"
      "verify_input lib tx i u ht ts = Ok ()" "ti' = sat_add ti (u_value u)"
      "c' = c\<lparr>utxo_set := fmdrop (prev_txid inp, prev_vout inp) (utxo_set c)\<rparr>"
      "supply_delta j' = supply_delta j"
      "if is_stakeable_with (chain_params c) u then staked_delta j' = staked_delta j - sint (u_value u)
       else staked_delta j' = staked_delta j"
proof (cases "fmlookup (utxo_set c) (prev_txid inp, prev_vout inp)")
  case None
  then show ?thesis using assms missing
    by (auto simp: spend_input_def Let_def split: if_splits)
next
  case (Some u)
  show ?thesis
  proof (cases "verify_input lib tx i u ht ts")
    case (Err e)
    then show ?thesis using assms Some by (auto simp: spend_input_def Let_def split: if_splits)
  next
    case (Ok x)
    then show ?thesis using assms Some
      by (intro found [of u]) (auto simp: spend_input_def Let_def checked_i64_def
          split: if_splits option.splits)
  qed
qed

lemma spend_input_spent:
  assumes "\<not> is_legacy_claim tx"
  shows "ok_moves spent (spend_input lib tx ht ts gov x)"
proof (rule ok_movesI)
  fix s t :: "ledger \<times> u64 \<times> utxo option" and y :: unit
  assume r: "spend_input lib tx ht ts gov x s = (t, Ok y)"
  obtain i inp c j ti si c' j' ti' si' where e: "x = (i, inp)" "s = ((c, j), ti, si)" "t = ((c', j'), ti', si')"
    by (metis surj_pair)
  have "spend_input lib tx ht ts gov (i, inp) ((c, j), ti, si) = (((c', j'), ti', si'), Ok ())"
    using r e by simp
  then show "spent s t"
  proof (cases rule: spend_input_Ok)
    case missing
    then show ?thesis using assms by simp
  next
    case (found u)
    have "coin_value u = unat (u_value u)"
      using verified_spendable [OF found(2) assms] by (simp add: coin_value_def)
    then have "coins (utxo_set c) = unat (u_value u) + coins (utxo_set c')"
      using fm_sum_drop [OF found(1), of coin_value] found(4) by (simp add: coins_def)
    then show ?thesis using found by (auto simp: e spent_def same_money_def unat_sat_add)
  qed
qed

lemma spend_input_burnt: "ok_moves burnt (spend_input lib tx ht ts gov x)"
proof (rule ok_movesI)
  fix s t :: "ledger \<times> u64 \<times> utxo option" and y :: unit
  assume r: "spend_input lib tx ht ts gov x s = (t, Ok y)"
  obtain i inp c j ti si c' j' ti' si' where e: "x = (i, inp)" "s = ((c, j), ti, si)" "t = ((c', j'), ti', si')"
    by (metis surj_pair)
  have "spend_input lib tx ht ts gov (i, inp) ((c, j), ti, si) = (((c', j'), ti', si'), Ok ())"
    using r e by simp
  then show "burnt s t"
  proof (cases rule: spend_input_Ok)
    case missing
    then show ?thesis by (simp add: e burnt_def same_money_def)
  next
    case (found u)
    then show ?thesis by (simp add: e burnt_def same_money_def coins_def fm_sum_drop_le)
  qed
qed

lemma spend_inputs_coins:
  assumes "spend_inputs lib tx ht ts gov ((c, j), 0, None) = (((c', j'), ti, si), Ok ())"
  shows "same_money (c, j) (c', j')" "coins (utxo_set c') \<le> coins (utxo_set c)"
    "\<not> is_legacy_claim tx \<Longrightarrow> coins (utxo_set c') + unat ti \<le> coins (utxo_set c)"
proof -
  have "ok_moves burnt (spend_inputs lib tx ht ts gov)"
    by (auto simp: spend_inputs_def ok_moves_def burns.step_refl
        intro: ok_movesD [OF burns.ok_each] spend_input_burnt)
  from ok_movesD [OF this assms] show "same_money (c, j) (c', j')" "coins (utxo_set c') \<le> coins (utxo_set c)"
    by (simp_all add: burnt_def)
  assume "\<not> is_legacy_claim tx"
  then have "ok_moves spent (spend_inputs lib tx ht ts gov)"
    by (auto simp: spend_inputs_def ok_moves_def spends.step_refl
        intro: ok_movesD [OF spends.ok_each] spend_input_spent)
  from ok_movesD [OF this assms] show "coins (utxo_set c') + unat ti \<le> coins (utxo_set c)"
    by (simp add: spent_def)
qed

section \<open>Outputs and claims\<close>

definition output_sum :: "tx_output list \<Rightarrow> nat" where
  "output_sum outs = sum_list (map (unat \<circ> out_value) outs)"

lemma add_outputs_coins:
  assumes "st_each (add_output tx tid ht ts) (List.enumerate k outs) (c, j) = ((c', j'), Ok ())"
  shows "same_money (c, j) (c', j') \<and> coins (utxo_set c') \<le> coins (utxo_set c) + output_sum outs"
  using assms
proof (induction outs arbitrary: k c j)
  case Nil
  then show ?case by (simp add: same_money_def output_sum_def)
next
  case (Cons out outs)
  obtain c1 j1 where 1: "add_output tx tid ht ts (k, out) (c, j) = ((c1, j1), Ok ())"
    and 2: "st_each (add_output tx tid ht ts) (List.enumerate (Suc k) outs) (c1, j1) = ((c', j'), Ok ())"
    using Cons.prems by (auto simp: st_each_eq_Ok simp del: st_each.simps)
  have le: "coins (fmupd key u us) \<le> unat (u_value u) + coins us" for key u us
    using fm_sum_upd_le [of coin_value key u us] by (auto simp: coins_def coin_value_def split: if_splits)
  have "same_money (c, j) (c1, j1) \<and> coins (utxo_set c1) \<le> coins (utxo_set c) + unat (out_value out)"
    using 1 le [of "(tid, of_nat k)" "output_utxo tid ht ts (k, out)" "utxo_set c"]
    by (auto simp: add_output_def same_money_def output_utxo_def Let_def split: if_splits option.splits)
  then show ?case using Cons.IH [OF 2] by (auto simp: same_money_def output_sum_def)
qed

lemma total_output_sum: "unat (total_output tx) = min (output_sum (outputs tx)) (2 ^ 64 - 1)"
  by (simp add: total_output_eq output_sum_def)

lemma apply_claim_Ok:
  assumes "apply_claim lib bal tx ht ts (c, j) = ((c', j'), Ok ())"
  shows "\<not> is_legacy_claim tx \<Longrightarrow> c' = c \<and> j' = j"
    "is_legacy_claim tx \<Longrightarrow> ht \<noteq> 0 \<Longrightarrow> \<exists>addr. claim_address tx = Some addr \<and>
       addr |\<notin>| claimed_addresses c \<and> total_output tx = bal addr \<and>
       c' = c\<lparr>claimed_addresses := finsert addr (claimed_addresses c)\<rparr> \<and> supply_delta j' = supply_delta j \<and>
       staked_delta j' = staked_delta j"
proof -
  show "\<not> is_legacy_claim tx \<Longrightarrow> c' = c \<and> j' = j" using assms by (simp add: apply_claim_def)
  assume l: "is_legacy_claim tx" and h: "ht \<noteq> 0"
  have r: "record_claim lib bal tx ht (c, j) = ((c', j'), Ok ())"
    using assms l by (auto simp: apply_claim_def st_then_eq_Ok)
  then obtain addr where a: "claim_address tx = Some addr"
    using h by (cases "claim_address tx") (auto simp: record_claim_def)
  have "addr |\<notin>| claimed_addresses c" using r h a by (auto simp: record_claim_def)
  moreover have "validate_legacy_claim lib tx (bal addr) = Ok ()"
    using r h a by (cases "validate_legacy_claim lib tx (bal addr)") (auto simp: record_claim_def split: if_splits)
  moreover from this have "total_output tx = bal addr"
    by (auto simp: validate_legacy_claim_def split: if_splits option.splits)
  ultimately show "\<exists>addr. claim_address tx = Some addr \<and> addr |\<notin>| claimed_addresses c \<and>
      total_output tx = bal addr \<and> c' = c\<lparr>claimed_addresses := finsert addr (claimed_addresses c)\<rparr> \<and>
      supply_delta j' = supply_delta j \<and> staked_delta j' = staked_delta j"
    using r h a by (auto simp: record_claim_def)
qed

section \<open>Transactions\<close>

lemma finish_transaction_Ok:
  assumes "finish_transaction lib bal tx ht ts pm gov ti si (c, j) = ((c', j'), Ok ())"
  obtains c1 j1 c2 j2 g where "apply_claim lib bal tx ht ts (c, j) = ((c1, j1), Ok ())"
    "add_outputs lib tx ht ts (c1, j1) = ((c2, j2), Ok ())"
    "is_transfer tx \<longrightarrow> total_output tx \<le> ti"
    "is_coinstake tx \<longrightarrow> check_coinstake lib tx ht ts pm si c2 = Ok ()"
    "c' = c2\<lparr>governance := g\<rparr>"
    "j' = j2\<lparr>supply_delta := sat_add (supply_delta j2) (compute_supply_delta tx ti (total_output tx))\<rparr>"
proof -
  from assms obtain c1 j1 c2 j2 c3 j3 where s: "apply_claim lib bal tx ht ts (c, j) = ((c1, j1), Ok ())"
    "add_outputs lib tx ht ts (c1, j1) = ((c2, j2), Ok ())" "is_transfer tx \<longrightarrow> total_output tx \<le> ti"
    "is_coinstake tx \<longrightarrow> check_coinstake lib tx ht ts pm si c2 = Ok ()"
    "move_stake_lock lib tx ht gov si (c2, j2) = ((c3, j3), Ok ())"
    "((c', j'), Ok ()) = add_supply tx ti (c3, j3)"
    unfolding finish_transaction_def st_then_eq_Ok by (fastforce split: if_splits)
  have "\<exists>g. c3 = c2\<lparr>governance := g\<rparr>" "j3 = j2"
    using s(5) by (auto simp: move_stake_lock_def split: bool.splits option.splits prod.splits
        intro: exI [of _ "governance c2"])
  moreover have "c' = c3" "j' = j3\<lparr>supply_delta := sat_add (supply_delta j3)
      (compute_supply_delta tx ti (total_output tx))\<rparr>"
    using s(6) by (simp_all add: add_supply_def st_update_def)
  ultimately show ?thesis using s that by blast
qed

lemma apply_transaction_Ok:
  assumes "apply_transaction lib bal tx ht ts pm gov (c, j) = ((c', j'), Ok ())"
  obtains g c1 j1 ti si where
    "spend_inputs lib tx ht ts gov ((c\<lparr>governance := g\<rparr>, j), 0, None) = (((c1, j1), ti, si), Ok ())"
    "finish_transaction lib bal tx ht ts pm gov ti si (c1, j1) = ((c', j'), Ok ())"
proof -
  obtain c0 j0 where p: "process_governance lib tx ht ts gov (c, j) = ((c0, j0), Ok ())"
    and a: "apply_transaction_journaled lib bal tx ht ts pm gov (c0, j0) = ((c', j'), Ok ())"
    using assms by (auto simp: apply_transaction_def st_then_eq_Ok)
  have g: "\<exists>g. c0 = c\<lparr>governance := g\<rparr>" "j0 = j"
    using p by (auto simp: process_governance_def Let_def split: if_splits list.splits prod.splits
        intro: exI [of _ "governance c"])
  obtain s1 ti si r where sp: "spend_inputs lib tx ht ts gov ((c0, j0), 0, None) = ((s1, ti, si), r)"
    by (metis surj_pair)
  have "r = Ok ()" "finish_transaction lib bal tx ht ts pm gov ti si s1 = ((c', j'), Ok ())"
    using a by (cases r; simp add: apply_transaction_journaled_def sp)+
  then show ?thesis using that g sp by (cases s1) blast
qed

text \<open>The arithmetic of one transaction, over the natural numbers.\<close>

lemma mint_bound:
  assumes "unat d' = min (unat d + (unat out - unat ti)) (2 ^ 64 - 1)"
    and "unat (out :: u64) = min S (2 ^ 64 - 1)" and "C' + unat (ti :: u64) \<le> C + S"
    and "(2000000000000000 :: nat) < L + unat (d :: u64) \<or> C + U \<le> L + unat d" and "unat ti \<le> C"
  shows "2000000000000000 < L + unat (d' :: u64) \<or> C' + U \<le> L + unat d'"
proof -
  have "unat d < 2 ^ 64" using unsigned_less [of d] by simp
  then show ?thesis using assms by (simp add: min_def split: if_splits) linarith+
qed

lemma apply_transaction_supply:
  assumes "apply_transaction lib (get_legacy_balance snap) tx ht ts pm gov (c, j) = ((c', j'), Ok ())"
    and "supply_ok snap (c, j)" "distinct (map fst snap)" "ht \<noteq> 0"
  shows "supply_ok snap (c', j')"
proof -
  obtain g c1 j1 ti si where
    sp: "spend_inputs lib tx ht ts gov ((c\<lparr>governance := g\<rparr>, j), 0, None) = (((c1, j1), ti, si), Ok ())"
    and f: "finish_transaction lib (get_legacy_balance snap) tx ht ts pm gov ti si (c1, j1) = ((c', j'), Ok ())"
    using assms(1) by (rule apply_transaction_Ok)
  obtain c2 j2 c3 j3 g' where
    cl: "apply_claim lib (get_legacy_balance snap) tx ht ts (c1, j1) = ((c2, j2), Ok ())"
    and ao: "add_outputs lib tx ht ts (c2, j2) = ((c3, j3), Ok ())"
    and c': "c' = c3\<lparr>governance := g'\<rparr>"
    and j': "j' = j3\<lparr>supply_delta := sat_add (supply_delta j3) (compute_supply_delta tx ti (total_output tx))\<rparr>"
    using f by (rule finish_transaction_Ok)
  note in' = spend_inputs_coins [OF sp]
  note out = add_outputs_coins [OF ao [unfolded add_outputs_def]]
  let ?L = "unat (total_supply c)" and ?S = "output_sum (outputs tx)"
  have d: "unat (supply_delta j') =
      min (unat (supply_delta j) + unat (compute_supply_delta tx ti (total_output tx))) (2 ^ 64 - 1)"
    and L: "total_supply c' = total_supply c"
    if "supply_delta j2 = supply_delta j1" "total_supply c2 = total_supply c1"
    using that in'(1) out j' c' by (simp_all add: same_money_def unat_sat_add)
  show ?thesis
  proof (cases "is_legacy_claim tx")
    case False
    then have c2: "c2 = c1" "j2 = j1" using apply_claim_Ok(1) [OF cl] by auto
    have U: "unclaimed_in snap c' = unclaimed_in snap c"
      using in'(1) out c2 c' by (simp add: same_money_def unclaimed_in_def)
    have "coins (utxo_set c') + unat ti \<le> coins (utxo_set c) + ?S" "unat ti \<le> coins (utxo_set c)"
      using in'(3) [OF False] out c2 c' by simp_all
    moreover have "unat (compute_supply_delta tx ti (total_output tx)) = unat (total_output tx) - unat ti"
      using False by (simp add: compute_supply_delta_def unat_sat_sub)
    ultimately show ?thesis
      using mint_bound [OF _ total_output_sum, of "supply_delta j'" "supply_delta j" tx ti
          "coins (utxo_set c')" "coins (utxo_set c)" ?L "unclaimed_in snap c"] d L assms(2) c2 U
      by (simp add: supply_ok_def unat_MAX_SUPPLY Let_def)
  next
    case True
    then obtain addr where a: "claim_address tx = Some addr" "addr |\<notin>| claimed_addresses c1"
      "total_output tx = get_legacy_balance snap addr"
      "c2 = c1\<lparr>claimed_addresses := finsert addr (claimed_addresses c1)\<rparr>" "supply_delta j2 = supply_delta j1"
      using apply_claim_Ok(2) [OF cl] assms(4) by auto
    have "unclaimed_in snap c = unat (total_output tx) + unclaimed_in snap c'"
      using unclaimed_insert [OF assms(3), of addr "fset (claimed_addresses c1)"] a in'(1) out c'
      by (simp add: unclaimed_in_def same_money_def)
    moreover have "compute_supply_delta tx ti (total_output tx) = 0"
      using True a by (simp add: compute_supply_delta_def)
    moreover have "coins (utxo_set c') \<le> coins (utxo_set c) + ?S" using in'(2) out a c' by simp
    moreover have "unat (supply_delta j) < 2 ^ 64" using unsigned_less [of "supply_delta j"] by simp
    ultimately show ?thesis
      using d L a assms(2) total_output_sum [of tx]
      by (simp add: supply_ok_def unat_MAX_SUPPLY Let_def min_def split: if_splits) linarith+
  qed
qed

section \<open>Blocks\<close>

lemma apply_transactions_supply:
  assumes "st_each (\<lambda>tx. apply_transaction lib (get_legacy_balance snap) tx ht ts pm gov) txs (c, j) =
      ((c', j'), Ok ())"
    and "supply_ok snap (c, j)" "distinct (map fst snap)" "ht \<noteq> 0"
  shows "supply_ok snap (c', j')"
  using assms
proof (induction txs arbitrary: c j)
  case (Cons tx txs)
  obtain c1 j1 where "apply_transaction lib (get_legacy_balance snap) tx ht ts pm gov (c, j) = ((c1, j1), Ok ())"
    and "st_each (\<lambda>tx. apply_transaction lib (get_legacy_balance snap) tx ht ts pm gov) txs (c1, j1) =
      ((c', j'), Ok ())"
    using Cons.prems(1) by (auto simp: st_each_eq_Ok simp del: st_each.simps)
  then show ?case using Cons apply_transaction_supply by blast
qed simp

text \<open>The three phases of a successful block.\<close>

lemma apply_block_Ok:
  assumes "apply_block_journaled lib bal b ht c = (c', Ok j)"
  obtains pm c0 c1 j1 j2 where
    "begin_governance_block ht (timestamp (header b)) (governance_active c ht)
       (new_journal c (block_hash lib b) ht) c = (c0, Ok ())"
    "st_each (\<lambda>tx. apply_transaction lib bal tx ht (timestamp (header b)) pm (governance_active c ht))
       (transactions b) (c0, new_journal c (block_hash lib b) ht) = ((c1, j1), Ok ())"
    "commit_block lib (c1, j1) = ((c', j2), Ok ())"
proof -
  let ?j = "new_journal c (block_hash lib b) ht" and ?gov = "governance_active c ht"
  obtain pm where pm: "parent_stake_modifier c b ht = Ok pm"
    using assms by (auto simp: apply_block_journaled_def Let_def split: result.splits)
  obtain c3 j3 r where body: "apply_block_body lib bal b ht pm ?gov (c, ?j) = ((c3, j3), r)"
    by (metis surj_pair)
  have "r = Ok ()" "c3 = c'"
    using assms pm body
    by (auto simp: apply_block_journaled_def rollback_unless_panic_def Let_def
        split: result.splits node_error.splits prod.splits)
  then have "apply_block_body lib bal b ht pm ?gov (c, ?j) = ((c', j3), Ok ())" using body by simp
  then obtain s0 s1 where
    "on_chain (begin_governance_block ht (timestamp (header b)) ?gov ?j) (c, ?j) = (s0, Ok ())"
    "st_each (\<lambda>tx. apply_transaction lib bal tx ht (timestamp (header b)) pm ?gov) (transactions b) s0 =
       (s1, Ok ())" "commit_block lib s1 = ((c', j3), Ok ())"
    by (auto simp: apply_block_body_def st_then_eq_Ok)
  then show ?thesis using that by (cases s1) (fastforce simp: on_chain_def split: prod.splits)
qed

lemma commit_supply:
  assumes "commit_block lib (c, j) = ((c', j'), Ok ())" "supply_ok snap (c, j)"
  shows "supply_inv snap c'"
proof -
  let ?n = "sat_add (total_supply c) (supply_delta j)"
  have n: "\<not> MAX_SUPPLY < ?n" "total_supply c' = ?n" "utxo_set c' = utxo_set c"
    "claimed_addresses c' = claimed_addresses c"
    using assms(1) by (auto simp: commit_block_def Let_def split: if_splits)
  have le: "min (unat (total_supply c) + unat (supply_delta j)) (2 ^ 64 - 1) \<le> 2000000000000000"
    using n(1) by (simp add: word_less_nat_alt unat_sat_add unat_MAX_SUPPLY)
  then have le': "unat (total_supply c) + unat (supply_delta j) \<le> 2000000000000000"
    by (simp add: min_def split: if_splits)
  then have "unat ?n = unat (total_supply c) + unat (supply_delta j)" by (simp add: unat_sat_add)
  then show ?thesis
    using assms(2) n(2-) le'
    by (simp add: supply_ok_def supply_inv_def unclaimed_in_def Let_def unat_MAX_SUPPLY word_le_nat_alt)
qed

lemma block_supply:
  assumes "apply_block_journaled lib (get_legacy_balance snap) b ht c = (c', Ok j)"
    and "supply_inv snap c" "distinct (map fst snap)" "ht \<noteq> 0"
  shows "supply_inv snap c'"
  using assms(1)
proof (cases rule: apply_block_Ok)
  case (1 pm c0 c1 j1 j2)
  have "supply_ok snap (c0, new_journal c (block_hash lib b) ht)"
    using begin_governance_block_frame [OF 1(1)] assms(2)
    by (simp add: supply_ok_def supply_inv_def unclaimed_in_def new_journal_def)
  from apply_transactions_supply [OF 1(2) this assms(3,4)] show ?thesis by (rule commit_supply [OF 1(3)])
qed

section \<open>Staked supply\<close>

definition stake_value :: "consensus_params \<Rightarrow> utxo \<Rightarrow> nat" where
  "stake_value p u = (if is_stakeable_with p u then unat (u_value u) else 0)"

definition staked :: "consensus_params \<Rightarrow> (out_point, utxo) fmap \<Rightarrow> nat" where
  "staked p us = fm_sum (stake_value p) us"

definition values_ok :: "(out_point, utxo) fmap \<Rightarrow> bool" where
  "values_ok us \<longleftrightarrow> (\<forall>k u. fmlookup us k = Some u \<longrightarrow> u_value u \<le> MAX_MONEY)"

definition staked_inv :: "chain \<Rightarrow> bool" where
  "staked_inv c \<longleftrightarrow> unat (total_staked c) = staked (chain_params c) (utxo_set c) \<and> values_ok (utxo_set c)"

lemma stakeable_spendable: "is_stakeable_with p u \<Longrightarrow> spendable u"
  by (auto simp: is_stakeable_with_def spendable_def split: if_splits result.splits script_type.splits)

lemma staked_le_coins: "staked p us \<le> coins us"
  unfolding staked_def coins_def fm_sum_def
  by (rule sum_mono) (simp add: stake_value_def coin_value_def stakeable_spendable)

lemma sint_money: "v \<le> MAX_MONEY \<Longrightarrow> sint (v :: u64) = int (unat v)"
proof -
  assume "v \<le> MAX_MONEY"
  then have "unat v \<le> 2000000000000000" by (simp add: word_le_nat_alt MAX_MONEY_def unat_MAX_SUPPLY)
  moreover have "uint v = int (unat v)" by simp
  ultimately have v: "uint v < 9223372036854775808" by linarith
  have "sint v = signed_take_bit 63 (uint v)" using sint_uint [of v] by simp
  also have "\<dots> = uint v"
  proof (rule signed_take_bit_int_eq_self)
    have "0 \<le> uint v" by simp
    then show "- (2 ^ 63) \<le> uint v" by (rule order_trans [rotated]) simp
    show "uint v < 2 ^ 63" using v by simp
  qed
  finally show ?thesis by simp
qed

text \<open>A step of a block keeps the difference between the staked value and the recorded change.\<close>

definition staked_step :: "ledger \<Rightarrow> ledger \<Rightarrow> bool" where
  "staked_step = (\<lambda>(c, j) (c', j'). chain_params c' = chain_params c \<and> total_staked c' = total_staked c \<and>
     (values_ok (utxo_set c) \<longrightarrow> values_ok (utxo_set c') \<and>
        int (staked (chain_params c) (utxo_set c')) - staked_delta j' =
        int (staked (chain_params c) (utxo_set c)) - staked_delta j))"

interpretation stakes: step_relation staked_step
  by unfold_locales (auto simp: staked_step_def)

interpretation stakes_in: step_relation "\<lambda>s t. staked_step (fst s) (fst t)"
  by unfold_locales (auto intro: stakes.step_refl stakes.step_trans)

lemma values_ok_drop: "values_ok us \<Longrightarrow> values_ok (fmdrop k us)"
  by (auto simp: values_ok_def)

lemma spend_input_staked: "ok_moves (\<lambda>s t. staked_step (fst s) (fst t)) (spend_input lib tx ht ts gov x)"
proof (rule ok_movesI)
  fix s t :: "ledger \<times> u64 \<times> utxo option" and y :: unit
  assume r: "spend_input lib tx ht ts gov x s = (t, Ok y)"
  obtain i inp c j ti si c' j' ti' si' where e: "x = (i, inp)" "s = ((c, j), ti, si)" "t = ((c', j'), ti', si')"
    by (metis surj_pair)
  have "spend_input lib tx ht ts gov (i, inp) ((c, j), ti, si) = (((c', j'), ti', si'), Ok ())"
    using r e by simp
  then show "staked_step (fst s) (fst t)"
  proof (cases rule: spend_input_Ok)
    case missing
    then show ?thesis by (simp add: e stakes.step_refl)
  next
    case (found u)
    have "staked p (utxo_set c) = stake_value p u + staked p (utxo_set c')" for p
      using fm_sum_drop [OF found(1), of "stake_value p"] found(4) by (simp add: staked_def)
    moreover have "sint (u_value u) = int (unat (u_value u))" if "values_ok (utxo_set c)"
      using that found(1) by (intro sint_money) (auto simp: values_ok_def)
    ultimately show ?thesis
      using found(4,6) by (simp add: e staked_step_def stake_value_def values_ok_drop split: if_splits)
  qed
qed

lemma spend_inputs_staked:
  "ok_moves (\<lambda>s t. staked_step (fst s) (fst t)) (spend_inputs lib tx ht ts gov)"
proof (cases "is_coinbase tx")
  case True
  then show ?thesis by (simp add: spend_inputs_def ok_moves_def stakes.step_refl)
next
  case False
  then show ?thesis unfolding spend_inputs_def
    by (simp only: if_False) (rule stakes_in.ok_each, rule spend_input_staked)
qed

lemma add_output_Ok:
  assumes "add_output tx tid ht ts (k, out) (c, j) = ((c', j'), Ok ())"
  obtains (skipped) "c' = c" "j' = j"
  | (added) "c' = c\<lparr>utxo_set := fmupd (tid, of_nat k) (output_utxo tid ht ts (k, out)) (utxo_set c)\<rparr>"
      "staked_delta j' = staked_delta j +
         (if is_stakeable_with (chain_params c) (output_utxo tid ht ts (k, out)) then sint (out_value out) else 0)"
proof (cases "is_utxo_eligible out tx ht")
  case False
  then show ?thesis using assms by (intro skipped) (simp_all add: add_output_def)
next
  case True
  let ?u = "output_utxo tid ht ts (k, out)"
  have added': thesis
    if d: "(if is_stakeable_with (chain_params c) ?u then checked_i64 (staked_delta j + sint (out_value out))
        else Some (staked_delta j)) = Some d" for d
  proof (rule added)
    show "c' = c\<lparr>utxo_set := fmupd (tid, of_nat k) ?u (utxo_set c)\<rparr>"
      using assms True d by (simp add: add_output_def Let_def)
    have "staked_delta j' = d" using assms True d by (auto simp add: add_output_def Let_def)
    then show "staked_delta j' = staked_delta j +
        (if is_stakeable_with (chain_params c) ?u then sint (out_value out) else 0)"
      using d by (simp add: checked_i64_def split: if_splits)
  qed
  show ?thesis
  proof (cases "if is_stakeable_with (chain_params c) ?u then checked_i64 (staked_delta j + sint (out_value out))
      else Some (staked_delta j)")
    case None
    then show ?thesis using assms True by (simp add: add_output_def Let_def)
  qed (rule added')
qed

lemma add_output_staked:
  assumes "add_output tx tid ht ts (k, out) (c, j) = ((c', j'), Ok ())"
    and "fmlookup (utxo_set c) (tid, of_nat k) = None" "out_value out \<le> MAX_MONEY"
  shows "staked_step (c, j) (c', j') \<and>
    (\<forall>key. key \<noteq> (tid, of_nat k) \<longrightarrow> fmlookup (utxo_set c') key = fmlookup (utxo_set c) key)"
  using assms(1)
proof (cases rule: add_output_Ok)
  case skipped
  then show ?thesis by (simp add: stakes.step_refl)
next
  case added
  let ?u = "output_utxo tid ht ts (k, out)"
  have u: "u_value ?u = out_value out" by (simp add: output_utxo_def)
  have "staked p (utxo_set c') = stake_value p ?u + staked p (utxo_set c)" for p
    using fm_sum_upd_new [OF assms(2), of "stake_value p" ?u] added(1) by (simp add: staked_def)
  moreover have "values_ok (utxo_set c) \<Longrightarrow> values_ok (utxo_set c')"
    using assms(3) u added(1) by (auto simp: values_ok_def)
  ultimately show ?thesis
    using added sint_money [OF assms(3)] u by (simp add: staked_step_def stake_value_def)
qed

lemma add_outputs_staked:
  assumes "st_each (add_output tx tid ht ts) (List.enumerate k outs) (c, j) = ((c', j'), Ok ())"
    and "k + length outs \<le> 2 ^ 32" "\<forall>out\<in>set outs. out_value out \<le> MAX_MONEY"
    and "\<And>i. k \<le> i \<Longrightarrow> i < k + length outs \<Longrightarrow> fmlookup (utxo_set c) (tid, of_nat i) = None"
  shows "staked_step (c, j) (c', j')"
  using assms
proof (induction outs arbitrary: k c j)
  case Nil
  then show ?case by (simp add: stakes.step_refl)
next
  case (Cons out outs)
  obtain c1 j1 where 1: "add_output tx tid ht ts (k, out) (c, j) = ((c1, j1), Ok ())"
    and 2: "st_each (add_output tx tid ht ts) (List.enumerate (Suc k) outs) (c1, j1) = ((c', j'), Ok ())"
    using Cons.prems(1) by (auto simp: st_each_eq_Ok simp del: st_each.simps)
  have fr: "fmlookup (utxo_set c) (tid, of_nat k) = None" using Cons.prems(4) [of k] by simp
  have le: "out_value out \<le> MAX_MONEY" using Cons.prems(3) by simp
  have step: "staked_step (c, j) (c1, j1)"
    "key \<noteq> (tid, of_nat k) \<Longrightarrow> fmlookup (utxo_set c1) key = fmlookup (utxo_set c) key" for key
    using add_output_staked [OF 1 fr le] by blast+
  have "fmlookup (utxo_set c1) (tid, of_nat i) = None" if i: "Suc k \<le> i" "i < Suc k + length outs" for i
  proof -
    have "(of_nat i :: u32) \<noteq> of_nat k" using i Cons.prems(2) by (subst of_nat_u32_eq) auto
    then show ?thesis using step(2) [of "(tid, of_nat i)"] Cons.prems(4) [of i] i by simp
  qed
  then have "staked_step (c1, j1) (c', j')" using Cons.prems(2,3) by (intro Cons.IH [OF 2]) auto
  with step(1) show ?case by (rule stakes.step_trans)
qed

lemma apply_transaction_staked:
  assumes "apply_transaction lib bal tx ht ts pm gov (c, j) = ((c', j'), Ok ())"
    and f: "fresh_tx lib tx c" and v: "\<forall>out\<in>set (outputs tx). out_value out \<le> MAX_MONEY" and "ht \<noteq> 0"
  shows "staked_step (c, j) (c', j')"
proof -
  obtain g c1 j1 ti si where
    sp: "spend_inputs lib tx ht ts gov ((c\<lparr>governance := g\<rparr>, j), 0, None) = (((c1, j1), ti, si), Ok ())"
    and fin: "finish_transaction lib bal tx ht ts pm gov ti si (c1, j1) = ((c', j'), Ok ())"
    using assms(1) by (rule apply_transaction_Ok)
  obtain c2 j2 c3 j3 g' where
    cl: "apply_claim lib bal tx ht ts (c1, j1) = ((c2, j2), Ok ())"
    and ao: "add_outputs lib tx ht ts (c2, j2) = ((c3, j3), Ok ())"
    and e: "c' = c3\<lparr>governance := g'\<rparr>" "staked_delta j' = staked_delta j3"
    using fin by (rule finish_transaction_Ok) simp
  have "staked_step (c\<lparr>governance := g\<rparr>, j) (c1, j1)" using ok_movesD [OF spend_inputs_staked sp] by simp
  then have 1: "staked_step (c, j) (c1, j1)" by (simp add: staked_step_def)
  have "undoable {} (c\<lparr>governance := g\<rparr>, j) (c1, j1)"
    using movesD [OF spend_inputs_undoable sp] by (simp add: undoable_in_def)
  then have f1: "fresh_tx lib tx c1"
    by (rule fresh_tx_undoable [rotated]) (use f in \<open>simp_all add: fresh_tx_def\<close>)
  have us: "utxo_set c2 = utxo_set c1" using cl by (rule apply_claim_utxo)
  have 2: "staked_step (c1, j1) (c2, j2)"
  proof (cases "is_legacy_claim tx")
    case True
    then obtain addr where "c2 = c1\<lparr>claimed_addresses := finsert addr (claimed_addresses c1)\<rparr>"
      "staked_delta j2 = staked_delta j1"
      using apply_claim_Ok(2) [OF cl _ assms(4)] by blast
    then show ?thesis by (simp add: staked_step_def)
  next
    case False
    then show ?thesis using apply_claim_Ok(1) [OF cl] by (simp add: stakes.step_refl)
  qed
  have "staked_step (c2, j2) (c3, j3)"
    using f1 v us by (intro add_outputs_staked [OF ao [unfolded add_outputs_def]]) (auto simp: fresh_tx_def)
  then have "staked_step (c, j) (c3, j3)" using 1 2 by (blast intro: stakes.step_trans)
  then show ?thesis using e by (simp add: staked_step_def)
qed

definition outputs_bounded :: "transaction list \<Rightarrow> bool" where
  "outputs_bounded txs \<longleftrightarrow> (\<forall>tx\<in>set txs. \<forall>out\<in>set (outputs tx). out_value out \<le> MAX_MONEY)"

lemma apply_transactions_staked:
  assumes "st_each (\<lambda>tx. apply_transaction lib bal tx ht ts pm gov) txs (c, j) = ((c', j'), Ok ())"
    and "fresh_txs lib txs c" "outputs_bounded txs" "ht \<noteq> 0"
  shows "staked_step (c, j) (c', j')"
  using assms
proof (induction txs arbitrary: c j)
  case Nil
  then show ?case by (simp add: stakes.step_refl)
next
  case (Cons tx txs)
  obtain c1 j1 where a: "apply_transaction lib bal tx ht ts pm gov (c, j) = ((c1, j1), Ok ())"
    and r: "st_each (\<lambda>tx. apply_transaction lib bal tx ht ts pm gov) txs (c1, j1) = ((c', j'), Ok ())"
    using Cons.prems(1) by (auto simp: st_each_eq_Ok simp del: st_each.simps)
  have f: "fresh_tx lib tx c" using Cons.prems(2) by (simp add: fresh_txs_def)
  have "undoable {txid lib tx} (c, j) (c1, j1)" using apply_transaction_undoable [OF f] a by (metis fst_conv)
  then have "fresh_txs lib txs c1" by (rule fresh_txs_tail [OF Cons.prems(2)])
  then have "staked_step (c1, j1) (c', j')" using Cons r by (auto simp: outputs_bounded_def)
  moreover have "staked_step (c, j) (c1, j1)"
    using Cons.prems(3,4) by (intro apply_transaction_staked [OF a f]) (auto simp: outputs_bounded_def)
  ultimately show ?case by (blast intro: stakes.step_trans)
qed

lemma is_stakeable_cong: "min_stake_amount p = min_stake_amount q \<Longrightarrow> is_stakeable_with p = is_stakeable_with q"
  by (simp add: is_stakeable_with_def fun_eq_iff)

lemma stakeable_sum_Ok: "stakeable_sum p us = Ok n \<Longrightarrow> unat n = staked p us"
  by (auto simp: stakeable_sum_def staked_def fm_sum_values stake_value_def [abs_def]
      sum_list_map_filter' Let_def
      unat_of_nat split: if_splits)

lemma begin_staked:
  assumes "begin_governance_block ht ts gov j c = (c0, Ok ())" "previous_params j = chain_params c"
    and "unat (total_staked c) = staked (chain_params c) (utxo_set c)"
  shows "unat (total_staked c0) = staked (chain_params c0) (utxo_set c0)"
proof (cases gov)
  case False
  then show ?thesis using assms by (simp add: begin_governance_block_def)
next
  case True
  obtain g p where b: "begin_block ht (utxo_set c) ts (governance c, chain_params c) = (g, p)" by force
  show ?thesis
  proof (cases "min_stake_amount p = min_stake_amount (chain_params c)")
    case same: True
    have "staked p = staked (chain_params c)"
      using is_stakeable_cong [OF same] by (simp add: staked_def [abs_def] stake_value_def [abs_def])
    moreover have "c0 = c\<lparr>governance := g, chain_params := p\<rparr>"
      using assms(1,2) True b same by (simp add: begin_governance_block_def)
    ultimately show ?thesis using assms(3) by simp
  next
    case False
    then obtain n where "stakeable_sum p (utxo_set c) = Ok n"
      "c0 = c\<lparr>governance := g, chain_params := p, total_staked := n\<rparr>"
      using assms(1,2) True b
      by (cases "stakeable_sum p (utxo_set c)") (auto simp: begin_governance_block_def)
    then show ?thesis using stakeable_sum_Ok by simp
  qed
qed

lemma len64: "LENGTH(64) = 64"
  by simp

lemma unat_of_int_u64:
  assumes "0 \<le> d" "nat d < 2 ^ 64"
  shows "unat (of_int d :: u64) = nat d"
proof -
  have "(of_int d :: u64) = of_nat (nat d)" using assms(1) by simp
  then show ?thesis using assms(2) by (simp only: unat_of_nat) simp
qed

lemma add_staked_exact:
  assumes "int (unat t) + d = int n" "n < 2 ^ 64"
  shows "unat (add_staked t d) = n"
proof (cases "d \<ge> 0")
  case True
  then have "nat d < 2 ^ 64" using assms by linarith
  then have "unat (of_int d :: u64) = nat d" by (rule unat_of_int_u64 [OF True])
  moreover have "unat t + nat d = n" using assms(1) True by linarith
  ultimately have "unat (sat_add t (of_int d)) = min n (2 ^ 64 - 1)" by (simp only: unat_sat_add len64)
  then show ?thesis using assms(2) True by (simp add: add_staked_def)
next
  case False
  have "unat t < 2 ^ 64" using unsigned_less [of t] by simp
  then have "nat (- d) < 2 ^ 64" using assms by linarith
  then have "unat (of_int (- d) :: u64) = nat (- d)" using False by (intro unat_of_int_u64) simp_all
  then show ?thesis using assms False by (simp only: add_staked_def unat_sat_sub if_False)
qed

lemma block_staked:
  assumes a: "apply_block_journaled lib (get_legacy_balance snap) b ht c = (c', Ok j)"
    and "supply_inv snap c" "distinct (map fst snap)" "ht \<noteq> 0"
    and inv: "staked_inv c" and f: "fresh_txs lib (transactions b) c" and v: "outputs_bounded (transactions b)"
  shows "staked_inv c'"
  using a
proof (cases rule: apply_block_Ok)
  case (1 pm c0 c1 j1 j2)
  let ?j = "new_journal c (block_hash lib b) ht"
  note fr = begin_governance_block_frame [OF 1(1)]
  have s0: "unat (total_staked c0) = staked (chain_params c0) (utxo_set c0)"
    using inv by (intro begin_staked [OF 1(1)]) (simp_all add: new_journal_def staked_inv_def)
  have "fresh_txs lib (transactions b) c0" using f fr(2) by (simp add: fresh_txs_def fresh_tx_def)
  then have "staked_step (c0, ?j) (c1, j1)" using v assms(4) by (rule apply_transactions_staked [OF 1(2)])
  then have s1: "chain_params c1 = chain_params c0" "total_staked c1 = total_staked c0" "values_ok (utxo_set c1)"
    "int (staked (chain_params c0) (utxo_set c1)) = int (unat (total_staked c0)) + staked_delta j1"
    using inv fr(2) s0 by (simp_all add: staked_step_def staked_inv_def new_journal_def)
  note cm = commit_block_frame [OF 1(3)]
  have ts: "total_staked c' = add_staked (total_staked c1) (staked_delta j1)"
    using 1(3) by (auto simp: commit_block_def Let_def split: if_splits)
  have "coins (utxo_set c') \<le> 2000000000000000"
    using block_supply [OF a assms(2-4)] by (simp add: supply_inv_def word_le_nat_alt unat_MAX_SUPPLY)
  then have "staked (chain_params c0) (utxo_set c1) < 2 ^ 64"
    using staked_le_coins [of "chain_params c0" "utxo_set c1"] cm(2) by simp
  moreover have "int (unat (total_staked c1)) + staked_delta j1 = int (staked (chain_params c0) (utxo_set c1))"
    using s1(2,4) by simp
  ultimately have "unat (total_staked c') = staked (chain_params c0) (utxo_set c1)"
    unfolding ts by (rule add_staked_exact [rotated])
  then show ?thesis using cm(2,5) s1(1,3) by (simp add: staked_inv_def)
qed

section \<open>A snapshot for the examples\<close>

definition sample_snapshot :: snapshot where
  "sample_snapshot = [(replicate 34 65, 4000000000)]"

end
