(* ===== verification/ChainUndo.thy ===== *)
theory ChainUndo
  imports Chain Supply
begin

text \<open>
  The supply bound over the whole life of a chain: accepted and rejected blocks, forks and
  reorganisations. No freshness of outpoints is needed here: undoing a journal can lose an output
  that was overwritten but never brings one back that was not there.
\<close>

section \<open>Undoing without freshness\<close>

definition sub_utxos :: "(out_point, utxo) fmap \<Rightarrow> (out_point, utxo) fmap \<Rightarrow> bool" where
  "sub_utxos us vs \<longleftrightarrow> (\<forall>k u. fmlookup us k = Some u \<longrightarrow> fmlookup vs k = Some u)"

definition weakly_undoable :: "ledger \<Rightarrow> ledger \<Rightarrow> bool" where
  "weakly_undoable = (\<lambda>(c, j) (c', j'). \<exists>chs claims.
     changes j' = changes j @ chs \<and> j_claimed j' = j_claimed j @ claims \<and>
     (\<forall>us. sub_utxos us (utxo_set c') \<longrightarrow> sub_utxos (foldl undo_change us (rev chs)) (utxo_set c)) \<and>
     claimed_addresses c' |-| fset_of_list claims = claimed_addresses c \<and>
     same_frame c c' \<and> same_journal_head j j')"

lemma sub_utxos_refl [simp]: "sub_utxos us us"
  by (simp add: sub_utxos_def)

lemma sub_utxosD: "sub_utxos us vs \<Longrightarrow> fmlookup us k = Some u \<Longrightarrow> fmlookup vs k = Some u"
  unfolding sub_utxos_def by blast

lemma sub_utxos_trans: "sub_utxos us vs \<Longrightarrow> sub_utxos vs ws \<Longrightarrow> sub_utxos us ws"
  by (simp add: sub_utxos_def)

lemma weakly_refl: "weakly_undoable s s"
  by (cases s) (auto simp: weakly_undoable_def same_journal_head_def intro!: exI [of _ "[]"])

lemma weakly_trans:
  assumes "weakly_undoable s t" "weakly_undoable t u"
  shows "weakly_undoable s u"
proof -
  obtain c j c' j' c'' j'' where s: "s = (c, j)" "t = (c', j')" "u = (c'', j'')"
    by (metis surj_pair)
  from assms(1) obtain a b where 1: "changes j' = changes j @ a" "j_claimed j' = j_claimed j @ b"
    "\<And>us. sub_utxos us (utxo_set c') \<Longrightarrow> sub_utxos (foldl undo_change us (rev a)) (utxo_set c)"
    "claimed_addresses c' |-| fset_of_list b = claimed_addresses c" "same_frame c c'" "same_journal_head j j'"
    unfolding weakly_undoable_def s by auto
  from assms(2) obtain a' b' where 2: "changes j'' = changes j' @ a'" "j_claimed j'' = j_claimed j' @ b'"
    "\<And>us. sub_utxos us (utxo_set c'') \<Longrightarrow> sub_utxos (foldl undo_change us (rev a')) (utxo_set c')"
    "claimed_addresses c'' |-| fset_of_list b' = claimed_addresses c'" "same_frame c' c''" "same_journal_head j' j''"
    unfolding weakly_undoable_def s by auto
  show ?thesis
    unfolding weakly_undoable_def s prod.case
  proof (intro exI conjI allI impI)
    show "changes j'' = changes j @ (a @ a')" "j_claimed j'' = j_claimed j @ (b @ b')"
      using 1(1,2) 2(1,2) by simp_all
    show "sub_utxos (foldl undo_change us (rev (a @ a'))) (utxo_set c)" if "sub_utxos us (utxo_set c'')" for us
      using 1(3) 2(3) that by simp
    show "claimed_addresses c'' |-| fset_of_list (b @ b') = claimed_addresses c"
      using 1(4) 2(4) by auto
    show "same_frame c c''" using 1(5) 2(5) by (rule same_frame_trans)
    show "same_journal_head j j''" using 1(6) 2(6) by (simp add: same_journal_head_def)
  qed
qed

interpretation weak: step_relation weakly_undoable
  by unfold_locales (rule weakly_refl, erule (1) weakly_trans)

interpretation weak_in: step_relation "\<lambda>s t. weakly_undoable (fst s) (fst t)"
  by unfold_locales (auto intro: weakly_refl weakly_trans)

text \<open>Steps that leave the unspent outputs and the claims alone.\<close>

lemma weakly_same:
  assumes "same_frame c c'" "same_journal_head j j'" "utxo_set c' = utxo_set c"
    "claimed_addresses c' = claimed_addresses c" "changes j' = changes j" "j_claimed j' = j_claimed j"
  shows "weakly_undoable (c, j) (c', j')"
  unfolding weakly_undoable_def prod.case using assms by (intro exI [of _ "[]"]) simp

lemma weakly_remove:
  assumes "fmlookup (utxo_set c) k = Some u"
  shows "weakly_undoable (c, j) (c\<lparr>utxo_set := fmdrop k (utxo_set c)\<rparr>,
    j\<lparr>changes := changes j @ [Utxo_Removed k u], staked_delta := d\<rparr>)"
  unfolding weakly_undoable_def prod.case
  by (intro exI [of _ "[Utxo_Removed k u]"] exI [of _ "[]"])
    (use assms in \<open>auto simp: sub_utxos_def undo_change_def same_frame_def same_journal_head_def\<close>)

lemma weakly_add:
  "weakly_undoable (c, j) (c\<lparr>utxo_set := fmupd k u (utxo_set c)\<rparr>,
    j\<lparr>staked_delta := d, changes := changes j @ [Utxo_Added k]\<rparr>)"
  unfolding weakly_undoable_def prod.case
  by (intro exI [of _ "[Utxo_Added k]"] exI [of _ "[]"])
    (auto simp: sub_utxos_def undo_change_def same_frame_def same_journal_head_def split: if_splits)

lemma weakly_claim:
  "addr |\<notin>| claimed_addresses c \<Longrightarrow> weakly_undoable (c, j)
     (c\<lparr>claimed_addresses := finsert addr (claimed_addresses c)\<rparr>, j\<lparr>j_claimed := j_claimed j @ [addr]\<rparr>)"
  unfolding weakly_undoable_def prod.case
  by (intro exI [of _ "[]"] exI [of _ "[addr]"]) (auto simp: same_frame_def same_journal_head_def)

lemma spend_input_weak: "moves (\<lambda>s t. weakly_undoable (fst s) (fst t)) (spend_input lib tx ht ts gov x)"
  unfolding moves_def
proof
  fix s :: "ledger \<times> u64 \<times> utxo option"
  obtain idx inp where x: "x = (idx, inp)" by (cases x)
  obtain c j ti si where s: "s = ((c, j), ti, si)" by (metis surj_pair)
  let ?k = "(prev_txid inp, prev_vout inp)"
  show "weakly_undoable (fst s) (fst (fst (spend_input lib tx ht ts gov x s)))"
  proof (cases "fmlookup (utxo_set c) ?k")
    case None
    then show ?thesis by (simp add: spend_input_def x s Let_def weakly_refl)
  next
    case (Some u)
    have r: "weakly_undoable (c, j) (c\<lparr>utxo_set := fmdrop ?k (utxo_set c)\<rparr>,
        j\<lparr>changes := changes j @ [Utxo_Removed ?k u]\<rparr>)"
      using weakly_remove [OF Some, of j "staked_delta j"] by simp
    show ?thesis
      using r weakly_remove [OF Some, of j] weakly_refl [of "(c, j)"]
      by (simp add: spend_input_def x s Let_def Some split: result.split option.split)
  qed
qed

lemma spend_inputs_weak: "moves (\<lambda>s t. weakly_undoable (fst s) (fst t)) (spend_inputs lib tx ht ts gov)"
  unfolding spend_inputs_def
  by (auto intro: weak_in.moves_lift weak_in.moves_each spend_input_weak)

lemma apply_claim_weak: "moves weakly_undoable (apply_claim lib bal tx ht ts)"
proof -
  have "moves weakly_undoable (record_claim lib bal tx ht)"
    unfolding moves_def record_claim_def
    by (auto simp: weakly_refl weakly_claim split: option.split result.split)
  then show ?thesis unfolding apply_claim_def
    by (auto intro: weak.moves_then weak.moves_lift weak.moves_require)
qed

lemma add_outputs_weak: "moves weakly_undoable (add_outputs lib tx ht ts)"
proof -
  have "moves weakly_undoable (add_output tx tid ht ts x)" for tid x
    unfolding moves_def add_output_def
    by (auto simp: weakly_refl weakly_add weakly_add [where d = "staked_delta j" and j = j for j, simplified]
        Let_def split: option.split prod.split)
  then show ?thesis unfolding add_outputs_def by (intro weak.moves_each)
qed

lemma weakly_governance: "weakly_undoable (c, j) (c\<lparr>governance := g\<rparr>, j)"
  by (rule weakly_same) (simp_all add: same_frame_def same_journal_head_def)

lemma move_stake_lock_weak: "moves weakly_undoable (move_stake_lock lib tx ht gov si)"
  unfolding moves_def move_stake_lock_def
  by (cases gov; cases si) (simp_all add: Let_def weakly_refl weakly_governance split: prod.split)

lemma process_governance_weak: "moves weakly_undoable (process_governance lib tx ht ts gov)"
  unfolding moves_def process_governance_def
  by (cases gov) (simp_all add: Let_def weakly_refl weakly_governance split: prod.split list.split)

lemma add_supply_weak: "moves weakly_undoable (add_supply tx ti)"
  unfolding add_supply_def
  by (rule weak.moves_update) (auto intro: weakly_same simp: same_journal_head_def)

lemmas governance_weak = move_stake_lock_weak process_governance_weak add_supply_weak

lemma finish_transaction_weak: "moves weakly_undoable (finish_transaction lib bal tx ht ts pm gov ti si)"
  unfolding finish_transaction_def
  by (intro weak.moves_then apply_claim_weak add_outputs_weak weak.moves_require weak.moves_lift governance_weak)

lemma apply_transaction_weak: "moves weakly_undoable (apply_transaction lib bal tx ht ts pm gov)"
proof -
  have "moves weakly_undoable (apply_transaction_journaled lib bal tx ht ts pm gov)"
    unfolding moves_def
  proof
    fix s
    obtain s1 ti si r where sp: "spend_inputs lib tx ht ts gov (s, 0, None) = ((s1, ti, si), r)"
      by (metis surj_pair)
    have "weakly_undoable s s1" using movesD [OF spend_inputs_weak sp] by simp
    moreover have "weakly_undoable s1 (fst (finish_transaction lib bal tx ht ts pm gov ti si s1))"
      using finish_transaction_weak unfolding moves_def by blast
    ultimately show "weakly_undoable s (fst (apply_transaction_journaled lib bal tx ht ts pm gov s))"
      by (cases r) (auto simp: apply_transaction_journaled_def sp intro: weakly_trans)
  qed
  then show ?thesis unfolding apply_transaction_def by (intro weak.moves_then governance_weak)
qed

section \<open>The money of a chain and its history\<close>

definition money_ok :: "snapshot \<Rightarrow> (out_point, utxo) fmap \<Rightarrow> bytes fset \<Rightarrow> u64 \<Rightarrow> bool" where
  "money_ok snap us cl s \<longleftrightarrow> coins us + unclaimed snap (fset cl) \<le> unat s \<and> s \<le> MAX_SUPPLY"

text \<open>The bound holds now and after undoing any number of journals, newest first.\<close>

fun hist :: "snapshot \<Rightarrow> block_journal list \<Rightarrow> (out_point, utxo) fmap \<Rightarrow> bytes fset \<Rightarrow> u64 \<Rightarrow> bool" where
  "hist snap [] us cl s = money_ok snap us cl s"
| "hist snap (j # js) us cl s = (money_ok snap us cl s \<and> (j_height j = 0 \<or>
     hist snap js (foldl undo_change us (rev (changes j))) (cl |-| fset_of_list (j_claimed j)) (previous_supply j)))"

definition hist_inv :: "snapshot \<Rightarrow> chain \<Rightarrow> bool" where
  "hist_inv snap c = hist snap (rev (journals c)) (utxo_set c) (claimed_addresses c) (total_supply c)"

lemma hist_money: "hist snap js us cl s \<Longrightarrow> money_ok snap us cl s"
  by (cases js) auto

lemma hist_inv_supply: "hist_inv snap c \<Longrightarrow> supply_inv snap c"
  unfolding hist_inv_def supply_inv_def unclaimed_in_def by (drule hist_money) (simp add: money_ok_def)

lemma coins_mono:
  assumes "sub_utxos us vs"
  shows "coins us \<le> coins vs"
proof -
  have "fmdom' us \<subseteq> fmdom' vs" using assms by (auto simp: sub_utxos_def fmlookup_dom'_iff)
  moreover have "the (fmlookup us k) = the (fmlookup vs k)" if "k \<in> fmdom' us" for k
  proof -
    from that obtain u where "fmlookup us k = Some u" by (auto simp: fmlookup_dom'_iff)
    then show ?thesis using sub_utxosD [OF assms] by simp
  qed
  ultimately have "coins us = (\<Sum>k\<in>fmdom' us. coin_value (the (fmlookup vs k)))"
    unfolding coins_def fm_sum_def by (intro sum.cong) auto
  also have "\<dots> \<le> coins vs"
    unfolding coins_def fm_sum_def using \<open>fmdom' us \<subseteq> fmdom' vs\<close> by (intro sum_mono2) auto
  finally show ?thesis .
qed

lemma undo_change_mono: "sub_utxos us vs \<Longrightarrow> sub_utxos (undo_change us ch) (undo_change vs ch)"
  by (auto simp: sub_utxos_def undo_change_def split: utxo_change.split if_splits)

lemma undo_changes_mono: "sub_utxos us vs \<Longrightarrow> sub_utxos (foldl undo_change us chs) (foldl undo_change vs chs)"
  by (induction chs arbitrary: us vs) (auto intro: undo_change_mono)

lemma hist_mono: "hist snap js vs cl s \<Longrightarrow> sub_utxos us vs \<Longrightarrow> hist snap js us cl s"
proof (induction js arbitrary: us vs cl s)
  case Nil
  then show ?case using coins_mono [of us vs] by (simp add: money_ok_def)
next
  case (Cons j js)
  have h: "money_ok snap vs cl s" "j_height j = 0 \<or> hist snap js (foldl undo_change vs (rev (changes j)))
      (cl |-| fset_of_list (j_claimed j)) (previous_supply j)"
    using Cons.prems(1) by simp_all
  have "money_ok snap us cl s" using h(1) coins_mono [OF Cons.prems(2)] by (simp add: money_ok_def)
  with h(2) Cons.IH [OF _ undo_changes_mono [OF Cons.prems(2)]] show ?case by auto
qed

lemma hist_take: "hist snap js us cl s \<Longrightarrow> hist snap (take n js) us cl s"
proof (induction js arbitrary: n us cl s)
  case (Cons j js)
  then show ?case by (cases n) auto
qed simp

section \<open>Blocks\<close>

text \<open>What the journal of a block promises about the chain before it, applied or not.\<close>

definition undoes :: "u32 \<Rightarrow> chain \<Rightarrow> chain \<Rightarrow> block_journal \<Rightarrow> bool" where
  "undoes ht c c' j \<longleftrightarrow> j_height j = ht \<and> sub_utxos (foldl undo_change (utxo_set c') (rev (changes j))) (utxo_set c) \<and>
     claimed_addresses c' |-| fset_of_list (j_claimed j) = claimed_addresses c \<and>
     previous_supply j = total_supply c \<and> same_static c c'"

lemma apply_block_body_undoes:
  assumes b: "apply_block_body lib bal b ht pm gov (c, new_journal c h ht) = ((c1, j1), r)"
  shows "undoes ht c c1 j1"
proof -
  let ?j = "new_journal c h ht" and ?ts = "timestamp (header b)"
  let ?txs = "st_each (\<lambda>tx. apply_transaction lib bal tx ht ?ts pm gov) (transactions b)"
  obtain c0 r0 where g: "begin_governance_block ht ?ts gov ?j c = (c0, r0)" by fastforce
  note fr = begin_governance_block_frame [OF g]
  have u0: "undoes ht c c0 ?j" using fr by (simp add: undoes_def new_journal_def)
  obtain c2 j2 r2 where tx: "?txs (c0, ?j) = ((c2, j2), r2)" by (metis surj_pair)
  have "moves weakly_undoable ?txs" by (intro weak.moves_each apply_transaction_weak)
  from movesD [OF this tx] obtain chs claims where
    u: "changes j2 = chs" "j_claimed j2 = claims"
      "sub_utxos (foldl undo_change (utxo_set c2) (rev chs)) (utxo_set c0)"
      "claimed_addresses c2 |-| fset_of_list claims = claimed_addresses c0" "same_frame c0 c2"
      "same_journal_head ?j j2"
    by (auto simp: weakly_undoable_def new_journal_def)
  have "same_static c c2" using fr(1) same_frame_static [OF u(5)] by (rule same_static_trans)
  then have u2: "undoes ht c c2 j2"
    using u fr(2,3) by (simp add: undoes_def same_journal_head_def new_journal_def)
  obtain c3 j3 r3 where cm: "commit_block lib (c2, j2) = ((c3, j3), r3)" by (metis surj_pair)
  have u3: "undoes ht c c3 j3"
    using u2 commit_block_frame [OF cm]
    by (auto simp: undoes_def same_journal_head_def intro: same_static_trans)
  have "(c1, j1) \<in> {(c0, ?j), (c2, j2), (c3, j3)}"
    using b
    by (cases r0; cases r2)
      (simp_all add: apply_block_body_def st_then_def st_bind_def on_chain_def g tx cm)
  then show ?thesis using u0 u2 u3 by auto
qed

lemma same_staticD:
  assumes "same_static c c'"
  shows "journals c' = journals c" "height_index c' = height_index c" "blocks c' = blocks c"
    "headers c' = headers c" "parent_map c' = parent_map c" "block_heights c' = block_heights c"
    "cumulative_work c' = cumulative_work c" "tx_index c' = tx_index c"
    "max_reorg_depth c' = max_reorg_depth c" "block_body_cache c' = block_body_cache c"
  using assms unfolding same_static_def by (cases c; cases c'; simp)+

lemma undo_claims_minus: "undo_claims s cs = s |-| fset_of_list cs"
  unfolding undo_claims_def by (induction cs arbitrary: s) auto

lemma rollback_journal_Ok:
  assumes "rollback_journal j c = (c', Ok ())"
  shows "utxo_set c' = foldl undo_change (utxo_set c) (rev (changes j))"
    "claimed_addresses c' = claimed_addresses c |-| fset_of_list (j_claimed j)"
    "total_supply c' = previous_supply j" "same_static c c'"
    "total_staked c' = previous_staked j" "chain_params c' = previous_params j"
proof -
  let ?c1 = "c\<lparr>chain_params := previous_params j, total_supply := previous_supply j,
      total_staked := previous_staked j\<rparr>"
  obtain g where c': "c' = rollback_changes (changes j) (j_claimed j) (?c1\<lparr>governance := g\<rparr>)"
  proof (cases "previous_governance j")
    case None
    then show ?thesis using assms that [of "governance c"]
      by (simp add: rollback_journal_def st_then_eq_Ok restore_governance_def)
  next
    case (Some u)
    then obtain g where "restore_undo u (governance c) = Some g"
      using assms by (cases "restore_undo u (governance c)")
        (auto simp: rollback_journal_def st_then_eq_Ok restore_governance_def)
    then show ?thesis using assms Some that [of g]
      by (simp add: rollback_journal_def st_then_eq_Ok restore_governance_def)
  qed
  have "undo_claims (claimed_addresses c) (rev (j_claimed j)) = claimed_addresses c |-| fset_of_list (j_claimed j)"
    by (simp add: undo_claims_minus fset_of_list.rep_eq flip: fset_inject)
  then show "utxo_set c' = foldl undo_change (utxo_set c) (rev (changes j))"
    "claimed_addresses c' = claimed_addresses c |-| fset_of_list (j_claimed j)"
    "total_supply c' = previous_supply j" "same_static c c'"
    "total_staked c' = previous_staked j" "chain_params c' = previous_params j"
    by (simp_all add: c' rollback_changes_eq same_static_def)
qed

lemma apply_block_undoes:
  assumes "apply_block_journaled lib bal b ht c = (c', Ok j)"
  shows "undoes ht c c' j"
proof -
  let ?gov = "governance_active c ht" and ?j = "new_journal c (block_hash lib b) ht"
  obtain pm where pm: "parent_stake_modifier c b ht = Ok pm"
    using assms by (auto simp: apply_block_journaled_def Let_def split: result.splits)
  obtain c1 j1 r where b: "apply_block_body lib bal b ht pm ?gov (c, ?j) = ((c1, j1), r)"
    by (metis surj_pair)
  have "r = Ok ()" "c' = c1" "changes j = changes j1" "j_claimed j = j_claimed j1"
    "previous_supply j = previous_supply j1" "j_height j = j_height j1"
    using assms pm b
    by (auto simp: apply_block_journaled_def rollback_unless_panic_def Let_def
        split: result.splits node_error.splits prod.splits)
  then show ?thesis using apply_block_body_undoes [OF b] by (simp add: undoes_def)
qed

lemma apply_block_failed:
  assumes "apply_block_journaled lib bal b ht c = (c', Err e)" "\<not> is_panic e"
  shows "sub_utxos (utxo_set c') (utxo_set c)" "claimed_addresses c' = claimed_addresses c"
    "total_supply c' = total_supply c" "same_static c c'"
proof -
  let ?gov = "governance_active c ht" and ?j = "new_journal c (block_hash lib b) ht"
  have "sub_utxos (utxo_set c') (utxo_set c) \<and> claimed_addresses c' = claimed_addresses c \<and>
    total_supply c' = total_supply c \<and> same_static c c'"
  proof (cases "parent_stake_modifier c b ht")
    case (Err x)
    then show ?thesis using assms(1) by (simp add: apply_block_journaled_def Let_def)
  next
    case (Ok pm)
    obtain c1 j1 r where b: "apply_block_body lib bal b ht pm ?gov (c, ?j) = ((c1, j1), r)"
      by (metis surj_pair)
    define j2 where "j2 = j1\<lparr>previous_governance :=
      if ?gov then Some (undo_since (governance c1) (governance c)) else None\<rparr>"
    obtain e1 where r: "r = Err e1" and ru: "rollback_unless_panic e1 j2 c1 = (c', Err e)"
      using assms(1) Ok b
      by (cases r) (auto simp: apply_block_journaled_def Let_def j2_def)
    obtain c2 r2 where rj: "rollback_journal j2 c1 = (c2, r2)" by fastforce
    have rb: "rollback_journal j2 c1 = (c', Ok ())"
    proof (cases r2)
      case (Ok u)
      then show ?thesis using ru assms(2) rj
        by (auto simp: rollback_unless_panic_def is_panic_def split: node_error.splits)
    next
      case (Err p)
      then have "is_panic p" using rj
        by (auto simp: rollback_journal_def restore_governance_def st_then_def st_bind_def st_update_def
            is_panic_def split: option.splits)
      then show ?thesis using ru assms(2) rj Err
        by (auto simp: rollback_unless_panic_def is_panic_def split: node_error.splits)
    qed
    have "undoes ht c c1 j2" using apply_block_body_undoes [OF b] by (simp add: undoes_def j2_def)
    then show ?thesis using rollback_journal_Ok [OF rb] by (auto simp: undoes_def intro: same_static_trans)
  qed
  then show "sub_utxos (utxo_set c') (utxo_set c)" "claimed_addresses c' = claimed_addresses c"
    "total_supply c' = total_supply c" "same_static c c'" by auto
qed

section \<open>The chain manager\<close>

text \<open>The fields the bound depends on; bookkeeping and pruning leave them alone.\<close>

definition money_view :: "chain \<Rightarrow> (out_point, utxo) fmap \<times> bytes fset \<times> u64 \<times> block_journal list" where
  "money_view c = (utxo_set c, claimed_addresses c, total_supply c, journals c)"

lemma hist_inv_view: "hist_inv snap c \<Longrightarrow> money_view c' = money_view c \<Longrightarrow> hist_inv snap c'"
  by (simp add: money_view_def hist_inv_def)

lemma money_view_simps [simp]:
  "money_view (index_block_transactions lib h b c) = money_view c"
  "money_view (register_block h p ht w b c) = money_view c"
  "money_view (forget_block h c) = money_view c"
  "money_view (c\<lparr>height_index := hi\<rparr>) = money_view c"
  "money_view (prune_main_body c) = money_view c"
  by (simp_all add: money_view_def index_block_transactions_def register_block_def forget_block_def
      prune_main_body_def Let_def split: option.split)

lemma prune_fork_view [simp]: "money_view (prune_fork_bodies order c) = money_view c"
proof (induction order c rule: prune_fork_bodies.induct)
  case (1 order c)
  then show ?case by (subst prune_fork_bodies.simps) simp
qed

lemma prune_view [simp]: "money_view (prune_bodies order c) = money_view c"
  by (simp add: prune_bodies_def)

lemma hist_inv_applied:
  assumes "apply_block_journaled lib (get_legacy_balance snap) b ht c = (c', Ok j)"
    and "hist_inv snap c" "distinct (map fst snap)" "ht \<noteq> 0"
  shows "hist_inv snap (c'\<lparr>journals := journals c' @ [j]\<rparr>)"
proof -
  have u: "sub_utxos (foldl undo_change (utxo_set c') (rev (changes j))) (utxo_set c)"
    "claimed_addresses c' |-| fset_of_list (j_claimed j) = claimed_addresses c"
    "previous_supply j = total_supply c" "same_static c c'"
    using apply_block_undoes [OF assms(1)] by (simp_all add: undoes_def)
  have "supply_inv snap c'" using block_supply [OF assms(1) hist_inv_supply [OF assms(2)] assms(3,4)] .
  then have "money_ok snap (utxo_set c') (claimed_addresses c') (total_supply c')"
    by (simp add: supply_inv_def money_ok_def unclaimed_in_def)
  moreover have "hist snap (rev (journals c)) (foldl undo_change (utxo_set c') (rev (changes j)))
      (claimed_addresses c) (total_supply c)"
    using assms(2) u(1) unfolding hist_inv_def by (rule hist_mono)
  ultimately show ?thesis using u same_staticD(1) [OF u(4)] by (simp add: hist_inv_def)
qed

lemma hist_inv_sub:
  assumes "hist_inv snap c" "sub_utxos (utxo_set c') (utxo_set c)" "claimed_addresses c' = claimed_addresses c"
    "total_supply c' = total_supply c" "journals c' = journals c"
  shows "hist_inv snap c'"
  using hist_mono [OF assms(1) [unfolded hist_inv_def] assms(2)] assms(3-) by (simp add: hist_inv_def)

lemma hist_inv_failed:
  assumes "apply_block_journaled lib bal b ht c = (c', Err e)" "\<not> is_panic e" "hist_inv snap c"
  shows "hist_inv snap c'"
  using hist_inv_sub [OF assms(3) apply_block_failed(1-3) [OF assms(1,2)]]
    same_staticD(1) [OF apply_block_failed(4) [OF assms(1,2)]] .

lemma hist_inv_rolled_back:
  assumes "apply_block_journaled lib bal b ht c = (c1, Ok j)" "rollback_journal j c1 = (c2, Ok ())" "hist_inv snap c"
  shows "hist_inv snap c2"
proof -
  note rb = rollback_journal_Ok [OF assms(2)]
  have u: "undoes ht c c1 j" using apply_block_undoes [OF assms(1)] .
  then have "same_static c c2" using rb(4) by (auto simp: undoes_def intro: same_static_trans)
  then have "journals c2 = journals c" by (rule same_staticD(1))
  then show ?thesis using u rb by (intro hist_inv_sub [OF assms(3)]) (simp_all add: undoes_def)
qed

lemma hist_inv_trim: "hist_inv snap c \<Longrightarrow> hist_inv snap (trim_journals c)"
  by (simp add: hist_inv_def trim_journals_def rev_drop hist_take)

lemma foldl_minus_claims: "foldl (\<lambda>s a. s |-| {|a|}) (s :: bytes fset) cs = s |-| fset_of_list cs"
  using undo_claims_minus unfolding undo_claims_def .

lemma rollback_one_block_Ok:
  assumes "rollback_one_block lib c = (c', Ok r)"
  obtains js j where "journals c = js @ [j]" "journals c' = js"
    "utxo_set c' = foldl undo_change (utxo_set c) (rev (changes j))"
    "claimed_addresses c' = claimed_addresses c |-| fset_of_list (j_claimed j)"
    "total_supply c' = previous_supply j" "height_index c' = butlast (height_index c)"
    "parent_map c' = parent_map c" "block_heights c' = block_heights c" "headers c' = headers c"
    "cumulative_work c' = cumulative_work c" "blocks c' = blocks c"
    "total_staked c' = previous_staked j" "chain_params c' = previous_params j"
proof -
  have ne: "journals c \<noteq> []" using assms by (auto simp: rollback_one_block_def)
  then obtain js j where js: "journals c = js @ [j]" by (metis append_butlast_last_id)
  define c1 where "c1 = c\<lparr>journals := js, utxo_set := foldl undo_change (utxo_set c) (rev (changes j)),
      claimed_addresses := claimed_addresses c |-| fset_of_list (j_claimed j),
      total_supply := previous_supply j, total_staked := previous_staked j, chain_params := previous_params j\<rparr>"
  obtain c2 r2 where g: "restore_governance (previous_governance j) c1 = (c2, r2)" by fastforce
  have c2: "\<exists>gv. c2 = c1\<lparr>governance := gv\<rparr>"
    using g by (auto simp: restore_governance_def split: option.splits intro: exI [of _ "governance c1"])
  have "c' = (remove_block_transactions lib (j_block_hash j) c2)\<lparr>height_index :=
      butlast (height_index (remove_block_transactions lib (j_block_hash j) c2))\<rparr>"
    using assms g by (cases r2) (simp_all add: rollback_one_block_def js Let_def foldl_minus_claims flip: c1_def)
  then show ?thesis using c2 that [OF js] by (auto simp: remove_block_transactions_def c1_def)
qed

lemma hist_inv_rollback:
  "rollback_one_block lib c = (c', Ok r) \<Longrightarrow> hist_inv snap c \<Longrightarrow> j_height (last (journals c)) \<noteq> 0 \<Longrightarrow>
     hist_inv snap c'"
  by (erule rollback_one_block_Ok) (simp add: hist_inv_def)

lemma fork_height_nonzero:
  assumes "unat (fh :: u32) + 1 + i < 2 ^ 32"
  shows "fh + 1 + of_nat i \<noteq> 0"
proof -
  have "fh + 1 + of_nat i = (of_nat (unat fh + 1 + i) :: u32)" by simp
  then have "unat (fh + 1 + of_nat i) = unat fh + 1 + i" using assms by (simp only: unat_of_nat) simp
  then show ?thesis by (metis unat_0 add_is_0 one_neq_zero)
qed

lemma apply_fork_block_Ok:
  assumes "apply_fork_block lib bal fh (i, h) c = (c', Ok af)"
  obtains b c1 j where "unat fh + 1 + i < 2 ^ 32" "fmlookup (blocks c) h = Some b"
    "apply_block_journaled lib bal b (fh + 1 + of_nat i) c = (c1, Ok j)"
    "c' = (index_block_transactions lib h b c1)\<lparr>journals := journals c1 @ [j],
       height_index := height_index c1 @ [h]\<rparr>"
proof -
  have lt: "unat fh + 1 + i < 2 ^ 32" using assms by (auto simp: apply_fork_block_def split: if_splits)
  then obtain b where b: "fmlookup (blocks c) h = Some b"
    using assms by (cases "fmlookup (blocks c) h") (auto simp: apply_fork_block_def)
  obtain c1 r where a: "apply_block_journaled lib bal b (fh + 1 + of_nat i) c = (c1, r)" by fastforce
  then obtain j where r: "r = Ok j"
    using assms lt b by (cases r) (auto simp: apply_fork_block_def Let_def)
  have "journals (index_block_transactions lib h b c1) = journals c1"
    "height_index (index_block_transactions lib h b c1) = height_index c1"
    by (simp_all add: index_block_transactions_def)
  then have "c' = (index_block_transactions lib h b c1)\<lparr>journals := journals c1 @ [j],
      height_index := height_index c1 @ [h]\<rparr>"
    using assms lt b a r by (auto simp: apply_fork_block_def Let_def split: if_splits prod.splits)
  then show ?thesis using that lt b a r by blast
qed

lemma hist_inv_apply_fork:
  assumes "apply_fork_block lib (get_legacy_balance snap) fh x c = (c', Ok af)"
    and "hist_inv snap c" "distinct (map fst snap)"
  shows "hist_inv snap c'"
proof -
  obtain i h where x: "x = (i, h)" by (cases x)
  from assms(1) [unfolded x] show ?thesis
  proof (cases rule: apply_fork_block_Ok)
    case (1 b c1 j)
    have "hist_inv snap (c1\<lparr>journals := journals c1 @ [j]\<rparr>)"
      using hist_inv_applied [OF 1(3) assms(2,3) fork_height_nonzero [OF 1(1)]] .
    moreover have "money_view c' = money_view (c1\<lparr>journals := journals c1 @ [j]\<rparr>)"
      by (simp add: 1(4) money_view_def index_block_transactions_def)
    ultimately show ?thesis by (rule hist_inv_view)
  qed
qed

text \<open>What every applied branch block keeps, the whole branch keeps.\<close>

lemma collect_keeps:
  assumes "st_collect f xs c = (c', Ok ys)" "P c"
    and one: "\<And>x c c' y. f x c = (c', Ok y) \<Longrightarrow> P c \<Longrightarrow> P c'"
  shows "P c'"
  using assms(1,2)
proof (induction xs arbitrary: c ys)
  case (Cons x xs)
  obtain c1 r1 where a: "f x c = (c1, r1)" by fastforce
  obtain y where r1: "r1 = Ok y" using Cons.prems(1) a by (cases r1) auto
  obtain c2 r2 where s: "st_collect f xs c1 = (c2, r2)" by fastforce
  obtain zs where "r2 = Ok zs" "c2 = c'" using Cons.prems(1) a r1 s by (cases r2) auto
  moreover have "P c1" by (rule one [OF a [unfolded r1] Cons.prems(2)])
  ultimately show ?case using Cons.IH [of c1 zs] s by simp
qed simp

lemma hist_inv_collect:
  "st_collect (apply_fork_block lib (get_legacy_balance snap) fh) xs c = (c', Ok afs) \<Longrightarrow>
     hist_inv snap c \<Longrightarrow> distinct (map fst snap) \<Longrightarrow> hist_inv snap c'"
  by (erule collect_keeps) (auto intro: hist_inv_apply_fork)

end
