(* ===== verification/ChainProps.thy ===== *)
theory ChainProps
  imports ChainUndo
begin

text \<open>
  The structure of the chain manager: the main chain and every known block are linked to genesis by
  parents of decreasing height, the journals belong to the top of the main chain, and no known
  block is higher than the tip. So the loops over parent links end and the tip has the most work.
\<close>

section \<open>Well-formed indexes\<close>

text \<open>Every known block but genesis has a known parent one below it, and its work is its height plus one.\<close>

definition tree_ok :: "bytes \<Rightarrow> chain \<Rightarrow> bool" where
  "tree_ok g c \<longleftrightarrow> fmlookup (block_heights c) g = Some 0 \<and> fmlookup (parent_map c) g = None \<and>
     (\<forall>h n. fmlookup (block_heights c) h = Some n \<longrightarrow> h = g \<or> (\<exists>p. fmlookup (parent_map c) h = Some p)) \<and>
     (\<forall>h p. fmlookup (parent_map c) h = Some p \<longrightarrow>
        (\<exists>m. fmlookup (block_heights c) p = Some m \<and> m \<noteq> - 1 \<and> fmlookup (block_heights c) h = Some (m + 1))) \<and>
     (\<forall>h. fmlookup (cumulative_work c) h = map_option (\<lambda>n. ucast n + 1) (fmlookup (block_heights c) h)) \<and>
     fmdom (headers c) = fmdom (block_heights c) \<and> fmdom (blocks c) |\<subseteq>| fmdom (block_heights c)"

text \<open>The main chain, by height, each block the child of the one before.\<close>

definition main_ok :: "bytes list \<Rightarrow> chain \<Rightarrow> bool" where
  "main_ok hi c \<longleftrightarrow> hi \<noteq> [] \<and> length hi \<le> 2 ^ 32 \<and>
     (\<forall>i < length hi. fmlookup (block_heights c) (hi ! i) = Some (of_nat i)) \<and>
     (\<forall>i. Suc i < length hi \<longrightarrow> fmlookup (parent_map c) (hi ! Suc i) = Some (hi ! i))"

definition journals_ok :: "nat \<Rightarrow> block_journal list \<Rightarrow> bool" where
  "journals_ok len js \<longleftrightarrow> length js \<le> len \<and>
     (\<forall>k < length js. j_height (rev js ! k) = of_nat (len - 1 - k))"

definition chain_wf :: "chain \<Rightarrow> bool" where
  "chain_wf c \<longleftrightarrow> main_ok (height_index c) c \<and> tree_ok (hd (height_index c)) c \<and>
     journals_ok (length (height_index c)) (journals c)"

definition tip_highest :: "chain \<Rightarrow> bool" where
  "tip_highest c \<longleftrightarrow> (\<forall>h n. fmlookup (block_heights c) h = Some n \<longrightarrow> n \<le> best_height c)"

lemma tree_okD:
  assumes "tree_ok g c"
  shows "fmlookup (block_heights c) g = Some 0" "fmlookup (parent_map c) g = None"
    "fmlookup (block_heights c) h = Some n \<Longrightarrow> h \<noteq> g \<Longrightarrow> \<exists>p. fmlookup (parent_map c) h = Some p"
    "fmlookup (parent_map c) h = Some p \<Longrightarrow> \<exists>m. fmlookup (block_heights c) p = Some m \<and> m \<noteq> - 1 \<and>
       fmlookup (block_heights c) h = Some (m + 1)"
    "fmlookup (cumulative_work c) h = map_option (\<lambda>n. ucast n + 1) (fmlookup (block_heights c) h)"
  using assms unfolding tree_ok_def by blast+

lemma main_okD:
  assumes "main_ok hi c"
  shows "hi \<noteq> []" "length hi \<le> 2 ^ 32" "i < length hi \<Longrightarrow> fmlookup (block_heights c) (hi ! i) = Some (of_nat i)"
    "Suc i < length hi \<Longrightarrow> fmlookup (parent_map c) (hi ! Suc i) = Some (hi ! i)"
  using assms unfolding main_ok_def by blast+

lemma unat_Suc_u32: "(m :: u32) \<noteq> - 1 \<Longrightarrow> unat (m + 1) = Suc (unat m)"
proof -
  assume "m \<noteq> - 1"
  then have "1 + m \<noteq> 0" by (metis add.commute eq_neg_iff_add_eq_0)
  then show ?thesis by (metis add.commute unatSuc)
qed

lemma unat_u32_less: "unat (m :: u32) < 4294967296"
proof -
  have "unat m < 2 ^ LENGTH(32)" by (rule unsigned_less)
  then show ?thesis by simp
qed

lemma unat_ucast_u64: "unat (ucast (m :: u32) :: u64) = unat m"
  using unat_u32_less [of m] by (simp add: unsigned_ucast_eq take_bit_nat_eq_self)

lemma unat_below_max: "(m :: u32) \<noteq> - 1 \<Longrightarrow> unat m < 2 ^ 32 - 1"
  using unat_Suc_u32 [of m] unat_u32_less [of "m + 1"] by simp

lemma ucast_Suc_u32: "(m :: u32) \<noteq> - 1 \<Longrightarrow> ucast (m + 1) = (ucast m + 1 :: u64)"
  by (rule word_unat_eq_iff [THEN iffD2])
    (use unat_below_max [of m] in \<open>simp add: unat_Suc_u32 unat_ucast_u64 unat_word_ariths\<close>)

section \<open>The loops over parent links\<close>

lemma ancestors_step:
  "h \<noteq> g \<Longrightarrow> fmlookup pm h = Some p \<Longrightarrow> ancestors_from pm g h = map_option (Cons h) (ancestors_from pm g p)"
  by (subst ancestors_from.simps) (simp add: map_option_case split: option.split)

lemma ancestors_genesis: "ancestors_from pm g g = Some [g]"
  by (subst ancestors_from.simps) simp

lemma ancestors_known:
  assumes "tree_ok g c"
  shows "fmlookup (block_heights c) h = Some n \<Longrightarrow>
    \<exists>path. ancestors_from (parent_map c) g h = Some path \<and> length path = Suc (unat n) \<and> last path = g \<and> path \<noteq> []"
proof (induction "unat n" arbitrary: h n)
  case 0
  show ?case
  proof (cases "h = g")
    case True
    then show ?thesis using 0 by (simp add: ancestors_genesis)
  next
    case False
    then obtain p m where "m \<noteq> - 1" "fmlookup (block_heights c) h = Some (m + 1)"
      using tree_okD(3,4) [OF assms] 0 by metis
    then show ?thesis using 0 unat_Suc_u32 [of m] by simp
  qed
next
  case (Suc k)
  have ne: "h \<noteq> g" using Suc tree_okD(1) [OF assms] by auto
  then obtain p m where p: "fmlookup (parent_map c) h = Some p" and m: "fmlookup (block_heights c) p = Some m"
    "m \<noteq> - 1" "n = m + 1"
    using tree_okD(3,4) [OF assms] Suc.prems by (metis option.inject)
  have "k = unat m" using Suc.hyps(2) m unat_Suc_u32 [of m] by simp
  from Suc.hyps(1) [OF this m(1)] obtain path where "ancestors_from (parent_map c) g p = Some path"
    "length path = Suc (unat m)" "last path = g" "path \<noteq> []" by blast
  then show ?case using ancestors_step [OF ne p] m unat_Suc_u32 [of m] by simp
qed

lemma ancestors_main:
  assumes "main_ok hi c"
  shows "i < length hi \<Longrightarrow> ancestors_from (parent_map c) (hi ! 0) (hi ! i) = Some (rev (take (Suc i) hi))"
proof (induction i)
  case 0
  then show ?case by (simp add: ancestors_genesis take_Suc_conv_app_nth)
next
  case (Suc i)
  have "hi ! Suc i \<noteq> hi ! 0"
  proof
    assume "hi ! Suc i = hi ! 0"
    then have "(of_nat (Suc i) :: u32) = of_nat 0"
      using main_okD(3) [OF assms, of "Suc i"] main_okD(3) [OF assms, of 0] Suc.prems by (metis Suc_lessD option.inject zero_less_Suc less_trans)
    then show False using Suc.prems main_okD(2) [OF assms] by (subst (asm) of_nat_u32_eq) auto
  qed
  then show ?case
    using Suc main_okD(4) [OF assms, of i] by (simp add: ancestors_step take_Suc_conv_app_nth)
qed

text \<open>A list of blocks in which each is the child of the one before, ending above a given block.\<close>

fun climbs :: "(bytes, bytes) fmap \<Rightarrow> bytes \<Rightarrow> bytes list \<Rightarrow> bool" where
  "climbs pm p [] = True"
| "climbs pm p (h # hs) = (fmlookup pm h = Some p \<and> climbs pm h hs)"

lemma climbs_append: "climbs pm p (xs @ [h]) \<longleftrightarrow> climbs pm p xs \<and> fmlookup pm h = Some (last (p # xs))"
  by (induction xs arbitrary: p) auto

lemma path_down_climbs:
  assumes "path_down pm fp h = Some (Some path)"
  shows "climbs pm fp (rev path) \<and> last (fp # rev path) = h"
proof -
  have "\<forall>path. r = Some path \<longrightarrow> climbs pm fp (rev path) \<and> last (fp # rev path) = h"
    if "path_down pm fp h = Some r" for r
    using that
  proof (rule path_down.raw_induct [rotated], goal_cases)
    case (1 f pm fp h r)
    show ?case
    proof (cases "h = fp")
      case True
      then show ?thesis using 1(2) by auto
    next
      case False
      show ?thesis
      proof (cases "fmlookup pm h")
        case None
        then show ?thesis using 1(2) False by auto
      next
        case (Some p)
        then obtain q where q: "f pm fp p = Some q" "r = map_option (Cons h) q"
          using 1(2) False by (auto simp: bind_eq_Some_conv)
        show ?thesis using 1(1) [OF q(1)] q(2) Some by (auto simp: climbs_append)
      qed
    qed
  qed
  then show ?thesis using assms by blast
qed

lemma path_down_returns:
  assumes "tree_ok g c"
  shows "fmlookup (block_heights c) h = Some n \<Longrightarrow> \<exists>r. path_down (parent_map c) fp h = Some r"
proof (induction "unat n" arbitrary: h n rule: less_induct)
  case less
  show ?case
  proof (cases "h = fp")
    case True
    then show ?thesis by (subst path_down.simps) simp
  next
    case False
    show ?thesis
    proof (cases "fmlookup (parent_map c) h")
      case None
      then show ?thesis using False by (subst path_down.simps) simp
    next
      case (Some p)
      obtain m where m: "fmlookup (block_heights c) p = Some m" "m \<noteq> - 1" "n = m + 1"
        using tree_okD(4) [OF assms Some] less.prems by auto
      then have "unat m < unat n" using unat_Suc_u32 [of m] by simp
      from less.hyps [OF this m(1)] obtain r where "path_down (parent_map c) fp p = Some r" by blast
      then show ?thesis using False Some by (subst path_down.simps) simp
    qed
  qed
qed

section \<open>Moving the main chain\<close>

text \<open>The index of known blocks, which a reorganisation leaves alone.\<close>

definition same_tree :: "chain \<Rightarrow> chain \<Rightarrow> bool" where
  "same_tree c c' \<longleftrightarrow> blocks c' = blocks c \<and> headers c' = headers c \<and> parent_map c' = parent_map c \<and>
     block_heights c' = block_heights c \<and> cumulative_work c' = cumulative_work c"

interpretation tree: step_relation same_tree
  by unfold_locales (auto simp: same_tree_def)

lemma same_tree_ok: "same_tree c c' \<Longrightarrow> tree_ok g c \<Longrightarrow> tree_ok g c'"
  "same_tree c c' \<Longrightarrow> main_ok hi c \<Longrightarrow> main_ok hi c'"
  by (simp_all add: same_tree_def tree_ok_def main_ok_def)

lemma same_static_tree: "same_static c c' \<Longrightarrow> same_tree c c'"
  by (simp add: same_tree_def same_staticD)

lemma best_height_unat:
  assumes "height_index c \<noteq> []" "length (height_index c) \<le> 2 ^ 32"
  shows "unat (best_height c) = length (height_index c) - 1"
proof -
  have "length (height_index c) - 1 < 2 ^ 32" using assms by (cases "height_index c") auto
  then show ?thesis by (simp only: best_height_def unat_of_nat) simp
qed

lemma journals_ok_butlast:
  assumes "journals_ok (Suc n) (js @ [j])"
  shows "journals_ok n js"
  unfolding journals_ok_def
proof (intro conjI allI impI)
  show "length js \<le> n" using assms by (simp add: journals_ok_def)
  fix k assume "k < length js"
  then have "j_height (rev (js @ [j]) ! Suc k) = of_nat (Suc n - 1 - Suc k)"
    using assms unfolding journals_ok_def by (metis Suc_less_eq length_append_singleton)
  then show "j_height (rev js ! k) = of_nat (n - 1 - k)" by simp
qed

lemma journals_ok_append:
  assumes "journals_ok n js" "j_height j = of_nat n"
  shows "journals_ok (Suc n) (js @ [j])"
  unfolding journals_ok_def
proof (intro conjI allI impI)
  show "length (js @ [j]) \<le> Suc n" using assms(1) by (simp add: journals_ok_def)
  fix k assume k: "k < length (js @ [j])"
  show "j_height (rev (js @ [j]) ! k) = of_nat (Suc n - 1 - k)"
  proof (cases k)
    case 0
    then show ?thesis using assms(2) by simp
  next
    case (Suc i)
    then have "j_height (rev js ! i) = of_nat (n - 1 - i)" using assms(1) k by (simp add: journals_ok_def)
    then show ?thesis using Suc by simp
  qed
qed

lemma journals_ok_drop: "journals_ok n js \<Longrightarrow> journals_ok n (drop k js)"
  by (auto simp: journals_ok_def rev_drop)

lemma rollback_to_main:
  assumes "rollback_to lib (of_nat k) c = (c', Ok r)" "k < length (height_index c)"
    "length (height_index c) \<le> 2 ^ 32" "journals_ok (length (height_index c)) (journals c)"
  shows "height_index c' = take (Suc k) (height_index c) \<and> same_tree c c' \<and>
    journals_ok (Suc k) (journals c')"
  using assms
proof (induction lib "of_nat k :: u32" c arbitrary: r rule: rollback_to.induct)
  case (1 lib c)
  have ne: "height_index c \<noteq> []" using "1.prems"(2) by auto
  have k32: "unat (of_nat k :: u32) = k"
    using "1.prems"(2,3) by (simp only: unat_of_nat) simp
  have bh: "unat (best_height c) = length (height_index c) - 1" using ne "1.prems"(3) by (rule best_height_unat)
  show ?case
  proof (cases "of_nat k < best_height c")
    case False
    then have "length (height_index c) = Suc k"
      using bh k32 "1.prems"(2) ne by (simp add: word_less_nat_alt)
    then show ?thesis using "1.prems"(1,4) False by (simp add: rollback_to.simps tree.step_refl)
  next
    case True
    then have lt: "Suc k < length (height_index c)" using bh k32 by (simp add: word_less_nat_alt)
    obtain c1 r1 where rb: "rollback_one_block lib c = (c1, r1)" by fastforce
    obtain txs rbl where r1: "r1 = Ok (txs, rbl)"
      using "1.prems"(1) True rb by (cases r1) (auto simp: rollback_to.simps [of lib _ c])
    obtain c2 r2 where rt: "rollback_to lib (of_nat k) c1 = (c2, r2)" by fastforce
    then obtain q where q: "r2 = Ok q" "c2 = c'"
      using "1.prems"(1) True rb r1 by (cases r2) (auto simp: rollback_to.simps [of lib _ c])
    from rb [unfolded r1] obtain js j where b: "journals c = js @ [j]" "journals c1 = js"
      "height_index c1 = butlast (height_index c)" "same_tree c c1"
      by (rule rollback_one_block_Ok) (simp add: same_tree_def)
    obtain n where n: "length (height_index c) = Suc n" using ne by (cases "length (height_index c)") auto
    have "height_index c' = take (Suc k) (height_index c1) \<and> same_tree c1 c' \<and> journals_ok (Suc k) (journals c')"
    proof (rule "1.hyps" [OF True rb [symmetric] r1 refl])
      show "rollback_to lib (of_nat k) c1 = (c', Ok q)" using rt q by simp
      show "k < length (height_index c1)" "length (height_index c1) \<le> 2 ^ 32"
        using lt b(3) "1.prems"(3) by simp_all
      show "journals_ok (length (height_index c1)) (journals c1)"
        using "1.prems"(4) b n by (simp add: journals_ok_butlast)
    qed
    moreover have "take (Suc k) (butlast (height_index c)) = take (Suc k) (height_index c)"
      using lt by (simp add: take_butlast)
    ultimately show ?thesis using b by (auto intro: tree.step_trans)
  qed
qed

lemma apply_fork_block_main:
  assumes "apply_fork_block lib bal fh (i, h) c = (c', Ok af)" "length (height_index c) = unat fh + 1 + i"
    "journals_ok (length (height_index c)) (journals c)"
  shows "height_index c' = height_index c @ [h] \<and> same_tree c c' \<and>
    journals_ok (length (height_index c')) (journals c') \<and> length (height_index c) < 2 ^ 32"
  using assms(1)
proof (cases rule: apply_fork_block_Ok)
  case (1 b c1 j)
  have u: "j_height j = fh + 1 + of_nat i" "same_static c c1"
    using apply_block_undoes [OF 1(3)] by (simp_all add: undoes_def)
  have "j_height j = of_nat (length (height_index c))" using u(1) assms(2) by simp
  then have "journals_ok (Suc (length (height_index c))) (journals c @ [j])"
    by (rule journals_ok_append [OF assms(3)])
  moreover have "same_tree c c1" using u(2) by (rule same_static_tree)
  ultimately show ?thesis
    using 1(1,4) assms(2) same_staticD(1,2) [OF u(2)]
    by (simp add: same_tree_def index_block_transactions_def)
qed

lemma collect_main:
  "st_collect (apply_fork_block lib bal fh) (List.enumerate i path) c = (c', Ok afs) \<Longrightarrow>
     length (height_index c) = unat fh + 1 + i \<Longrightarrow> length (height_index c) \<le> 2 ^ 32 \<Longrightarrow>
     journals_ok (length (height_index c)) (journals c) \<Longrightarrow>
     height_index c' = height_index c @ path \<and> same_tree c c' \<and>
     journals_ok (length (height_index c')) (journals c') \<and> length (height_index c') \<le> 2 ^ 32"
proof (induction path arbitrary: i c afs)
  case Nil
  then show ?case by (simp add: tree.step_refl)
next
  case (Cons h path)
  obtain c1 r1 where a: "apply_fork_block lib bal fh (i, h) c = (c1, r1)" by fastforce
  obtain y where r1: "r1 = Ok y" using Cons.prems(1) a by (cases r1) auto
  obtain c2 r2 where s: "st_collect (apply_fork_block lib bal fh) (List.enumerate (Suc i) path) c1 = (c2, r2)"
    by fastforce
  obtain ys where ys: "r2 = Ok ys" "c2 = c'" using Cons.prems(1) a r1 s by (cases r2) auto
  note st = apply_fork_block_main [OF a [unfolded r1] Cons.prems(2,4)]
  have "height_index c' = height_index c1 @ path \<and> same_tree c1 c' \<and>
     journals_ok (length (height_index c')) (journals c') \<and> length (height_index c') \<le> 2 ^ 32"
    using st Cons.prems(2) s ys by (intro Cons.IH [of "Suc i" c1 ys]) auto
  then show ?case using st by (auto intro: tree.step_trans)
qed

lemma main_ok_climb:
  assumes "main_ok hi c" "tree_ok g c"
  shows "climbs (parent_map c) (last hi) hs \<Longrightarrow> length hi + length hs \<le> 2 ^ 32 \<Longrightarrow> main_ok (hi @ hs) c"
  using assms(1)
proof (induction hs arbitrary: hi)
  case (Cons h hs)
  have ne: "hi \<noteq> []" using Cons.prems(3) by (rule main_okD)
  then have l: "last hi = hi ! (length hi - 1)" by (rule last_conv_nth)
  have p: "fmlookup (parent_map c) h = Some (last hi)" using Cons.prems(1) by simp
  obtain m where m: "fmlookup (block_heights c) (last hi) = Some m" "fmlookup (block_heights c) h = Some (m + 1)"
    using tree_okD(4) [OF assms(2) p] by blast
  have "fmlookup (block_heights c) (last hi) = Some (of_nat (length hi - 1))"
    using main_okD(3) [OF Cons.prems(3), of "length hi - 1"] ne l by simp
  then have "m + 1 = of_nat (Suc (length hi - 1))" using m(1) by simp
  then have ht: "m + 1 = of_nat (length hi)" using ne by simp
  have "main_ok (hi @ [h]) c"
    unfolding main_ok_def
  proof (intro conjI allI impI)
    show "length (hi @ [h]) \<le> 2 ^ 32" using Cons.prems(2) by simp
    show "fmlookup (block_heights c) ((hi @ [h]) ! i) = Some (of_nat i)" if "i < length (hi @ [h])" for i
      using that m(2) ht main_okD(3) [OF Cons.prems(3), of i] by (auto simp: nth_append less_Suc_eq)
    show "fmlookup (parent_map c) ((hi @ [h]) ! Suc i) = Some ((hi @ [h]) ! i)" if "Suc i < length (hi @ [h])" for i
      using that p l main_okD(4) [OF Cons.prems(3), of i]
      by (cases "Suc i < length hi") (auto simp: nth_append intro!: arg_cong [of _ _ "(!) hi"])
  qed simp
  then show ?case using Cons.IH [of "hi @ [h]"] Cons.prems(1,2) by simp
qed simp

lemma main_ok_take: "main_ok hi c \<Longrightarrow> main_ok (take (Suc k) hi) c"
  by (auto simp: main_ok_def)

section \<open>Reorganisation\<close>

lemma switch_wf:
  assumes sw: "switch_branch lib bal (height_index c ! k) (of_nat k) tip th c = (c', Ok r)"
    and wf: "chain_wf c" and k: "k < length (height_index c)"
  shows "chain_wf c' \<and> same_tree c c' \<and> best_hash c' = Some tip \<and> best_height c' = th"
proof -
  let ?hi = "height_index c" and ?g = "hd (height_index c)"
  have mo: "main_ok ?hi c" and tr: "tree_ok ?g c" and jo: "journals_ok (length ?hi) (journals c)"
    using wf by (simp_all add: chain_wf_def)
  obtain c1 q path afs where rb: "rollback_to lib (of_nat k) c = (c1, Ok q)"
    and pa: "to_apply c1 (?hi ! k) tip = Ok path"
    and co: "st_collect (apply_fork_block lib bal (of_nat k)) (List.enumerate 0 path) c1 = (c', Ok afs)"
    and fin: "best_hash c' = Some tip" "best_height c' = th"
    using sw by (auto simp: switch_branch_def st_bind_eq_Ok st_then_eq_Ok split: prod.splits)
  have 1: "height_index c1 = take (Suc k) ?hi" "same_tree c c1" "journals_ok (Suc k) (journals c1)"
    using rollback_to_main [OF rb k main_okD(2) [OF mo] jo] by auto
  have k32: "unat (of_nat k :: u32) = k"
    using k main_okD(2) [OF mo] by (simp only: unat_of_nat) simp
  have len1: "length (height_index c1) = Suc k" using 1(1) k by simp
  have "height_index c' = height_index c1 @ path \<and> same_tree c1 c' \<and>
     journals_ok (length (height_index c')) (journals c') \<and> length (height_index c') \<le> 2 ^ 32"
    using 1(3) k main_okD(2) [OF mo] by (intro collect_main [OF co]) (simp_all add: len1 k32)
  then have 2: "height_index c' = take (Suc k) ?hi @ path" "same_tree c c'"
    "journals_ok (length (height_index c')) (journals c')" "length (height_index c') \<le> 2 ^ 32"
    using 1 by (auto intro: tree.step_trans)
  obtain p where p: "path_down (parent_map c1) (?hi ! k) tip = Some (Some p)" "path = rev p"
    using pa by (auto simp: to_apply_def split: option.splits)
  then have cl: "climbs (parent_map c) (?hi ! k) path"
    using path_down_climbs [OF p(1)] 1(2) by (simp add: same_tree_def)
  have "last (take (Suc k) ?hi) = ?hi ! k" using k by (simp add: take_Suc_conv_app_nth)
  then have "main_ok (height_index c') c"
    unfolding 2(1) using cl 2(4) k by (intro main_ok_climb [OF main_ok_take [OF mo] tr]) (simp_all add: 2(1))
  moreover have "hd (height_index c') = ?g" using 2(1) main_okD(1) [OF mo] by simp
  ultimately show ?thesis using 2 fin tr by (auto simp: chain_wf_def intro: same_tree_ok)
qed

lemma best_hash_last: "height_index c \<noteq> [] \<Longrightarrow> best_hash c = Some (last (height_index c))"
  by (simp add: best_hash_def)

lemma fork_point_main:
  assumes wf: "chain_wf c" and known: "fmlookup (block_heights c) tip = Some n"
    and a: "ancestors c tip = Ok new" "ancestors c (last (height_index c)) = Ok old"
  obtains k where "k < length (height_index c)" "find_fork_point old new = height_index c ! k"
    "chain_block_height c (height_index c ! k) = Some (of_nat k)"
proof -
  let ?hi = "height_index c"
  have mo: "main_ok ?hi c" and tr: "tree_ok (hd ?hi) c" using wf by (simp_all add: chain_wf_def)
  have ne: "?hi \<noteq> []" using mo by (rule main_okD)
  then have g: "hd ?hi = ?hi ! 0" "last ?hi = ?hi ! (length ?hi - 1)" by (simp_all add: hd_conv_nth last_conv_nth)
  have anc: "ancestors c x = ok_or (ancestors_from (parent_map c) (hd ?hi) x) (Panic ''the loop does not end'')" for x
    using ne by (cases ?hi) (simp_all add: ancestors_def)
  have "old = rev ?hi"
    using a(2) ancestors_main [OF mo, of "length ?hi - 1"] ne g by (simp add: anc ok_or_def)
  moreover have "hd ?hi \<in> set new"
    using a(1) ancestors_known [OF tr known] by (auto simp: anc ok_or_def) (metis last_in_set)
  ultimately obtain x where f: "List.find (\<lambda>h. h \<in> set new) old = Some x"
    using ne by (cases "List.find (\<lambda>h. h \<in> set new) old") (auto simp: find_None_iff)
  have "x \<in> set old" using f by (metis find_Some_iff nth_mem)
  then have x: "find_fork_point old new = x" "x \<in> set ?hi"
    using f \<open>old = rev ?hi\<close> by (simp_all add: find_fork_point_def)
  then obtain k where "k < length ?hi" "x = ?hi ! k" by (auto simp: in_set_conv_nth)
  then show ?thesis using that x main_okD(3) [OF mo, of k] by (simp add: chain_block_height_def)
qed

lemma reorganize_wf:
  assumes "reorganize_to lib bal tip th c = (c', Ok r)" and wf: "chain_wf c"
    and known: "fmlookup (block_heights c) tip = Some n"
  shows "chain_wf c' \<and> same_tree c c' \<and> best_hash c' = Some tip \<and> best_height c' = th"
proof -
  let ?hi = "height_index c"
  have ne: "?hi \<noteq> []" using wf by (auto simp: chain_wf_def main_ok_def)
  have inner: "reorganize_to_inner lib bal tip th c = (c', Ok r)"
    using assms(1) by (auto simp: reorganize_to_def split: result.splits prod.splits)
  obtain new where n: "ancestors c tip = Ok new"
    using inner by (cases "ancestors c tip") (simp_all add: reorganize_to_inner_def Let_def)
  obtain old where o: "ancestors c (last ?hi) = Ok old"
    using inner n ne
    by (cases "ancestors c (last ?hi)") (simp_all add: reorganize_to_inner_def Let_def best_hash_last)
  obtain k where k: "k < length ?hi" "find_fork_point old new = ?hi ! k"
    "chain_block_height c (?hi ! k) = Some (of_nat k)"
    using wf known n o by (rule fork_point_main)
  have "switch_branch lib bal (?hi ! k) (of_nat k) tip th c = (c', Ok r)"
    using inner n o k ne by (simp add: reorganize_to_inner_def Let_def best_hash_last split: if_splits)
  then show ?thesis using wf k(1) by (rule switch_wf)
qed

section \<open>Adding and forgetting blocks\<close>

lemma register_tree:
  assumes tr: "tree_ok g c" and new: "fmlookup (block_heights c) h = None"
    and par: "fmlookup (block_heights c) p = Some m" "m \<noteq> - 1"
  shows "tree_ok g (register_block h p (m + 1) (ucast (m + 1) + 1) b c)"
proof -
  have hp: "h \<noteq> p" "h \<noteq> g" using new par tree_okD(1) [OF tr] by auto
  have nochild: "q \<noteq> h" if "fmlookup (parent_map c) x = Some q" for x q
    using tree_okD(4) [OF tr that] new by auto
  show ?thesis
    unfolding tree_ok_def
  proof (intro conjI allI impI)
    fix x q
    assume "fmlookup (parent_map (register_block h p (m + 1) (ucast (m + 1) + 1) b c)) x = Some q"
    then show "\<exists>k. fmlookup (block_heights (register_block h p (m + 1) (ucast (m + 1) + 1) b c)) q = Some k \<and>
        k \<noteq> - 1 \<and> fmlookup (block_heights (register_block h p (m + 1) (ucast (m + 1) + 1) b c)) x = Some (k + 1)"
      using hp par tree_okD(4) [OF tr, of x q] nochild [of x q] by (auto simp: register_block_def split: if_splits)
  qed (use hp tr in \<open>auto simp: register_block_def tree_ok_def split: if_splits\<close>)
qed

lemma register_main:
  "main_ok hi c \<Longrightarrow> fmlookup (block_heights c) h = None \<Longrightarrow> main_ok hi (register_block h p ht w b c)"
  unfolding main_ok_def by (auto simp: register_block_def)

lemma register_wf:
  assumes "chain_wf c" "fmlookup (block_heights c) h = None" "fmlookup (block_heights c) p = Some m" "m \<noteq> - 1"
  shows "chain_wf (register_block h p (m + 1) (ucast (m + 1) + 1) b c)"
  using assms register_tree register_main unfolding chain_wf_def by (simp add: register_block_def)

lemma forget_leaf_tree:
  assumes tr: "tree_ok g c" and leaf: "h |\<notin>| fmran (parent_map c)" "h \<noteq> g"
  shows "tree_ok g (forget_block h c)"
proof -
  have nochild: "q \<noteq> h" if "fmlookup (parent_map c) x = Some q" for x q
    using leaf(1) that by (auto intro: fmranI)
  show ?thesis
    unfolding tree_ok_def
  proof (intro conjI allI impI)
    fix x q
    assume "fmlookup (parent_map (forget_block h c)) x = Some q"
    then show "\<exists>k. fmlookup (block_heights (forget_block h c)) q = Some k \<and>
        k \<noteq> - 1 \<and> fmlookup (block_heights (forget_block h c)) x = Some (k + 1)"
      using tree_okD(4) [OF tr, of x q] nochild [of x q] by (auto simp: forget_block_def split: if_splits)
  qed (use leaf tr in \<open>auto simp: forget_block_def tree_ok_def split: if_splits\<close>)
qed

lemma forget_leaf_wf:
  assumes wf: "chain_wf c" and "h \<notin> set (height_index c)" "h |\<notin>| fmran (parent_map c)"
  shows "chain_wf (forget_block h c)"
proof -
  have ne: "height_index c \<noteq> []" using wf by (simp add: chain_wf_def main_ok_def)
  then have "h \<noteq> hd (height_index c)" using assms(2) by auto
  then have "tree_ok (hd (height_index c)) (forget_block h c)"
    using wf assms(3) forget_leaf_tree by (simp add: chain_wf_def)
  moreover have "main_ok (height_index c) (forget_block h c)"
  proof -
    have "x \<noteq> h" if "x \<in> set (height_index c)" for x using assms(2) that by auto
    then show ?thesis using wf unfolding chain_wf_def main_ok_def
      by (auto simp: forget_block_def nth_mem)
  qed
  ultimately show ?thesis using wf by (simp add: chain_wf_def forget_block_def)
qed

lemma fork_leaves_mem:
  "h \<in> set (fork_leaves order c) \<Longrightarrow> h \<notin> set (height_index c) \<and> h |\<notin>| fmran (parent_map c)"
  by (simp add: fork_leaves_def)

lemma prune_fork_wf:
  "chain_wf c \<Longrightarrow> chain_wf (prune_fork_bodies order c) \<and>
     height_index (prune_fork_bodies order c) = height_index c \<and>
     (\<forall>h n. fmlookup (block_heights (prune_fork_bodies order c)) h = Some n \<longrightarrow>
        fmlookup (block_heights c) h = Some n)"
proof (induction order c rule: prune_fork_bodies.induct)
  case (1 order c)
  show ?case
  proof (cases "fcard (fmdom (blocks c)) > retained_main_bodies c + MAX_FORK_BODIES \<and> fork_leaves order c \<noteq> []")
    case True
    let ?h = "arg_min_list (known_work c) (fork_leaves order c)"
    have "?h \<in> set (fork_leaves order c)" using True arg_min_list_mem by blast
    then have "chain_wf (forget_block ?h c)" using "1.prems" fork_leaves_mem by (blast intro: forget_leaf_wf)
    moreover have "prune_fork_bodies order c = prune_fork_bodies order (forget_block ?h c)"
      using True by (subst prune_fork_bodies.simps) simp
    moreover have "height_index (forget_block ?h c) = height_index c" by (simp add: forget_block_def)
    moreover have "fmlookup (block_heights (forget_block ?h c)) x = Some n \<Longrightarrow> fmlookup (block_heights c) x = Some n"
      for x n by (simp add: forget_block_def split: if_splits)
    ultimately show ?thesis using "1.IH" [OF True] by metis
  next
    case False
    then have "prune_fork_bodies order c = c" by (subst prune_fork_bodies.simps) (rule if_not_P)
    then show ?thesis using "1.prems" by simp
  qed
qed

lemma prune_main_body_blocks: "\<exists>bs. prune_main_body c = c\<lparr>blocks := bs\<rparr> \<and> fmdom bs |\<subseteq>| fmdom (blocks c)"
proof -
  have "c = c\<lparr>blocks := blocks c\<rparr>" by simp
  then show ?thesis by (auto simp: prune_main_body_def Let_def split: option.split intro!: exI)
qed

lemma prune_wf:
  assumes "chain_wf c"
  shows "chain_wf (prune_bodies order c)" "height_index (prune_bodies order c) = height_index c"
    "fmlookup (block_heights (prune_bodies order c)) h = Some n \<Longrightarrow> fmlookup (block_heights c) h = Some n"
proof -
  obtain bs where m: "prune_main_body c = c\<lparr>blocks := bs\<rparr>" "fmdom bs |\<subseteq>| fmdom (blocks c)"
    using prune_main_body_blocks by blast
  then have "chain_wf (prune_main_body c)"
    using assms by (auto simp: chain_wf_def main_ok_def tree_ok_def)
  from prune_fork_wf [OF this, of order] m(1)
  show "chain_wf (prune_bodies order c)" "height_index (prune_bodies order c) = height_index c"
    "fmlookup (block_heights (prune_bodies order c)) h = Some n \<Longrightarrow> fmlookup (block_heights c) h = Some n"
    by (auto simp: prune_bodies_def)
qed

section \<open>Every way of adding a block\<close>

lemma work_of_known: "tree_ok g c \<Longrightarrow> fmlookup (block_heights c) h = Some n \<Longrightarrow> work_of c h = ucast n + 1"
  by (simp add: work_of_def tree_okD(5))

lemma tip_height:
  assumes "chain_wf c"
  shows "best_hash c = Some (last (height_index c))"
    "fmlookup (block_heights c) (last (height_index c)) = Some (best_height c)"
    "unat (best_height c) = length (height_index c) - 1"
proof -
  have mo: "main_ok (height_index c) c" using assms by (simp add: chain_wf_def)
  note ne = main_okD(1,2) [OF mo]
  show "best_hash c = Some (last (height_index c))" using ne(1) by (rule best_hash_last)
  show "fmlookup (block_heights c) (last (height_index c)) = Some (best_height c)"
    using main_okD(3) [OF mo, of "length (height_index c) - 1"] ne by (simp add: last_conv_nth best_height_def)
  show "unat (best_height c) = length (height_index c) - 1" using ne by (rule best_height_unat)
qed

lemma same_static_wf:
  assumes "same_static c c'"
  shows "chain_wf c' = chain_wf c" "best_height c' = best_height c" "block_heights c' = block_heights c"
  using same_staticD [OF assms]
  by (simp_all add: chain_wf_def main_ok_def tree_ok_def best_height_def)

lemma extended_wf:
  assumes wf: "chain_wf c" and new: "fmlookup (block_heights c) (block_hash lib b) = None"
    and par: "prev_block_hash (header b) = last (height_index c)" and nz: "best_height c \<noteq> - 1"
    and ap: "apply_block_journaled lib bal b (best_height c + 1) c = (c1, Ok j)"
  shows "chain_wf (extended_chain lib b (best_height c + 1) j c1)"
    "height_index (extended_chain lib b (best_height c + 1) j c1) = height_index c @ [block_hash lib b]"
    "block_heights (extended_chain lib b (best_height c + 1) j c1) =
       fmupd (block_hash lib b) (best_height c + 1) (block_heights c)"
proof -
  let ?h = "block_hash lib b" and ?p = "last (height_index c)" and ?hi = "height_index c"
  define e where "e = extended_chain lib b (best_height c + 1) j c1"
  have u: "j_height j = best_height c + 1" "same_static c c1"
    using apply_block_undoes [OF ap] by (simp_all add: undoes_def)
  note st = same_staticD [OF u(2)]
  have mo: "main_ok ?hi c" and tr: "tree_ok (hd ?hi) c" and jo: "journals_ok (length ?hi) (journals c)"
    using wf by (simp_all add: chain_wf_def)
  note tip = tip_height [OF wf]
  have ne: "?hi \<noteq> []" using mo by (rule main_okD)
  have w: "work_of c1 ?p + 1 = ucast (best_height c + 1) + (1 :: u64)"
  proof -
    have "work_of c1 ?p = ucast (best_height c) + 1"
      using work_of_known [OF tr tip(2)] st by (simp add: work_of_def)
    moreover have "ucast (best_height c + 1) = (ucast (best_height c) + 1 :: u64)"
      using nz by (rule ucast_Suc_u32)
    ultimately show ?thesis by simp
  qed
  define r where "r = register_block ?h ?p (best_height c + 1) (ucast (best_height c + 1) + 1) b c"
  have rw: "tree_ok (hd ?hi) r" "main_ok ?hi r"
    using register_tree [OF tr new tip(2) nz] register_main [OF mo new] by (simp_all add: r_def)
  have et: "same_tree r e" "height_index e = ?hi @ [?h]"
    "journals e = drop (Suc (length (journals c)) - unat (max_reorg_depth c)) (journals c @ [j])"
    using st w par by (simp_all add: e_def r_def extended_chain_def Let_def same_tree_def register_block_def
        index_block_transactions_def trim_journals_def)
  have "best_height c + 1 = of_nat (length ?hi)"
    using ne by (cases ?hi) (simp_all add: best_height_def)
  then have jj: "journals_ok (Suc (length ?hi)) (journals c @ [j])" using journals_ok_append [OF jo] u(1) by simp
  have "unat (best_height c) < 2 ^ 32 - 1" using nz by (rule unat_below_max)
  then have len: "length ?hi + length [?h] \<le> 2 ^ 32" using tip(3) ne by (cases ?hi) simp_all
  have "climbs (parent_map r) ?p [?h]" by (simp add: r_def register_block_def)
  then have "main_ok (?hi @ [?h]) r" using rw len by (intro main_ok_climb) simp_all
  moreover have "journals_ok (Suc (length ?hi)) (journals e)" unfolding et(3) using jj by (rule journals_ok_drop)
  ultimately show "chain_wf e" using et(1,2) rw(1) ne by (auto simp: chain_wf_def intro: same_tree_ok)
  show "height_index e = ?hi @ [?h]" by (rule et)
  show "block_heights e = fmupd ?h (best_height c + 1) (block_heights c)"
    using et(1) by (simp add: same_tree_def r_def register_block_def)
qed

text \<open>A reorganisation changes no field but those it saves first.\<close>

definition restorable :: "chain \<Rightarrow> chain \<Rightarrow> bool" where
  "restorable c c' \<longleftrightarrow> restore_saved c c' = c"

interpretation saved: step_relation restorable
proof
  show "restorable c c" for c by (simp add: restorable_def restore_saved_def)
  show "restorable c e" if "restorable c d" "restorable d e" for c d e
    using that unfolding restorable_def restore_saved_def by (cases c; cases d; cases e) simp
qed

lemma restorable_static: "same_static c c' \<Longrightarrow> restorable c c'"
  unfolding restorable_def restore_saved_def same_static_def by (cases c; cases c') simp

interpretation static: step_relation same_static
  by unfold_locales (auto intro: same_static_trans)

lemma rollback_journal_static: "moves same_static (rollback_journal j)"
  unfolding rollback_journal_def
  by (intro static.moves_then static.moves_update)
    (auto simp: same_static_def moves_def restore_governance_def rollback_changes_eq split: option.splits)

lemma apply_block_static: "moves same_static (apply_block_journaled lib bal b ht)"
  unfolding moves_def
proof
  fix c
  let ?gov = "governance_active c ht" and ?j = "new_journal c (block_hash lib b) ht"
  show "same_static c (fst (apply_block_journaled lib bal b ht c))"
  proof (cases "parent_stake_modifier c b ht")
    case (Ok pm)
    obtain c1 j1 r where b: "apply_block_body lib bal b ht pm ?gov (c, ?j) = ((c1, j1), r)" by (metis surj_pair)
    have s: "same_static c c1" using apply_block_body_undoes [OF b] by (simp add: undoes_def)
    have rb: "same_static c1 c2" if "rollback_journal j c1 = (c2, q)" for j c2 q
      using rollback_journal_static that by (rule movesD)
    show ?thesis
      using s rb Ok b
      by (auto simp: apply_block_journaled_def rollback_unless_panic_def Let_def
          split: result.splits node_error.splits prod.splits intro: same_static_trans)
  qed (simp add: apply_block_journaled_def Let_def)
qed

lemma rollback_one_saved: "moves restorable (rollback_one_block lib)"
  by (auto simp: moves_def restorable_def restore_saved_def rollback_one_block_def restore_governance_def
      remove_block_transactions_def Let_def split: option.splits)

lemma rollback_to_saved: "restorable c (fst (rollback_to lib fh c))"
proof (induction lib fh c rule: rollback_to.induct)
  case (1 lib fh c)
  obtain c1 r1 where rb: "rollback_one_block lib c = (c1, r1)" by fastforce
  have s: "restorable c c1" using rollback_one_saved rb by (rule movesD)
  show ?case
  proof (cases "fh < best_height c")
    case True
    show ?thesis
    proof (cases r1)
      case (Ok q)
      obtain txs rbl where q: "q = (txs, rbl)" by (cases q)
      have "restorable c1 (fst (rollback_to lib fh c1))" using "1.IH" [OF True rb [symmetric] Ok q [symmetric]] .
      then show ?thesis using s True rb Ok q
        by (subst rollback_to.simps) (auto split: prod.splits result.splits intro: saved.step_trans)
    qed (use s True rb in \<open>simp add: rollback_to.simps\<close>)
  qed (simp add: rollback_to.simps saved.step_refl)
qed

lemma apply_fork_saved: "moves restorable (apply_fork_block lib bal fh x)"
  unfolding moves_def
proof
  fix c
  obtain i h where x: "x = (i, h)" by (cases x)
  show "restorable c (fst (apply_fork_block lib bal fh x c))"
  proof (cases "fmlookup (blocks c) h")
    case (Some b)
    obtain c1 r where a: "apply_block_journaled lib bal b (fh + 1 + of_nat i) c = (c1, r)" by fastforce
    have s: "restorable c c1" using restorable_static movesD [OF apply_block_static a] .
    have "restorable c1 ((index_block_transactions lib h b c1)\<lparr>journals := js, height_index := hi\<rparr>)" for js hi
      by (simp add: restorable_def restore_saved_def index_block_transactions_def)
    then show ?thesis using x a Some saved.step_refl s saved.step_trans [OF s]
      by (auto simp: apply_fork_block_def Let_def split: result.splits prod.splits)
  qed (simp add: x apply_fork_block_def saved.step_refl)
qed

lemma collect_saved: "restorable c (fst (st_collect (apply_fork_block lib bal fh) xs c))"
proof (induction xs arbitrary: c)
  case (Cons x xs)
  obtain c1 r1 where a: "apply_fork_block lib bal fh x c = (c1, r1)" by fastforce
  then have "restorable c c1" by (rule movesD [OF apply_fork_saved])
  moreover have "restorable c1 (fst (st_collect (apply_fork_block lib bal fh) xs c1))" by (rule Cons.IH)
  ultimately show ?case using a by (auto split: prod.splits result.splits intro: saved.step_trans)
qed (simp add: saved.step_refl)

lemma case_prod_moves: "(\<And>x y. moves R (f x y)) \<Longrightarrow> moves R (case p of (x, y) \<Rightarrow> f x y)"
  by (cases p) simp

lemma reorganize_inner_saved: "moves restorable (reorganize_to_inner lib bal tip th)"
proof -
  have sw: "moves restorable (switch_branch lib bal fp fh tip th)" for fp fh
    unfolding switch_branch_def
    by (intro saved.moves_bind case_prod_moves saved.moves_then saved.moves_lift saved.moves_require)
      (simp_all add: moves_def rollback_to_saved collect_saved)
  show ?thesis
    unfolding moves_def
    using sw saved.step_refl by (auto simp: reorganize_to_inner_def Let_def moves_def split: result.splits option.splits)
qed

lemma reorganize_reverts:
  assumes "reorganize_to lib bal tip th c = (c', Err e)" "\<not> is_panic e"
  shows "c' = c"
proof -
  obtain c1 r where i: "reorganize_to_inner lib bal tip th c = (c1, r)" by fastforce
  then have "restore_saved c c1 = c"
    using movesD [OF reorganize_inner_saved i] by (simp add: restorable_def)
  then show ?thesis using assms i by (cases r) (auto simp: reorganize_to_def)
qed

lemma fmdrop_new: "fmlookup m h = None \<Longrightarrow> fmdrop h m = m"
  by (rule fmap_ext) auto

lemma forget_registered:
  assumes "chain_wf c" "fmlookup (block_heights c) h = None"
  shows "forget_block h (register_block h p ht w b c) = c"
proof -
  have tr: "tree_ok (hd (height_index c)) c" using assms(1) by (simp add: chain_wf_def)
  have dom: "h |\<notin>| fmdom (block_heights c)" using assms(2) by (simp add: fmlookup_dom_iff)
  have "fmlookup (blocks c) h = None" "fmlookup (headers c) h = None"
    using tr dom unfolding tree_ok_def by (auto simp: fmdom_notD)
  moreover have "fmlookup (parent_map c) h = None"
    using tree_okD(4) [OF tr, of h] assms(2) by (cases "fmlookup (parent_map c) h") auto
  moreover have "fmlookup (cumulative_work c) h = None"
    using tree_okD(5) [OF tr, of h] assms(2) by simp
  ultimately show ?thesis
    using assms(2) by (simp add: forget_block_def register_block_def fmdrop_fmupd_same fmdrop_new)
qed

lemma fork_rejected:
  assumes wf: "chain_wf c" and new: "fmlookup (block_heights c) (block_hash lib b) = None"
    and run: "add_fork_block lib bal order now tip ph b c = (c', Err e)" and np: "\<not> is_panic e"
  shows "c' = c"
proof -
  have "\<forall>m. Err e \<noteq> (Err (Panic m) :: (block_acceptance, node_error) result)" using np by (auto simp: is_panic_iff)
  from run this refl refl refl show ?thesis
  proof (cases rule: add_fork_block_cases)
    case (reverted c2 e')
    then show ?thesis using reorganize_reverts forget_registered [OF wf new] by blast
  qed simp_all
qed

lemma heights_compare:
  assumes "tree_ok g c" "fmlookup (block_heights c) p = Some m" "fmlookup (block_heights c) t = Some n" "m \<noteq> - 1"
  shows "work_of c p + 1 \<le> work_of c t \<longleftrightarrow> m + 1 \<le> n"
proof -
  have "unat (work_of c p + 1) = unat (m + 1) + 1" "unat (work_of c t) = unat n + 1"
    using unat_u32_less [of n] unat_below_max [OF assms(4)]
    by (simp_all add: work_of_known [OF assms(1,2)] work_of_known [OF assms(1,3)] unat_Suc_u32 [OF assms(4)]
        unat_word_ariths unat_ucast_u64)
  then show ?thesis by (simp add: word_le_nat_alt)
qed

lemma prune_tip:
  assumes "chain_wf c" "tip_highest c"
  shows "tip_highest (prune_bodies order c)"
  using assms(2) prune_wf(2,3) [OF assms(1), of order] unfolding tip_highest_def best_height_def by metis

lemma main_wf:
  assumes wf: "chain_wf c" "tip_highest c" and new: "fmlookup (block_heights c) (block_hash lib b) = None"
    and par: "prev_block_hash (header b) = last (height_index c)"
    and run: "add_main_block lib bal order now b c = (c', r)" and np: "\<forall>m. r \<noteq> Err (Panic m)"
  shows "chain_wf c' \<and> tip_highest c'"
  using run np
proof (cases rule: add_main_block_cases)
  case (rejected e)
  then show ?thesis using wf by simp
next
  case (failed e)
  have "same_static c c'" using failed(1,2) by (rule apply_block_failed)
  then show ?thesis using wf same_static_wf by (simp add: tip_highest_def)
next
  case (mismatch c1 j e)
  have "same_static c c'"
    using movesD [OF apply_block_static mismatch(1)] movesD [OF rollback_journal_static mismatch(2)]
    by (rule same_static_trans)
  then show ?thesis using wf same_static_wf by (simp add: tip_highest_def)
next
  case (extended ph c1 j x)
  let ?e = "extended_chain lib b (best_height c + 1) j c1"
  note e = extended_wf [OF wf(1) new par extended(1,4)]
  have "unat (best_height ?e) = unat (best_height c + 1)"
    using tip_height(3) [OF wf(1)] tip_height(3) [OF e(1)] e(2) wf(1)
    by (cases "height_index c") (simp_all add: unat_Suc_u32 [OF extended(1)] chain_wf_def main_ok_def)
  then have bh: "best_height ?e = best_height c + 1" by (simp add: word_unat_eq_iff)
  have "n \<le> best_height c + 1" if "n \<le> best_height c" for n
    using that unat_Suc_u32 [OF extended(1)] by (simp add: word_le_nat_alt)
  then have "tip_highest ?e"
    using wf(2) by (auto simp: tip_highest_def e(3) bh split: if_splits)
  then show ?thesis using prune_wf(1) [OF e(1)] prune_tip [OF e(1)] extended(6) by simp
qed

lemma fork_wf:
  assumes wf: "chain_wf c" "tip_highest c" and new: "fmlookup (block_heights c) (block_hash lib b) = None"
    and par: "fmlookup (block_heights c) (prev_block_hash (header b)) = Some m"
    and run: "add_fork_block lib bal order now (last (height_index c)) m b c = (c', r)"
    and np: "\<forall>m. r \<noteq> Err (Panic m)"
  shows "chain_wf c' \<and> tip_highest c'"
proof -
  let ?h = "block_hash lib b" and ?p = "prev_block_hash (header b)" and ?t = "last (height_index c)"
  have tr: "tree_ok (hd (height_index c)) c" using wf by (simp add: chain_wf_def)
  note tip = tip_height [OF wf(1)]
  define c1 where "c1 = register_block ?h ?p (m + 1) (work_of c ?p + 1) b c"
  have w1: "chain_wf c1" if "m \<noteq> - 1"
    using register_wf [OF wf(1) new par that] ucast_Suc_u32 [OF that]
    by (simp add: c1_def work_of_known [OF tr par] add.assoc)
  have h1: "block_heights c1 = fmupd ?h (m + 1) (block_heights c)" "height_index c1 = height_index c"
    by (simp_all add: c1_def register_block_def)
  have "?t \<noteq> ?h" using tip(2) new by auto
  then have wt: "work_of c1 ?t = work_of c ?t" by (simp add: c1_def work_of_def register_block_def)
  note cmp = heights_compare [OF tr par tip(2)]
  from run np refl refl c1_def show ?thesis
  proof (cases rule: add_fork_block_cases)
    case (rejected e)
    then show ?thesis using wf by simp
  next
    case (stored ph)
    have "m + 1 \<le> best_height c" using stored(1,5) cmp wt by simp
    then have "tip_highest c1" using wf(2) h1 by (auto simp: tip_highest_def best_height_def split: if_splits)
    then show ?thesis using prune_wf(1) [OF w1] prune_tip [OF w1] stored(1,6) by simp
  next
    case (reorganized ph c2 txs rbs afs)
    have gt: "best_height c < m + 1" using reorganized(1,5) cmp wt by (metis not_le)
    have "fmlookup (block_heights c1) ?h = Some (m + 1)" using h1 by simp
    from reorganize_wf [OF reorganized(6) w1 [OF reorganized(1)] this]
    have c2: "chain_wf c2" "block_heights c2 = block_heights c1" "best_height c2 = m + 1"
      by (auto simp: same_tree_def)
    have "n \<le> m + 1" if "n \<le> best_height c" for n using that gt by simp
    then have "tip_highest c2" using wf(2) c2(2,3) h1(1) by (auto simp: tip_highest_def split: if_splits)
    then show ?thesis using prune_wf(1) [OF c2(1)] prune_tip [OF c2(1)] reorganized(7) by simp
  next
    case (reverted c2 e)
    then have "c' = c" using reorganize_reverts [OF reverted(1,2)] forget_registered [OF wf(1) new] by (simp add: c1_def)
    then show ?thesis using wf by simp
  qed
qed

lemma add_block_wf:
  assumes wf: "chain_wf c" "tip_highest c"
    and run: "add_block lib bal order now b c = (c', r)" and np: "\<forall>m. r \<noteq> Err (Panic m)"
  shows "chain_wf c' \<and> tip_highest c'"
  using run refl
proof (cases rule: add_block_cases)
  case main
  then show ?thesis using main_wf [OF wf _ _ _ np] tip_height(1) [OF wf(1)] by simp
next
  case (fork m)
  then show ?thesis using fork_wf [OF wf _ _ _ np] tip_height(1) [OF wf(1)] by simp
qed (use wf in simp_all)

end
