(* ===== verification/ChainApi.thy ===== *)
theory ChainApi
  imports Chain Address
begin

text \<open>
  The queries and the block builders of \<open>vtorrent-node/src/chain.rs\<close>: looking up bodies, transactions
  and outputs, fees and rewards, the admission check of scripts, the recent history, and the two
  operations that build a block of their own. Sums of \<open>u64\<close> values panic on overflow.
\<close>

section \<open>Settings\<close>

definition set_block_body_cache :: "nat \<Rightarrow> chain \<Rightarrow> chain" where
  "set_block_body_cache cache c = c\<lparr>block_body_cache := cache\<rparr>"

definition set_body_source :: "body_source \<Rightarrow> chain \<Rightarrow> chain" where
  "set_body_source s c = c\<lparr>source := Some s\<rparr>"

definition set_governance_test_activation :: "u32 \<Rightarrow> chain \<Rightarrow> chain" where
  "set_governance_test_activation ht c = c\<lparr>governance_test_activation := Some ht\<rparr>"

definition set_governance_test_deployment :: "deployment \<Rightarrow> u32 \<Rightarrow> chain \<Rightarrow> chain" where
  "set_governance_test_deployment d period c = c\<lparr>governance_test_deployment := Some (d, period)\<rparr>"

section \<open>Bodies and transactions\<close>

definition body_count :: "chain \<Rightarrow> nat" where
  "body_count c = fcard (fmdom (blocks c))"

definition get_block_owned :: "chain \<Rightarrow> bytes \<Rightarrow> block option" where
  "get_block_owned c hash =
     (case fmlookup (blocks c) hash of
        Some b \<Rightarrow> Some b
      | None \<Rightarrow> Option.bind (source c) (\<lambda>s. block_body s hash))"

definition get_block_at_height_owned :: "chain \<Rightarrow> u32 \<Rightarrow> block option" where
  "get_block_at_height_owned c ht =
     (case get_block_at_height c ht of
        Some b \<Rightarrow> Some b
      | None \<Rightarrow> Option.bind (source c) (\<lambda>s. block_body_at_height s ht))"

definition get_transaction :: "chain \<Rightarrow> bytes \<Rightarrow> (transaction \<times> bytes \<times> u32) option" where
  "get_transaction c t =
     Option.bind (fmlookup (tx_index c) t) (\<lambda>(hash, offset).
     Option.bind (chain_block_height c hash) (\<lambda>ht.
     Option.bind (fmlookup (blocks c) hash) (\<lambda>b.
     map_option (\<lambda>tx. (tx, hash, ht)) (nth_opt (transactions b) offset))))"

definition get_transaction_owned :: "chain \<Rightarrow> bytes \<Rightarrow> (transaction \<times> bytes \<times> u32) option" where
  "get_transaction_owned c t =
     Option.bind (fmlookup (tx_index c) t) (\<lambda>(hash, offset).
     Option.bind (chain_block_height c hash) (\<lambda>ht.
     Option.bind (get_block_owned c hash) (\<lambda>b.
     map_option (\<lambda>tx. (tx, hash, ht)) (nth_opt (transactions b) offset))))"

definition genesis_block :: "chain \<Rightarrow> block nresult" where
  "genesis_block c =
     (case height_index c of
        [] \<Rightarrow> Err (Panic ''index out of bounds'')
      | g # _ \<Rightarrow> ok_or (fmlookup (blocks c) g) (Panic ''genesis block always present''))"

definition utxo_root_at_height :: "chain \<Rightarrow> u32 \<Rightarrow> bytes option" where
  "utxo_root_at_height c ht = map_option utxo_root (get_header_at_height c ht)"

definition current_utxo_root :: "chain \<Rightarrow> bytes option" where
  "current_utxo_root c = map_option utxo_root (get_header_at_height c (best_height c))"

definition verify_utxo_commitment :: "('sig, 'pk, 'x) crypto_scheme \<Rightarrow> chain \<Rightarrow> bool option" where
  "verify_utxo_commitment cr c =
     map_option (\<lambda>tip_root. tip_root = recompute_utxo_root cr c) (current_utxo_root c)"

definition resolve_output :: "chain \<Rightarrow> bytes \<Rightarrow> u32 \<Rightarrow> tx_output option" where
  "resolve_output c t vout =
     Option.bind (fmlookup (tx_index c) t) (\<lambda>(hash, offset).
     Option.bind (fmlookup (blocks c) hash) (\<lambda>b.
     Option.bind (nth_opt (transactions b) offset) (\<lambda>tx. nth_opt (outputs tx) (unat vout))))"

definition resolve_output_value :: "chain \<Rightarrow> bytes \<Rightarrow> u32 \<Rightarrow> u64 option" where
  "resolve_output_value c t vout = map_option out_value (resolve_output c t vout)"

section \<open>Parameters, fees and rewards\<close>

definition checked_sum :: "u64 list \<Rightarrow> u64 nresult" where
  "checked_sum xs =
     (let n = sum_list (map unat xs) in
      if n < 2 ^ 64 then Ok (of_nat n) else Err (Panic ''attempt to add with overflow''))"

definition next_block_params :: "chain \<Rightarrow> u32 \<Rightarrow> consensus_params nresult" where
  "next_block_params c ts =
     (if best_height c = - 1 then Err overflow
      else Ok (if governance_active c (best_height c + 1)
        then snd (begin_block (best_height c + 1) (utxo_set c) ts (governance c, chain_params c))
        else chain_params c))"

definition is_vote_locked :: "chain \<Rightarrow> bytes \<Rightarrow> u32 \<Rightarrow> u32 \<Rightarrow> bool" where
  "is_vote_locked c t vout ht \<longleftrightarrow> governance_active c ht \<and> is_utxo_locked (governance c) t vout ht"

definition coinstake_reward :: "chain \<Rightarrow> transaction \<Rightarrow> u64 option nresult" where
  "coinstake_reward c tx =
     (if tx_kind tx \<noteq> Coinstake then Ok None
      else res_bind (checked_sum (map out_value (outputs tx))) (\<lambda>total_out.
        Ok (Option.bind (nth_opt (inputs tx) 0) (\<lambda>inp.
          Option.bind (get_transaction c (prev_txid inp)) (\<lambda>(parent, _, _).
          Option.bind (nth_opt (outputs parent) (unat (prev_vout inp))) (\<lambda>out.
            checked_sub total_out (out_value out)))))))"

fun input_total :: "(out_point, utxo) fmap \<Rightarrow> u64 \<Rightarrow> tx_input list \<Rightarrow> u64 option" where
  "input_total us acc [] = Some acc"
| "input_total us acc (inp # inps) =
     (case fmlookup us (prev_txid inp, prev_vout inp) of
        None \<Rightarrow> None
      | Some u \<Rightarrow> input_total us (sat_add acc (u_value u)) inps)"

definition compute_tx_fee :: "chain \<Rightarrow> transaction \<Rightarrow> u64 option" where
  "compute_tx_fee c tx =
     (if is_coinbase tx \<or> is_coinstake tx \<or> is_legacy_claim tx then Some 0
      else Option.bind (input_total (utxo_set c) 0 (inputs tx)) (\<lambda>total_in.
        checked_sub total_in (total_output tx)))"

definition tx_fee :: "chain \<Rightarrow> transaction \<Rightarrow> u64 \<Rightarrow> u64 nresult" where
  "tx_fee c tx total_out =
     (if is_coinbase tx \<or> is_legacy_claim tx then Ok 0
      else res_bind (checked_sum
          (List.map_filter (\<lambda>inp. resolve_output_value c (prev_txid inp) (prev_vout inp)) (inputs tx)))
        (\<lambda>input_sum. Ok (sat_sub input_sum total_out)))"

section \<open>The admission check of scripts\<close>

definition verify_tx_input ::
  "('sig, 'pk, 'x) node_lib_scheme \<Rightarrow> chain \<Rightarrow> transaction \<Rightarrow> u32 \<Rightarrow> u32 \<Rightarrow> nat \<times> tx_input \<Rightarrow> unit nresult" where
  "verify_tx_input lib c tx ht ts = (\<lambda>(i, inp).
     case fmlookup (utxo_set c) (prev_txid inp, prev_vout inp) of
       None \<Rightarrow> Err (InvalidTransaction ''input not in UTXO set'')
     | Some u \<Rightarrow> verify_script lib tx i u ht ts)"

definition verify_tx_scripts ::
  "('sig, 'pk, 'x) node_lib_scheme \<Rightarrow> (bytes \<Rightarrow> u64) \<Rightarrow> chain \<Rightarrow> transaction \<Rightarrow> u32 \<Rightarrow> u32 \<Rightarrow> unit nresult" where
  "verify_tx_scripts lib legacy_balance c tx ht ts =
     (if is_legacy_claim tx then
        (case claim_address tx of
           None \<Rightarrow> Err (InvalidClaim ''Legacy claim is missing its address'')
         | Some addr \<Rightarrow>
             if addr |\<in>| claimed_addresses c then Err (ClaimAlreadyProcessed addr)
             else validate_legacy_claim lib tx (legacy_balance addr))
      else if is_coinbase tx \<or> is_coinstake tx then Ok ()
      else check_each (verify_tx_input lib c tx ht ts) (List.enumerate 0 (inputs tx)))"

section \<open>Outputs of an address\<close>

definition address_to_p2pkh_script :: "('sig, 'pk, 'x) node_lib_scheme \<Rightarrow> bytes \<Rightarrow> bytes" where
  "address_to_p2pkh_script lib addr =
     (case parse_address lib addr of Ok a \<Rightarrow> p2pkh_script_pubkey a | Err _ \<Rightarrow> [])"

definition get_utxos_for_script :: "chain \<Rightarrow> bytes \<Rightarrow> utxo list" where
  "get_utxos_for_script c s = filter (\<lambda>u. u_script u = s) (fm_values (utxo_set c))"

definition get_utxos_for_address :: "('sig, 'pk, 'x) node_lib_scheme \<Rightarrow> chain \<Rightarrow> bytes \<Rightarrow> utxo list" where
  "get_utxos_for_address lib c addr =
     filter (\<lambda>u. u_script u = address_to_p2pkh_script lib addr) (fm_values (utxo_set c))"

text \<open>The hash an output's script names as its staker, compared with bytes 3 to 23 of the address script.\<close>

definition staked_for :: "bytes \<Rightarrow> utxo \<Rightarrow> bool" where
  "staked_for s u \<longleftrightarrow> length s \<ge> 23 \<and>
     (case from_bytes (u_script u) of
        Err _ \<Rightarrow> False
      | Ok spk \<Rightarrow> (case classify_script spk of P2CS h _ _ \<Rightarrow> h = take 20 (drop 3 s) | _ \<Rightarrow> False))"

definition get_utxos_for_staking_address :: "('sig, 'pk, 'x) node_lib_scheme \<Rightarrow> chain \<Rightarrow> bytes \<Rightarrow> utxo list" where
  "get_utxos_for_staking_address lib c addr =
     (let s = address_to_p2pkh_script lib addr in
      filter (\<lambda>u. u_script u = s \<or> staked_for s u) (fm_values (utxo_set c)))"

definition is_claimed :: "chain \<Rightarrow> bytes \<Rightarrow> bool" where
  "is_claimed c addr \<longleftrightarrow> addr |\<in>| claimed_addresses c"

section \<open>Recent history\<close>

type_synonym history_entry = "bytes \<times> u32 \<times> u32 \<times> string \<times> u64 \<times> u64"

definition tx_type_name :: "tx_type \<Rightarrow> string" where
  "tx_type_name t = (case t of Standard \<Rightarrow> ''Standard'' | Coinbase \<Rightarrow> ''Coinbase'' | Coinstake \<Rightarrow> ''Coinstake''
     | LegacyClaim \<Rightarrow> ''LegacyClaim'' | AtomicSwap \<Rightarrow> ''AtomicSwap'' | TorrentIncentive \<Rightarrow> ''TorrentIncentive'')"

fun recent_block ::
  "('sig, 'pk, 'x) node_lib_scheme \<Rightarrow> chain \<Rightarrow> nat \<Rightarrow> u32 \<Rightarrow> u32 \<Rightarrow> transaction list \<Rightarrow> history_entry list \<Rightarrow>
     history_entry list nresult" where
  "recent_block lib c limit ht ts [] result = Ok result"
| "recent_block lib c limit ht ts (tx # txs) result =
     (if length result \<ge> limit then Ok result
      else res_bind (checked_sum (map out_value (outputs tx))) (\<lambda>total_out.
        res_bind (tx_fee c tx total_out) (\<lambda>fee.
          recent_block lib c limit ht ts txs
            (result @ [(hex_encode lib (txid lib tx), ht, ts, tx_type_name (tx_kind tx), total_out, fee)]))))"

text \<open>One round of the outer loop; the flag says whether it goes on below.\<close>

definition recent_round ::
  "('sig, 'pk, 'x) node_lib_scheme \<Rightarrow> chain \<Rightarrow> nat \<Rightarrow> u32 \<Rightarrow> history_entry list \<Rightarrow>
     (history_entry list \<times> bool) nresult" where
  "recent_round lib c limit ht result =
     (if length result \<ge> limit then Ok (result, False)
      else case get_block_at_height c ht of
        None \<Rightarrow> Ok (result, False)
      | Some b \<Rightarrow> res_bind (recent_block lib c limit ht (timestamp (header b)) (rev (transactions b)) result)
          (\<lambda>result1. Ok (result1, True)))"

fun recent_from ::
  "('sig, 'pk, 'x) node_lib_scheme \<Rightarrow> chain \<Rightarrow> nat \<Rightarrow> nat \<Rightarrow> history_entry list \<Rightarrow> history_entry list nresult" where
  "recent_from lib c limit 0 result = res_bind (recent_round lib c limit 0 result) (\<lambda>(result1, _). Ok result1)"
| "recent_from lib c limit (Suc h) result =
     res_bind (recent_round lib c limit (of_nat (Suc h)) result) (\<lambda>(result1, on).
       if on then recent_from lib c limit h result1 else Ok result1)"

definition get_recent_transactions ::
  "('sig, 'pk, 'x) node_lib_scheme \<Rightarrow> chain \<Rightarrow> nat \<Rightarrow> history_entry list nresult" where
  "get_recent_transactions lib c limit = recent_from lib c limit (unat (best_height c)) []"

definition MAX_SCAN_BLOCKS :: u32 where "MAX_SCAN_BLOCKS = 200000"

text \<open>What a transaction moves for a set of scripts: \<open>None\<close> when it does not touch them.\<close>

definition wallet_entry ::
  "('sig, 'pk, 'x) node_lib_scheme \<Rightarrow> chain \<Rightarrow> bytes list \<Rightarrow> u32 \<Rightarrow> u32 \<Rightarrow> transaction \<Rightarrow>
     history_entry option nresult" where
  "wallet_entry lib c scripts ht ts tx =
     res_bind (checked_sum (map out_value (filter (\<lambda>out. script_pubkey out \<in> set scripts) (outputs tx)))) (\<lambda>received.
     res_bind (checked_sum (List.map_filter (\<lambda>inp.
         case resolve_output c (prev_txid inp) (prev_vout inp) of
           None \<Rightarrow> None
         | Some out \<Rightarrow> if script_pubkey out \<in> set scripts then Some (out_value out) else None) (inputs tx))) (\<lambda>sent.
     if received = 0 \<and> sent = 0 then Ok None
     else res_bind (tx_fee c tx (total_output tx)) (\<lambda>fee.
       let (direction, amount) =
             (if is_coinstake tx then (''stake'', sat_sub received sent)
              else if sent > 0 then (''send'', sat_sub (sat_sub sent received) fee)
              else (''receive'', received))
       in Ok (Some (hex_encode lib (txid lib tx), ht, ts, direction, amount, fee)))))"

text \<open>The loop over the transactions of a block; the flag says that the limit was met.\<close>

fun wallet_block ::
  "('sig, 'pk, 'x) node_lib_scheme \<Rightarrow> chain \<Rightarrow> bytes list \<Rightarrow> nat \<Rightarrow> u32 \<Rightarrow> u32 \<Rightarrow> transaction list \<Rightarrow>
     history_entry list \<Rightarrow> (history_entry list \<times> bool) nresult" where
  "wallet_block lib c scripts limit ht ts [] result = Ok (result, False)"
| "wallet_block lib c scripts limit ht ts (tx # txs) result =
     res_bind (wallet_entry lib c scripts ht ts tx) (\<lambda>entry. case entry of
       None \<Rightarrow> wallet_block lib c scripts limit ht ts txs result
     | Some e \<Rightarrow>
         if length (result @ [e]) = limit then Ok (result @ [e], True)
         else wallet_block lib c scripts limit ht ts txs (result @ [e]))"

fun wallet_scan ::
  "('sig, 'pk, 'x) node_lib_scheme \<Rightarrow> chain \<Rightarrow> bytes list \<Rightarrow> nat \<Rightarrow> nat list \<Rightarrow> history_entry list \<Rightarrow>
     history_entry list nresult" where
  "wallet_scan lib c scripts limit [] result = Ok result"
| "wallet_scan lib c scripts limit (h # hs) result =
     (case get_block_at_height c (of_nat h) of
        None \<Rightarrow> wallet_scan lib c scripts limit hs result
      | Some b \<Rightarrow>
          res_bind (wallet_block lib c scripts limit (of_nat h) (timestamp (header b)) (rev (transactions b)) result)
            (\<lambda>(result1, full). if full then Ok result1 else wallet_scan lib c scripts limit hs result1))"

definition get_recent_transactions_for_addresses ::
  "('sig, 'pk, 'x) node_lib_scheme \<Rightarrow> chain \<Rightarrow> bytes list \<Rightarrow> nat \<Rightarrow> history_entry list nresult" where
  "get_recent_transactions_for_addresses lib c addresses limit =
     (let scripts = filter (\<lambda>s. s \<noteq> []) (map (address_to_p2pkh_script lib) addresses);
          floor = unat (sat_sub (best_height c) MAX_SCAN_BLOCKS) in
      if scripts = [] then Ok []
      else wallet_scan lib c scripts limit (rev [floor..<Suc (unat (best_height c))]) [])"

section \<open>Blocks the chain builds itself\<close>

definition mint_coinbase :: "u32 \<Rightarrow> u64 \<Rightarrow> bytes \<Rightarrow> transaction" where
  "mint_coinbase ht amount s = \<lparr>tx_version = 1, tx_kind = Coinbase,
     inputs = [\<lparr>prev_txid = zero_hash, prev_vout = 0xffffffff, script_sig = [ucast ht], sequence = 0xffffffff\<rparr>],
     outputs = [\<lparr>out_value = amount, script_pubkey = s\<rparr>], lock_time = ht,
     claim_address = None, claim_signature = None\<rparr>"

definition with_merkle_root :: "('sig, 'pk, 'x) node_lib_scheme \<Rightarrow> block \<Rightarrow> block" where
  "with_merkle_root lib b = b\<lparr>header := (header b)\<lparr>merkle_root := compute_merkle_root lib b\<rparr>\<rparr>"

text \<open>The clock is read once for the block and once more by the validation.\<close>

definition mint_to_address ::
  "('sig, 'pk, 'x) node_lib_scheme \<Rightarrow> (bytes \<Rightarrow> u64) \<Rightarrow> (bytes \<Rightarrow> nat) \<Rightarrow> u32 \<Rightarrow> u32 \<Rightarrow> bytes \<Rightarrow> u64 \<Rightarrow>
     (chain, bytes, node_error) st" where
  "mint_to_address lib legacy_balance order now now' addr amount c =
     (let s = address_to_p2pkh_script lib addr; prev = get_header_at_height c (best_height c) in
      if amount = 0 then (c, Err (InvalidTransaction ''Mint amount must be non-zero''))
      else if s = [] then (c, Err (InvalidTransaction ''Invalid address''))
      else case best_hash c of
        None \<Rightarrow> (c, Err (ChainError ''Cannot mint: chain has no tip''))
      | Some prev_hash \<Rightarrow>
          if best_height c = - 1 then (c, Err overflow)
          else if sat_add (total_supply c) amount > MAX_SUPPLY
          then (c, Err (ChainError ''Mint would exceed maximum supply''))
          else
            (let ht = best_height c + 1;
                 prev_ts = (case prev of Some h \<Rightarrow> timestamp h | None \<Rightarrow> 0);
                 prev_modifier = (case prev of Some h \<Rightarrow> stake_modifier h | None \<Rightarrow> 0);
                 coinbase = mint_coinbase ht amount s;
                 b = with_merkle_root lib \<lparr>header = \<lparr>header_version = 1, prev_block_hash = prev_hash,
                   merkle_root = zero_hash, utxo_root = zero_hash, timestamp = max now (sat_add prev_ts 1),
                   bits = GENESIS_BITS, nonce = ht,
                   stake_modifier = compute_stake_modifier lib prev_modifier prev_hash\<rparr>,
                   transactions = [coinbase]\<rparr>
             in case add_block lib legacy_balance order now' b c of
                  (c1, Err e) \<Rightarrow> (c1, Err e)
                | (c1, Ok _) \<Rightarrow> (c1, Ok (txid lib coinbase))))"

definition bootstrap_block :: "('sig, 'pk, 'x) node_lib_scheme \<Rightarrow> chain \<Rightarrow> u32 \<Rightarrow> block \<Rightarrow> transaction \<Rightarrow> block" where
  "bootstrap_block lib c now genesis claim =
     (let genesis_hash = block_hash lib genesis;
          ts = max now (sat_add (timestamp (header genesis)) 1);
          b = with_merkle_root lib \<lparr>header = \<lparr>header_version = 2, prev_block_hash = genesis_hash,
            merkle_root = zero_hash, utxo_root = zero_hash, timestamp = ts, bits = GENESIS_BITS, nonce = 0,
            stake_modifier = compute_stake_modifier lib (stake_modifier (header genesis)) genesis_hash\<rparr>,
            transactions = [claim]\<rparr>;
          post = fm_values (utxo_set c) @ map (output_utxo (txid lib claim) 1 ts) (List.enumerate 0 (outputs claim))
      in b\<lparr>header := (header b)\<lparr>utxo_root := compute_utxo_root_sorted lib post\<rparr>\<rparr>)"

definition apply_bootstrap_claim ::
  "('sig, 'pk, 'x) node_lib_scheme \<Rightarrow> (bytes \<Rightarrow> u64) \<Rightarrow> (bytes \<Rightarrow> nat) \<Rightarrow> u32 \<Rightarrow> u32 \<Rightarrow> transaction \<Rightarrow>
     (chain, bytes, node_error) st" where
  "apply_bootstrap_claim lib legacy_balance order now now' claim c =
     (if best_height c \<noteq> 0
      then (c, Err (ChainError ''Bootstrap claim is only valid at height 1 (chain is not at genesis)''))
      else if tx_kind claim \<noteq> LegacyClaim
      then (c, Err (InvalidTransaction ''Bootstrap transaction must be a LegacyClaim''))
      else if lock_time claim \<noteq> 1
      then (c, Err (InvalidTransaction ''Bootstrap claim must have lock_time = 1 (the block height)''))
      else case genesis_block c of
        Err e \<Rightarrow> (c, Err e)
      | Ok genesis \<Rightarrow>
          (case add_block lib legacy_balance order now' (bootstrap_block lib c now genesis claim) c of
             (c1, Err e) \<Rightarrow> (c1, Err e)
           | (c1, Ok _) \<Rightarrow> (c1, Ok (case best_hash c1 of Some h \<Rightarrow> h | None \<Rightarrow> zero_hash))))"

section \<open>Steps of the chain\<close>

text \<open>Every operation that changes the chain adds a block or a setting.\<close>

lemma mint_adds_block:
  assumes "mint_to_address lib bal order now now' addr amount c = (c', r)"
  shows "c' = c \<or> (\<exists>b q. add_block lib bal order now' b c = (c', q) \<and> (\<forall>m. r \<noteq> Err (Panic m) \<longrightarrow> q \<noteq> Err (Panic m)))"
  using assms by (auto simp: mint_to_address_def Let_def split: if_splits option.splits prod.splits result.splits)

lemma bootstrap_adds_block:
  assumes "apply_bootstrap_claim lib bal order now now' claim c = (c', r)"
  shows "c' = c \<or> (\<exists>b q. add_block lib bal order now' b c = (c', q) \<and> (\<forall>m. r \<noteq> Err (Panic m) \<longrightarrow> q \<noteq> Err (Panic m)))"
  using assms by (auto simp: apply_bootstrap_claim_def split: if_splits prod.splits result.splits)

end
