(* ===== verification/ChainSupply.thy ===== *)
theory ChainSupply
  imports ChainProps ChainApi
begin

text \<open>
  The chains a node can reach from its genesis block, by any sequence of blocks that extend the tip,
  store a fork, reorganise or are rejected. Over all of them: the links between blocks are sound, the
  tip has the most work, and no coins exist beyond the recorded supply.
\<close>

section \<open>The genesis block\<close>

text \<open>Addresses as the snapshot decodes them: one entry each, short enough for their script.\<close>

definition snapshot_ok :: "snapshot \<Rightarrow> bool" where
  "snapshot_ok snap \<longleftrightarrow> distinct (map fst snap) \<and> list_all (\<lambda>(a, _). length a \<le> 34) snap"

lemma address_script_data:
  assumes "length a \<le> 34"
  shows "from_bytes (address_to_script a) = Ok (address_to_script a)"
    "classify_script (address_to_script a) = OpReturn"
  using assms by (simp_all add: from_bytes_def MAX_SCRIPT_SIZE_def address_to_script_def classify_script_def)

text \<open>Outputs that are neither spendable nor stakeable.\<close>

definition inert :: "tx_output \<Rightarrow> bool" where
  "inert out \<longleftrightarrow> out_value out = 0 \<or>
     (\<exists>s. from_bytes (script_pubkey out) = Ok s \<and> classify_script s = OpReturn)"

lemma inert_utxo:
  assumes "inert out"
  shows "coin_value (output_utxo tid ht ts (k, out)) = 0"
    "min_stake_amount params \<noteq> 0 \<Longrightarrow> \<not> is_stakeable_with params (output_utxo tid ht ts (k, out))"
  using assms
  by (auto simp: inert_def coin_value_def spendable_def output_utxo_def is_stakeable_with_def word_gt_0)

lemma add_inert_outputs:
  assumes "list_all inert outs" "min_stake_amount (chain_params c) \<noteq> 0"
  shows "\<exists>us chs. st_each (add_output tx tid ht ts) (List.enumerate k outs) (c, j) =
      ((c\<lparr>utxo_set := us\<rparr>, j\<lparr>changes := chs\<rparr>), Ok ()) \<and> coins us \<le> coins (utxo_set c) \<and>
      ((\<forall>out\<in>set outs. out_value out \<le> MAX_MONEY) \<longrightarrow> values_ok (utxo_set c) \<longrightarrow> values_ok us)"
  using assms
proof (induction outs arbitrary: k c j)
  case Nil
  show ?case by (simp, rule exI [of _ "utxo_set c"], simp, rule exI [of _ "changes j"], simp)
next
  case (Cons out outs)
  let ?u = "output_utxo tid ht ts (k, out)"
  have i: "coin_value ?u = 0" "\<not> is_stakeable_with (chain_params c) ?u"
    using inert_utxo [of out] Cons.prems by simp_all
  have le: "coins (fmupd key ?u us) \<le> coins us" for key us
    using fm_sum_upd_le [of coin_value key ?u us] i(1) by (simp add: coins_def)
  have vo: "out_value out \<le> MAX_MONEY \<longrightarrow> values_ok us \<longrightarrow> values_ok (fmupd key ?u us)" for key us
    by (simp add: values_ok_def output_utxo_def)
  obtain us chs where a: "add_output tx tid ht ts (k, out) (c, j) = ((c\<lparr>utxo_set := us\<rparr>, j\<lparr>changes := chs\<rparr>), Ok ())"
    "coins us \<le> coins (utxo_set c)" "out_value out \<le> MAX_MONEY \<longrightarrow> values_ok (utxo_set c) \<longrightarrow> values_ok us"
  proof (cases "is_utxo_eligible out tx ht")
    case True
    then show ?thesis using i(2) le vo
      by (intro that [of "fmupd (tid, of_nat k) ?u (utxo_set c)" "changes j @ [Utxo_Added (tid, of_nat k)]"])
        (simp_all add: add_output_def Let_def)
  next
    case False
    then show ?thesis by (intro that [of "utxo_set c" "changes j"]) (simp_all add: add_output_def)
  qed
  from Cons.IH [of "c\<lparr>utxo_set := us\<rparr>" "Suc k" "j\<lparr>changes := chs\<rparr>"] Cons.prems
  obtain us' chs' where "st_each (add_output tx tid ht ts) (List.enumerate (Suc k) outs)
      (c\<lparr>utxo_set := us\<rparr>, j\<lparr>changes := chs\<rparr>) = ((c\<lparr>utxo_set := us'\<rparr>, j\<lparr>changes := chs'\<rparr>), Ok ())"
    "coins us' \<le> coins us" "(\<forall>out\<in>set outs. out_value out \<le> MAX_MONEY) \<longrightarrow> values_ok us \<longrightarrow> values_ok us'" by auto
  then show ?case using a by (intro exI [of _ us'] exI [of _ chs']) simp
qed

lemma apply_genesis_tx:
  assumes "tx_kind tx = Coinbase \<or> tx_kind tx = LegacyClaim" "inputs tx = []" "claim_address tx = None"
    "claim_signature tx = None" "list_all inert (outputs tx)" "min_stake_amount (chain_params c) \<noteq> 0"
  shows "\<exists>us chs. apply_transaction lib bal tx 0 ts pm False (c, j) =
      ((c\<lparr>utxo_set := us\<rparr>, j\<lparr>changes := chs, supply_delta := sat_add (supply_delta j) (total_output tx)\<rparr>), Ok ()) \<and>
      coins us \<le> coins (utxo_set c) \<and>
      ((\<forall>out\<in>set (outputs tx). out_value out \<le> MAX_MONEY) \<longrightarrow> values_ok (utxo_set c) \<longrightarrow> values_ok us)"
proof -
  obtain us chs where a: "add_outputs lib tx 0 ts (c, j) = ((c\<lparr>utxo_set := us\<rparr>, j\<lparr>changes := chs\<rparr>), Ok ())"
    "coins us \<le> coins (utxo_set c)"
    "(\<forall>out\<in>set (outputs tx). out_value out \<le> MAX_MONEY) \<longrightarrow> values_ok (utxo_set c) \<longrightarrow> values_ok us"
    using add_inert_outputs [OF assms(5,6)] unfolding add_outputs_def by blast
  have "apply_claim lib bal tx 0 ts (c, j) = ((c, j), Ok ())"
    using assms(3,4) by (simp add: apply_claim_def st_then_def st_bind_def st_lift_def st_require_def record_claim_def)
  then have "apply_transaction lib bal tx 0 ts pm False (c, j) =
      ((c\<lparr>utxo_set := us\<rparr>, j\<lparr>changes := chs, supply_delta := sat_add (supply_delta j) (total_output tx)\<rparr>), Ok ())"
    using assms(1,2,3) a
    by (auto simp: apply_transaction_def process_governance_def apply_transaction_journaled_def spend_inputs_def
        finish_transaction_def st_then_def st_bind_def st_lift_def st_require_def st_update_def add_supply_def
        move_stake_lock_def compute_supply_delta_def is_coinbase_def is_coinstake_def is_legacy_claim_def
        is_transfer_def sat_sub_def)
  then show ?thesis using a(2,3) by blast
qed

lemma genesis_inert:
  "list_all inert (outputs genesis_coinbase)"
  "snapshot_ok snap \<Longrightarrow> list_all inert (outputs (legacy_distribution snap))"
  by (auto simp: genesis_coinbase_def inert_def legacy_distribution_def snapshot_ok_def list_all_iff address_script_data)

lemma genesis_totals:
  "total_output genesis_coinbase = 0"
  "unat (total_output (legacy_distribution snap)) = min (unclaimed snap {}) (2 ^ 64 - 1)"
proof -
  have "unat (total_output genesis_coinbase) = 0" by (simp add: total_output_eq genesis_coinbase_def)
  then show "total_output genesis_coinbase = 0" by (simp add: unat_eq_zero)
  have "sum_list (map (unat \<circ> out_value) (outputs (legacy_distribution snap))) = unclaimed snap {}"
    by (simp add: legacy_distribution_def unclaimed_def comp_def case_prod_unfold)
  then show "unat (total_output (legacy_distribution snap)) = min (unclaimed snap {}) (2 ^ 64 - 1)"
    by (simp add: total_output_eq)
qed

lemma sat_add_0 [simp]: "sat_add 0 (x :: u64) = x"
proof -
  have "unat x < 2 ^ LENGTH(64)" by (rule unsigned_less)
  then show ?thesis by (simp add: sat_add_def)
qed

lemma genesis_fields:
  "tx_kind genesis_coinbase = Coinbase" "inputs genesis_coinbase = []" "claim_address genesis_coinbase = None"
  "claim_signature genesis_coinbase = None"
  "tx_kind (legacy_distribution snap) = LegacyClaim" "inputs (legacy_distribution snap) = []"
  "claim_address (legacy_distribution snap) = None" "claim_signature (legacy_distribution snap) = None"
  by (simp_all add: genesis_coinbase_def legacy_distribution_def)

lemma genesis_coinbase_value: "\<forall>out\<in>set (outputs genesis_coinbase). out_value out \<le> MAX_MONEY"
  by (simp add: genesis_coinbase_def)

lemma snapshot_value: "x \<in> set snap \<Longrightarrow> unat (snd x) \<le> unclaimed snap {}"
  unfolding unclaimed_def by (intro member_le_sum_list) (auto simp: case_prod_unfold)

lemma legacy_distribution_value:
  assumes "unclaimed snap {} \<le> unat MAX_SUPPLY"
  shows "\<forall>out\<in>set (outputs (legacy_distribution snap)). out_value out \<le> MAX_MONEY"
  using assms
  by (auto simp: legacy_distribution_def MAX_MONEY_def word_le_nat_alt intro: order_trans dest!: snapshot_value)

lemma genesis_txs:
  assumes "snapshot_ok snap" "min_stake_amount (chain_params c) \<noteq> 0" "supply_delta j = 0"
  obtains us chs where "st_each (\<lambda>tx. apply_transaction lib bal tx 0 ts pm False)
      [genesis_coinbase, legacy_distribution snap] (c, j) =
      ((c\<lparr>utxo_set := us\<rparr>, j\<lparr>changes := chs, supply_delta := total_output (legacy_distribution snap)\<rparr>), Ok ())"
    "coins us \<le> coins (utxo_set c)"
    "(\<forall>out\<in>set (outputs (legacy_distribution snap)). out_value out \<le> MAX_MONEY) \<longrightarrow>
       values_ok (utxo_set c) \<longrightarrow> values_ok us"
proof -
  obtain us chs where 1: "apply_transaction lib bal genesis_coinbase 0 ts pm False (c, j) =
      ((c\<lparr>utxo_set := us\<rparr>, j\<lparr>changes := chs, supply_delta := sat_add (supply_delta j) (total_output genesis_coinbase)\<rparr>),
       Ok ())" "coins us \<le> coins (utxo_set c)" "values_ok (utxo_set c) \<longrightarrow> values_ok us"
    using apply_genesis_tx [of genesis_coinbase c lib bal ts pm j] genesis_inert(1) assms(2) genesis_coinbase_value
    by (auto simp: genesis_fields)
  obtain us' chs' where 2: "apply_transaction lib bal (legacy_distribution snap) 0 ts pm False
      (c\<lparr>utxo_set := us\<rparr>, j\<lparr>changes := chs, supply_delta := 0\<rparr>) =
      ((c\<lparr>utxo_set := us'\<rparr>, j\<lparr>changes := chs', supply_delta := total_output (legacy_distribution snap)\<rparr>), Ok ())"
    "coins us' \<le> coins us"
    "(\<forall>out\<in>set (outputs (legacy_distribution snap)). out_value out \<le> MAX_MONEY) \<longrightarrow> values_ok us \<longrightarrow> values_ok us'"
    using apply_genesis_tx [of "legacy_distribution snap" "c\<lparr>utxo_set := us\<rparr>" lib bal ts pm
        "j\<lparr>changes := chs, supply_delta := 0\<rparr>"] genesis_inert(2) [OF assms(1)] assms(2)
    by (auto simp: genesis_fields)
  show ?thesis using 1 2 assms(3) by (intro that [of us' chs']) (simp_all add: genesis_totals(1))
qed

lemma with_genesis_view [simp]:
  "chain_params (with_genesis lib snap) = default_params" "utxo_set (with_genesis lib snap) = fmempty"
  "total_supply (with_genesis lib snap) = 0" "total_staked (with_genesis lib snap) = 0" "claimed_addresses (with_genesis lib snap) = {||}"
  "governance_active (with_genesis lib snap) ht = False"
  by (simp_all add: with_genesis_def empty_chain_def Let_def governance_active_def
      governance_deployment_config_def governance_deployment_def)

lemma add_staked_0: "add_staked 0 0 = 0"
  by (simp add: add_staked_def)

lemma genesis_applies:
  assumes ok: "snapshot_ok snap"
  obtains (fits) us j where "unclaimed snap {} \<le> unat MAX_SUPPLY" "coins us = 0"
      "apply_block_journaled lib bal (create_genesis_block lib snap) 0 (with_genesis lib snap) =
        ((with_genesis lib snap)\<lparr>utxo_set := us, total_supply := of_nat (unclaimed snap {}), total_staked := 0\<rparr>, Ok j)"
      "values_ok us"
  | (exceeds) c e where "unat MAX_SUPPLY < unclaimed snap {}"
      "apply_block_journaled lib bal (create_genesis_block lib snap) 0 (with_genesis lib snap) = (c, Err e)"
proof -
  let ?c = "with_genesis lib snap" and ?g = "create_genesis_block lib snap"
  let ?j = "new_journal ?c (block_hash lib ?g) 0" and ?s = "total_output (legacy_distribution snap)"
  have txs: "transactions ?g = [genesis_coinbase, legacy_distribution snap]"
    by (simp add: create_genesis_block_def Let_def)
  have ms: "min_stake_amount (chain_params ?c) \<noteq> 0"
    by (simp add: default_params_def MIN_STAKE_AMOUNT_def COIN_def)
  obtain us chs where t: "st_each (\<lambda>tx. apply_transaction lib bal tx 0 (timestamp (header ?g)) 0 False)
      (transactions ?g) (?c, ?j) =
      ((?c\<lparr>utxo_set := us\<rparr>, ?j\<lparr>changes := chs, supply_delta := ?s\<rparr>), Ok ())" "coins us \<le> coins (utxo_set ?c)"
      "(\<forall>out\<in>set (outputs (legacy_distribution snap)). out_value out \<le> MAX_MONEY) \<longrightarrow>
         values_ok (utxo_set ?c) \<longrightarrow> values_ok us"
    unfolding txs using genesis_txs [OF ok ms] by (metis new_journal_def block_journal.select_convs(5))
  have c0: "coins us = 0" using t(2) by (simp add: coins_def fm_sum_def)
  have body: "apply_block_body lib bal ?g 0 0 False (?c, ?j) =
      commit_block lib (?c\<lparr>utxo_set := us\<rparr>, ?j\<lparr>changes := chs, supply_delta := ?s\<rparr>)"
    by (simp add: apply_block_body_def st_then_def st_bind_def on_chain_def begin_governance_block_def t(1))
  show ?thesis
  proof (cases "MAX_SUPPLY < ?s")
    case True
    then have "unat MAX_SUPPLY < unclaimed snap {}"
      using genesis_totals(2) [of snap] by (simp add: word_less_nat_alt)
    moreover have "\<exists>c e. apply_block_journaled lib bal ?g 0 ?c = (c, Err e)"
      using body True
      by (auto simp: apply_block_journaled_def parent_stake_modifier_def commit_block_def
          rollback_unless_panic_def Let_def split: prod.splits result.splits)
    ultimately show ?thesis using exceeds by blast
  next
    case False
    then have le: "unclaimed snap {} \<le> unat MAX_SUPPLY"
      using genesis_totals(2) [of snap] by (simp add: word_less_nat_alt unat_MAX_SUPPLY min_def split: if_splits)
    then have u: "unclaimed snap {} = unat ?s" using genesis_totals(2) [of snap] by (simp add: unat_MAX_SUPPLY)
    have s: "?s = of_nat (unclaimed snap {})" unfolding u by simp
    have "values_ok us" using t(3) legacy_distribution_value [OF le] by (simp add: values_ok_def)
    then show ?thesis
      using body False le c0
      by (intro fits [of us])
        (simp_all add: add_staked_0 apply_block_journaled_def parent_stake_modifier_def commit_block_def Let_def s new_journal_def)
  qed
qed

section \<open>The supply bound along every step\<close>

text \<open>What undoing one journal keeps, rolling back to the fork keeps; genesis is never undone.\<close>

lemma rollback_to_keeps:
  assumes "rollback_to lib fh c = (c', Ok r)" "P c" "journals_ok (length (height_index c)) (journals c)"
    and one: "\<And>c c' r. rollback_one_block lib c = (c', Ok r) \<Longrightarrow> P c \<Longrightarrow> j_height (last (journals c)) \<noteq> 0 \<Longrightarrow> P c'"
  shows "P c'"
  using assms(1-3) one
proof (induction lib fh c arbitrary: r rule: rollback_to.induct)
  case (1 lib fh c)
  show ?case
  proof (cases "fh < best_height c")
    case False
    then show ?thesis using "1.prems" by (simp add: rollback_to.simps)
  next
    case True
    obtain c1 r1 where rb: "rollback_one_block lib c = (c1, r1)" by fastforce
    obtain txs rbl where r1: "r1 = Ok (txs, rbl)"
      using "1.prems"(1) True rb by (cases r1) (auto simp: rollback_to.simps [of lib fh c])
    obtain c2 r2 where rt: "rollback_to lib fh c1 = (c2, r2)" by fastforce
    then obtain q where q: "r2 = Ok q" "c2 = c'"
      using "1.prems"(1) True rb r1 by (cases r2) (auto simp: rollback_to.simps [of lib fh c])
    from rb [unfolded r1] obtain js j where b: "journals c = js @ [j]" "journals c1 = js"
      "height_index c1 = butlast (height_index c)" by (rule rollback_one_block_Ok)
    have nz: "best_height c \<noteq> 0" using True by auto
    then obtain n where n: "length (height_index c) = Suc n"
      by (cases "length (height_index c)") (auto simp: best_height_def)
    have "j_height j = best_height c"
      using "1.prems"(3) b(1) by (auto simp: journals_ok_def best_height_def dest: spec [of _ 0])
    then have "P c1" using "1.prems"(4) [OF rb [unfolded r1] "1.prems"(2)] nz b(1) by simp
    moreover have "journals_ok (length (height_index c1)) (journals c1)"
      using "1.prems"(3) b n by (simp add: journals_ok_butlast)
    ultimately show ?thesis using "1.IH" [OF True rb [symmetric] r1 refl, of q] rt q "1.prems"(4) by simp
  qed
qed

lemma hist_inv_rollback_to:
  "rollback_to lib fh c = (c', Ok r) \<Longrightarrow> hist_inv snap c \<Longrightarrow> journals_ok (length (height_index c)) (journals c) \<Longrightarrow>
     hist_inv snap c'"
  by (erule (2) rollback_to_keeps) (rule hist_inv_rollback)

lemma hist_inv_switch:
  assumes "switch_branch lib (get_legacy_balance snap) fp fh tip th c = (c', Ok r)"
    and "hist_inv snap c" "distinct (map fst snap)" "chain_wf c"
  shows "hist_inv snap c'"
proof -
  obtain c1 q afs path where "rollback_to lib fh c = (c1, Ok q)"
    "st_collect (apply_fork_block lib (get_legacy_balance snap) fh) (List.enumerate 0 path) c1 = (c', Ok afs)"
    using assms(1) by (auto simp: switch_branch_def st_bind_eq_Ok st_then_eq_Ok split: prod.splits)
  moreover have "journals_ok (length (height_index c)) (journals c)" using assms(4) by (simp add: chain_wf_def)
  ultimately show ?thesis using hist_inv_rollback_to hist_inv_collect assms(2,3) by metis
qed

lemma hist_inv_reorganize:
  assumes "reorganize_to lib (get_legacy_balance snap) tip th c = (c', Ok x)"
    and "hist_inv snap c" "distinct (map fst snap)" "chain_wf c"
  shows "hist_inv snap c'"
proof -
  obtain c1 r1 where i: "reorganize_to_inner lib (get_legacy_balance snap) tip th c = (c1, r1)" by fastforce
  then have r1: "r1 = Ok x" "c' = c1" using assms(1) by (cases r1; simp add: reorganize_to_def)+
  obtain fp fh where "switch_branch lib (get_legacy_balance snap) fp fh tip th c = (c1, Ok x)"
    using i r1 by (auto simp: reorganize_to_inner_def Let_def split: result.splits option.splits if_splits)
  then show ?thesis using hist_inv_switch assms(2-) r1(2) by blast
qed

lemma hist_inv_add_main:
  assumes "add_main_block lib (get_legacy_balance snap) order now b c = (c', r)" "\<forall>m. r \<noteq> Err (Panic m)"
    and inv: "hist_inv snap c" and d: "distinct (map fst snap)"
  shows "hist_inv snap c'"
  using assms(1,2)
proof (cases rule: add_main_block_cases)
  case (rejected e)
  then show ?thesis using inv by simp
next
  case (failed e)
  then show ?thesis using hist_inv_failed inv by blast
next
  case (mismatch c1 j e)
  then show ?thesis using hist_inv_rolled_back inv by blast
next
  case (extended ph c1 j x)
  have "best_height c + 1 \<noteq> 0" using extended(1) by (metis eq_neg_iff_add_eq_0)
  then have "hist_inv snap (trim_journals (c1\<lparr>journals := journals c1 @ [j]\<rparr>))"
    by (intro hist_inv_trim hist_inv_applied [OF extended(4) inv d])
  moreover have "money_view c' = money_view (trim_journals (c1\<lparr>journals := journals c1 @ [j]\<rparr>))"
    by (simp add: extended(6) extended_chain_def Let_def)
  ultimately show ?thesis by (rule hist_inv_view)
qed

lemma hist_inv_add_fork:
  assumes run: "add_fork_block lib (get_legacy_balance snap) order now main_tip m b c = (c', r)"
    and np: "\<forall>m. r \<noteq> Err (Panic m)" and inv: "hist_inv snap c" and d: "distinct (map fst snap)"
    and wf: "chain_wf c" and new: "fmlookup (block_heights c) (block_hash lib b) = None"
    and par: "fmlookup (block_heights c) (prev_block_hash (header b)) = Some m"
  shows "hist_inv snap c'"
proof (cases r)
  case (Err e)
  then have "\<not> is_panic e" using np by (auto simp: is_panic_iff)
  then show ?thesis using fork_rejected [OF wf new] run Err inv by blast
next
  case (Ok x)
  from run np refl refl refl show ?thesis
  proof (cases rule: add_fork_block_cases)
    case (stored ph)
    then show ?thesis by (intro hist_inv_view [OF inv]) simp
  next
    case (reorganized ph c2 txs rbs afs)
    have "tree_ok (hd (height_index c)) c" using wf by (simp add: chain_wf_def)
    then have "chain_wf (register_block (block_hash lib b) (prev_block_hash (header b)) (m + 1)
        (work_of c (prev_block_hash (header b)) + 1) b c)"
      using register_wf [OF wf new par reorganized(1)] ucast_Suc_u32 [OF reorganized(1)] par
      by (simp add: work_of_known)
    then have "hist_inv snap c2" by (intro hist_inv_reorganize [OF reorganized(6) hist_inv_view [OF inv] d]) simp_all
    then show ?thesis by (rule hist_inv_view) (simp add: reorganized(7))
  qed (simp_all add: Ok inv)
qed

lemma hist_inv_add_block:
  assumes "add_block lib (get_legacy_balance snap) order now b c = (c', r)" "\<forall>m. r \<noteq> Err (Panic m)"
    and "hist_inv snap c" "distinct (map fst snap)" "chain_wf c"
  shows "hist_inv snap c'"
  using assms(1) refl
proof (cases rule: add_block_cases)
  case main
  show ?thesis by (rule hist_inv_add_main [OF main(3) assms(2-4)])
next
  case (fork m)
  show ?thesis by (rule hist_inv_add_fork [OF fork(4) assms(2-5) fork(1,3)])
qed (simp_all add: assms(3))

section \<open>Reachable chains\<close>

text \<open>
  A node starts from one of the three constructors, hands blocks to \<^const>\<open>add_block\<close> in any order,
  at any time, and changes its settings. A panic ends the node.
\<close>

inductive chain_reach :: "('sig, 'pk, 'x) node_lib_scheme \<Rightarrow> snapshot \<Rightarrow> chain \<Rightarrow> bool" for lib snap where
  main_net: "new_chain lib snap = Ok c \<Longrightarrow> chain_reach lib snap c"
| regtest: "new_regtest lib snap = Ok c \<Longrightarrow> chain_reach lib snap c"
| regtest_fast: "new_regtest_fast lib snap = Ok c \<Longrightarrow> chain_reach lib snap c"
| block: "chain_reach lib snap c \<Longrightarrow> add_block lib (get_legacy_balance snap) order now b c = (c', r) \<Longrightarrow>
    \<forall>m. r \<noteq> Err (Panic m) \<Longrightarrow> chain_reach lib snap c'"
| body_cache: "chain_reach lib snap c \<Longrightarrow> chain_reach lib snap (set_block_body_cache n c)"
| body_source: "chain_reach lib snap c \<Longrightarrow> chain_reach lib snap (set_body_source s c)"
| test_activation: "chain_reach lib snap c \<Longrightarrow> chain_reach lib snap (set_governance_test_activation ht c)"
| test_deployment: "chain_reach lib snap c \<Longrightarrow> chain_reach lib snap (set_governance_test_deployment dep period c)"

lemma mint_reach:
  assumes "chain_reach lib snap c" "mint_to_address lib (get_legacy_balance snap) order now now' addr amount c = (c', r)"
    "\<forall>m. r \<noteq> Err (Panic m)"
  shows "chain_reach lib snap c'"
  using mint_adds_block [OF assms(2)] assms(1,3) chain_reach.block by blast

lemma bootstrap_reach:
  assumes "chain_reach lib snap c" "apply_bootstrap_claim lib (get_legacy_balance snap) order now now' claim c = (c', r)"
    "\<forall>m. r \<noteq> Err (Panic m)"
  shows "chain_reach lib snap c'"
  using bootstrap_adds_block [OF assms(2)] assms(1,3) chain_reach.block by blast

text \<open>What holds of every reachable chain.\<close>

definition chain_sound :: "snapshot \<Rightarrow> chain \<Rightarrow> bool" where
  "chain_sound snap c \<longleftrightarrow> chain_wf c \<and> tip_highest c \<and> (snapshot_ok snap \<longrightarrow> hist_inv snap c)"

text \<open>The fields the soundness of a chain depends on.\<close>

definition chain_view where
  "chain_view c = (money_view c, height_index c, blocks c, headers c, parent_map c, block_heights c, cumulative_work c)"

lemma chain_sound_view: "chain_sound snap c \<Longrightarrow> chain_view c' = chain_view c \<Longrightarrow> chain_sound snap c'"
  by (auto simp: chain_sound_def chain_view_def money_view_def hist_inv_def chain_wf_def tip_highest_def
      main_ok_def tree_ok_def best_height_def)

lemma new_chain_Ok:
  assumes "new_chain lib snap = Ok c"
  obtains c1 j where
    "apply_block_journaled lib (get_legacy_balance snap) (create_genesis_block lib snap) 0 (with_genesis lib snap) = (c1, Ok j)"
    "c = (index_block_transactions lib (block_hash lib (create_genesis_block lib snap))
       (create_genesis_block lib snap) c1)\<lparr>journals := [j]\<rparr>"
  using assms by (auto simp: new_chain_def Let_def split: prod.splits result.splits)

lemma genesis_sound:
  assumes "new_chain lib snap = Ok c"
  shows "chain_sound snap c"
proof -
  let ?h = "block_hash lib (create_genesis_block lib snap)"
  obtain c1 j where a: "apply_block_journaled lib (get_legacy_balance snap) (create_genesis_block lib snap) 0
      (with_genesis lib snap) = (c1, Ok j)"
    and c: "c = (index_block_transactions lib ?h (create_genesis_block lib snap) c1)\<lparr>journals := [j]\<rparr>"
    using assms by (rule new_chain_Ok)
  have u: "j_height j = 0" "same_static (with_genesis lib snap) c1"
    using apply_block_undoes [OF a] by (simp_all add: undoes_def)
  have i: "height_index c = [?h]" "block_heights c = fmupd ?h 0 fmempty" "parent_map c = fmempty"
    "cumulative_work c = fmupd ?h 1 fmempty" "fmdom (headers c) = {|?h|}" "fmdom (blocks c) = {|?h|}" "journals c = [j]"
    using same_staticD [OF u(2)]
    by (simp_all add: c index_block_transactions_def with_genesis_def empty_chain_def Let_def)
  have "chain_wf c" "tip_highest c"
    by (auto simp: chain_wf_def main_ok_def tree_ok_def journals_ok_def tip_highest_def best_height_def i u(1))
  moreover have "hist_inv snap c" if ok: "snapshot_ok snap"
  proof -
    have "money_ok snap (utxo_set c1) (claimed_addresses c1) (total_supply c1)"
      using ok
    proof (cases rule: genesis_applies [of snap lib "get_legacy_balance snap"])
      case (fits us j')
      then have c1: "c1 = (with_genesis lib snap)\<lparr>utxo_set := us, total_supply := of_nat (unclaimed snap {}), total_staked := 0\<rparr>"
        using a by simp
      have "unat (of_nat (unclaimed snap {}) :: u64) = unclaimed snap {}"
        using fits(1) by (simp only: unat_of_nat) (simp add: unat_MAX_SUPPLY)
      then show ?thesis using fits(1,2) by (simp add: c1 money_ok_def word_le_nat_alt)
    next
      case (exceeds c' e)
      then show ?thesis using a by simp
    qed
    then show ?thesis by (simp add: hist_inv_def c index_block_transactions_def u(1))
  qed
  ultimately show ?thesis by (simp add: chain_sound_def)
qed

lemma reach_sound: "chain_reach lib snap c \<Longrightarrow> chain_sound snap c"
proof (induction rule: chain_reach.induct)
  case (main_net c)
  then show ?case by (rule genesis_sound)
next
  case (regtest c)
  then obtain c0 where "new_chain lib snap = Ok c0" "chain_view c = chain_view c0"
    by (cases "new_chain lib snap") (auto simp: new_regtest_def chain_view_def money_view_def)
  then show ?case using genesis_sound chain_sound_view by blast
next
  case (regtest_fast c)
  then obtain c0 where "new_chain lib snap = Ok c0" "chain_view c = chain_view c0"
    by (cases "new_chain lib snap") (auto simp: new_regtest_def new_regtest_fast_def chain_view_def money_view_def)
  then show ?case using genesis_sound chain_sound_view by blast
next
  case (block c order now b c' r)
  have wf: "chain_wf c" "tip_highest c" using block.IH by (simp_all add: chain_sound_def)
  have "hist_inv snap c'" if "snapshot_ok snap"
    using that block.IH hist_inv_add_block [OF block.hyps(2,3)] by (simp add: chain_sound_def snapshot_ok_def)
  then show ?case using add_block_wf [OF wf block.hyps(2,3)] by (simp add: chain_sound_def)
qed (erule chain_sound_view; simp add: chain_view_def money_view_def set_block_body_cache_def set_body_source_def
    set_governance_test_activation_def set_governance_test_deployment_def)+

section \<open>Properties\<close>

lemma work_mono:
  assumes "(m :: u32) \<le> n"
  shows "ucast m + 1 \<le> (ucast n + 1 :: u64)"
proof -
  have "unat (ucast m + 1 :: u64) = unat m + 1" "unat (ucast n + 1 :: u64) = unat n + 1"
    using unat_u32_less [of m] unat_u32_less [of n] by (simp_all add: unat_word_ariths unat_ucast_u64)
  then show ?thesis using assms by (simp add: word_le_nat_alt)
qed

lemma new_chain_outcome:
  assumes "snapshot_ok snap"
  shows "(\<exists>c. new_chain lib snap = Ok c \<and> unat (total_supply c) = unclaimed snap {}) \<longleftrightarrow>
      unclaimed snap {} \<le> unat MAX_SUPPLY"
    and "is_ok (new_chain lib snap) \<longleftrightarrow> unclaimed snap {} \<le> unat MAX_SUPPLY"
proof -
  have "(\<exists>c. new_chain lib snap = Ok c \<and> unat (total_supply c) = unclaimed snap {}) = (unclaimed snap {} \<le> unat MAX_SUPPLY) \<and>
      is_ok (new_chain lib snap) = (unclaimed snap {} \<le> unat MAX_SUPPLY)"
    using assms
  proof (cases rule: genesis_applies [of snap lib "get_legacy_balance snap"])
    case (fits us j)
    have "unat (of_nat (unclaimed snap {}) :: u64) = unclaimed snap {}"
      using fits(1) by (simp only: unat_of_nat) (simp add: unat_MAX_SUPPLY)
    then show ?thesis using fits by (simp add: new_chain_def Let_def index_block_transactions_def)
  next
    case (exceeds c e)
    then show ?thesis by (simp add: new_chain_def Let_def)
  qed
  then show "(\<exists>c. new_chain lib snap = Ok c \<and> unat (total_supply c) = unclaimed snap {}) \<longleftrightarrow>
      unclaimed snap {} \<le> unat MAX_SUPPLY"
    "is_ok (new_chain lib snap) \<longleftrightarrow> unclaimed snap {} \<le> unat MAX_SUPPLY" by auto
qed

lemma sample_snapshot_ok: "snapshot_ok sample_snapshot" "unclaimed sample_snapshot {} \<le> unat MAX_SUPPLY"
  by (simp_all add: snapshot_ok_def sample_snapshot_def unclaimed_def unat_MAX_SUPPLY)

lemma sample_start: "\<exists>c. new_chain sample_lib sample_snapshot = Ok c"
  using new_chain_outcome [OF sample_snapshot_ok(1)] sample_snapshot_ok(2) by blast

lemma genesis_tip:
  assumes "new_chain lib snap = Ok c" "h = block_hash lib (create_genesis_block lib snap)"
  shows "height_index c = [h]" "fmlookup (block_heights c) x = (if x = h then Some 0 else None)"
    "cumulative_work c = fmupd h 1 fmempty" "fmlookup (headers c) h = Some (header (create_genesis_block lib snap))"
proof -
  obtain c1 j where a: "apply_block_journaled lib (get_legacy_balance snap) (create_genesis_block lib snap) 0
      (with_genesis lib snap) = (c1, Ok j)"
    and c: "c = (index_block_transactions lib h (create_genesis_block lib snap) c1)\<lparr>journals := [j]\<rparr>"
    using assms by (auto elim: new_chain_Ok)
  have "same_static (with_genesis lib snap) c1" using apply_block_undoes [OF a] by (simp add: undoes_def)
  from same_staticD [OF this]
  show "height_index c = [h]" "fmlookup (block_heights c) x = (if x = h then Some 0 else None)"
    "cumulative_work c = fmupd h 1 fmempty" "fmlookup (headers c) h = Some (header (create_genesis_block lib snap))"
    by (simp_all add: c assms(2) index_block_transactions_def with_genesis_def empty_chain_def Let_def)
qed

lemma ancestors_head: "ancestors_from pm g h = Some path \<Longrightarrow> hd path = h"
  by (subst (asm) ancestors_from.simps) (auto simp: bind_eq_Some_conv split: if_splits option.splits)

text \<open>
  C1: coins cannot be created. In every chain a node can reach, through extensions, forks,
  reorganisations and rejected blocks, the value of the spendable outputs and of the snapshot balances
  not yet claimed is at most the recorded supply, which is at most the maximum supply.
\<close>

theorem reachable_supply:
  assumes "chain_reach lib snap c" "snapshot_ok snap"
  shows "coins (utxo_set c) + unclaimed_in snap c \<le> unat (total_supply c) \<and> total_supply c \<le> MAX_SUPPLY"
proof -
  have "hist_inv snap c" using reach_sound [OF assms(1)] assms(2) by (simp add: chain_sound_def)
  then have "supply_inv snap c" by (rule hist_inv_supply)
  then show ?thesis by (simp add: supply_inv_def)
qed

theorem reachable_supply_witness:
  "\<exists>c. chain_reach sample_lib sample_snapshot c \<and>
     coins (utxo_set c) + unclaimed_in sample_snapshot c \<le> unat (total_supply c) \<and> total_supply c \<le> MAX_SUPPLY"
  using sample_start chain_reach.main_net reachable_supply [OF _ sample_snapshot_ok(1)] by blast

text \<open>
  C2: the fork choice. In every reachable chain the tip of the main chain has at least the work of
  every block the node knows, on whatever branch.
\<close>

theorem tip_most_work:
  assumes "chain_reach lib snap c" "fmlookup (cumulative_work c) h = Some w"
  shows "\<exists>tip wt. best_hash c = Some tip \<and> fmlookup (cumulative_work c) tip = Some wt \<and> w \<le> wt"
proof -
  have wf: "chain_wf c" "tip_highest c" using reach_sound [OF assms(1)] by (simp_all add: chain_sound_def)
  then have tr: "tree_ok (hd (height_index c)) c" by (simp add: chain_wf_def)
  obtain n where n: "fmlookup (block_heights c) h = Some n" "w = ucast n + 1"
    using tree_okD(5) [OF tr, of h] assms(2) by (cases "fmlookup (block_heights c) h") auto
  have "n \<le> best_height c" using wf(2) n(1) by (auto simp: tip_highest_def)
  moreover have "fmlookup (cumulative_work c) (last (height_index c)) = Some (ucast (best_height c) + 1)"
    using tree_okD(5) [OF tr] tip_height(2) [OF wf(1)] by simp
  ultimately show ?thesis using tip_height(1) [OF wf(1)] n(2) by (simp add: work_mono)
qed

theorem tip_most_work_witness:
  "\<exists>c h. chain_reach sample_lib sample_snapshot c \<and> fmlookup (cumulative_work c) h = Some 1 \<and>
     (\<exists>tip wt. best_hash c = Some tip \<and> fmlookup (cumulative_work c) tip = Some wt \<and> 1 \<le> wt)"
proof -
  obtain c where c: "new_chain sample_lib sample_snapshot = Ok c" using sample_start by blast
  then have r: "chain_reach sample_lib sample_snapshot c" by (rule chain_reach.main_net)
  obtain h where "fmlookup (cumulative_work c) h = Some 1" using genesis_tip(3) [OF c refl] by auto
  from r this tip_most_work [OF r this] show ?thesis by blast
qed

text \<open>
  C3: a rejected block leaves no trace. Whatever makes \<^const>\<open>add_block\<close> return an error, a failed
  validation, a transaction half way through the block, a state root that does not match, or a branch
  that cannot be applied, the chain is exactly what it was. A block that extends the tip must create
  outpoints that are not in the set, which the hash in their identifiers ensures.
\<close>

theorem add_block_atomic:
  assumes "chain_reach lib snap c" "add_block lib bal order now b c = (c', Err e)" "\<forall>m. e \<noteq> Panic m"
    and "best_hash c = Some (prev_block_hash (header b)) \<Longrightarrow> fresh_txs lib (transactions b) c"
  shows "c' = c"
proof -
  have wf: "chain_wf c" using reach_sound [OF assms(1)] by (simp add: chain_sound_def)
  have np: "\<not> is_panic e" "\<forall>m. Err e \<noteq> (Err (Panic m) :: (block_acceptance, node_error) result)"
    using assms(3) by (auto simp: is_panic_iff)
  show ?thesis
    using assms(2) refl
  proof (cases rule: add_block_cases)
    case main
    then have fresh: "fresh_txs lib (transactions b) c" using assms(4) tip_height(1) [OF wf] by simp
    from main(3) np(2) show ?thesis
    proof (cases rule: add_main_block_cases)
      case (failed e')
      then show ?thesis using block_atomic [OF fresh failed(1)] by (auto simp: is_panic_iff)
    next
      case (mismatch c1 j e')
      then show ?thesis using block_rollback [OF fresh mismatch(1)] by simp
    qed simp_all
  next
    case (fork m)
    show ?thesis by (rule fork_rejected [OF wf fork(1,4) np(1)])
  qed simp_all
qed

text \<open>A block without transactions on top of a given one.\<close>

definition empty_block :: "bytes \<Rightarrow> block" where
  "empty_block h = \<lparr>header = parent_header\<lparr>prev_block_hash := h\<rparr>, transactions = []\<rparr>"

lemma empty_block_new:
  "block_hash sample_lib (empty_block h) \<noteq> block_hash sample_lib (create_genesis_block sample_lib snap)"
proof
  assume e: "block_hash sample_lib (empty_block h) = block_hash sample_lib (create_genesis_block sample_lib snap)"
  have "take 4 (block_hash sample_lib (empty_block h)) = u32_le 4000"
    "take 4 (block_hash sample_lib (create_genesis_block sample_lib snap)) = u32_le 1700000000"
    by (simp_all add: block_hash_def header_hash_def sha256d_def sample_lib_def pad_to_def empty_block_def
        parent_header_def create_genesis_block_def GENESIS_TIMESTAMP_def Let_def u32_le_def)
  then have "u32_le 4000 = u32_le 1700000000" using e by metis
  then have "(4000 :: u32) = 1700000000" by (simp only: u32c.enc_inject)
  then show False by simp
qed

lemma empty_block_rejected:
  assumes "new_chain sample_lib snap = Ok c" "h = block_hash sample_lib (create_genesis_block sample_lib snap)"
  shows "\<exists>c'. add_block sample_lib bal order now (empty_block h) c =
    (c', Err (InvalidBlock ''Block has no transactions''))"
proof -
  note g = genesis_tip [OF assms]
  have "block_hash sample_lib (empty_block h) \<noteq> h" using empty_block_new assms(2) by simp
  moreover have "best_hash c = Some h" "best_height c = 0" using g(1) by (simp_all add: best_hash_def best_height_def)
  ultimately show ?thesis
    using g by (simp add: add_block_def add_main_block_def get_header_at_height_def nth_opt_def empty_block_def
        validate_child_def validate_block_inner_def)
qed

theorem add_block_atomic_witness:
  "\<exists>c h e. chain_reach sample_lib sample_snapshot c \<and> best_hash c = Some h \<and>
     add_block sample_lib (\<lambda>_. 0) (\<lambda>_. 0) 0 (empty_block h) c = (c, Err e)"
proof -
  obtain c where c: "new_chain sample_lib sample_snapshot = Ok c" using sample_start by blast
  let ?h = "block_hash sample_lib (create_genesis_block sample_lib sample_snapshot)"
  have r: "chain_reach sample_lib sample_snapshot c" using c by (rule chain_reach.main_net)
  obtain c' where a: "add_block sample_lib (\<lambda>_. 0) (\<lambda>_. 0) 0 (empty_block ?h) c =
      (c', Err (InvalidBlock ''Block has no transactions''))"
    using empty_block_rejected [OF c refl] by blast
  have "fresh_txs sample_lib (transactions (empty_block ?h)) c" by (simp add: empty_block_def fresh_txs_def)
  then have "c' = c" using add_block_atomic [OF r a] by simp
  moreover have "best_hash c = Some ?h" using genesis_tip(1) [OF c refl] by (simp add: best_hash_def)
  ultimately show ?thesis using r a by blast
qed

text \<open>
  C4: the walks over parent links end. In every reachable chain, from every known block, the list of
  its ancestors is found, runs down to genesis and has one block for each height; and the walk that
  collects the branch to apply returns for every fork point, with a path or a missing parent.
\<close>

theorem parent_walks_end:
  assumes "chain_reach lib snap c" "fmlookup (block_heights c) h = Some n"
  shows "(\<exists>path. ancestors c h = Ok path \<and> length path = Suc (unat n) \<and> hd path = h \<and>
      last path = hd (height_index c)) \<and> (\<forall>fp m. to_apply c fp h \<noteq> Err (Panic m))"
proof -
  let ?g = "hd (height_index c)"
  have wf: "chain_wf c" using reach_sound [OF assms(1)] by (simp add: chain_sound_def)
  then have tr: "tree_ok ?g c" and ne: "height_index c \<noteq> []" by (simp_all add: chain_wf_def main_ok_def)
  obtain path where p: "ancestors_from (parent_map c) ?g h = Some path" "length path = Suc (unat n)" "last path = ?g"
    using ancestors_known [OF tr assms(2)] by blast
  have "ancestors c h = Ok path" using p(1) ne by (cases "height_index c") (simp_all add: ancestors_def ok_or_def)
  moreover have "hd path = h" using p(1) by (rule ancestors_head)
  moreover have "to_apply c fp h \<noteq> Err (Panic m)" for fp m
    using path_down_returns [OF tr assms(2), of fp] by (auto simp: to_apply_def split: option.split)
  ultimately show ?thesis using p(2,3) by blast
qed

theorem parent_walks_end_witness:
  "\<exists>c h. chain_reach sample_lib sample_snapshot c \<and> fmlookup (block_heights c) h = Some 0 \<and>
     (\<exists>path. ancestors c h = Ok path \<and> length path = Suc (unat (0 :: u32)) \<and> hd path = h \<and>
      last path = hd (height_index c))"
proof -
  obtain c where c: "new_chain sample_lib sample_snapshot = Ok c" using sample_start by blast
  then have r: "chain_reach sample_lib sample_snapshot c" by (rule chain_reach.main_net)
  obtain h where h: "fmlookup (block_heights c) h = Some 0" using genesis_tip(2) [OF c refl] by auto
  show ?thesis using r h parent_walks_end [OF r h] by blast
qed

text \<open>
  C5: a node can start exactly when the snapshot fits. For a snapshot whose addresses are distinct and
  at most 34 bytes long, building the genesis chain succeeds if and only if the balances sum to at
  most the maximum supply, and whenever it succeeds the recorded supply is that sum.
\<close>

theorem new_chain_starts:
  assumes "snapshot_ok snap"
  shows "(is_ok (new_chain lib snap) \<longleftrightarrow> unclaimed snap {} \<le> unat MAX_SUPPLY) \<and>
    (\<forall>c. new_chain lib snap = Ok c \<longrightarrow> unat (total_supply c) = unclaimed snap {})"
  using new_chain_outcome [OF assms, of lib] by (cases "new_chain lib snap") auto

theorem new_chain_starts_witness:
  "\<exists>c. new_chain sample_lib sample_snapshot = Ok c \<and> unat (total_supply c) = unclaimed sample_snapshot {}"
proof -
  have "is_ok (new_chain sample_lib sample_snapshot)"
    using new_chain_starts [OF sample_snapshot_ok(1)] sample_snapshot_ok(2) by blast
  then show ?thesis using new_chain_starts [OF sample_snapshot_ok(1), of sample_lib]
    by (cases "new_chain sample_lib sample_snapshot") auto
qed

end
