(* ===== verification/ChainStaked.thy ===== *)
theory ChainStaked
  imports ChainSupply ConsensusProps
begin

text \<open>
  The staked supply over the life of a chain. The code never sums the stakeable outputs again unless
  governance changes the minimum stake: it adds signed changes and puts saved values back when it
  undoes a block. Along every run whose applied blocks create new outpoints the value is exact.
\<close>

section \<open>Exact now and after undoing\<close>

definition staked_exact :: "(out_point, utxo) fmap \<Rightarrow> consensus_params \<Rightarrow> u64 \<Rightarrow> bool" where
  "staked_exact us p t \<longleftrightarrow> unat t = staked p us \<and> values_ok us"

fun staked_hist ::
  "block_journal list \<Rightarrow> (out_point, utxo) fmap \<Rightarrow> consensus_params \<Rightarrow> u64 \<Rightarrow> bool" where
  "staked_hist [] us p t = staked_exact us p t"
| "staked_hist (j # js) us p t = (staked_exact us p t \<and> (j_height j = 0 \<or>
     staked_hist js (foldl undo_change us (rev (changes j))) (previous_params j) (previous_staked j)))"

definition bodies_bounded :: "chain \<Rightarrow> bool" where
  "bodies_bounded c \<longleftrightarrow> (\<forall>h b. fmlookup (blocks c) h = Some b \<longrightarrow> outputs_bounded (transactions b))"

definition staked_sound :: "snapshot \<Rightarrow> chain \<Rightarrow> bool" where
  "staked_sound snap c \<longleftrightarrow> hist_inv snap c \<and> bodies_bounded c \<and>
     staked_hist (rev (journals c)) (utxo_set c) (chain_params c) (total_staked c)"

lemma staked_hist_exact: "staked_hist js us p t \<Longrightarrow> staked_exact us p t"
  by (cases js) auto

lemma staked_soundD:
  assumes "staked_sound snap c"
  shows "staked_inv c" "supply_inv snap c" "bodies_bounded c"
  using assms hist_inv_supply
  by (auto simp: staked_sound_def staked_inv_def staked_exact_def dest: staked_hist_exact)

lemma staked_hist_take: "staked_hist js us p t \<Longrightarrow> staked_hist (take n js) us p t"
proof (induction js arbitrary: n us p t)
  case (Cons j js)
  then show ?case by (cases n) auto
qed simp

lemma staked_sound_trim: "staked_sound snap c \<Longrightarrow> staked_sound snap (trim_journals c)"
  using hist_inv_trim [of snap c]
  by (simp add: staked_sound_def trim_journals_def rev_drop staked_hist_take bodies_bounded_def)

text \<open>Bookkeeping keeps it, and forgetting bodies.\<close>

definition same_staking :: "chain \<Rightarrow> chain \<Rightarrow> bool" where
  "same_staking c c' \<longleftrightarrow> money_view c' = money_view c \<and> total_staked c' = total_staked c \<and>
     chain_params c' = chain_params c"

lemma same_staking_sound:
  "staked_sound snap c \<Longrightarrow> same_staking c c' \<Longrightarrow> bodies_bounded c' \<Longrightarrow> staked_sound snap c'"
  using hist_inv_view [of snap c c'] by (simp add: staked_sound_def same_staking_def money_view_def)

lemma same_staking_trans: "same_staking c d \<Longrightarrow> same_staking d e \<Longrightarrow> same_staking c e"
  by (simp add: same_staking_def)

lemma bodies_drop: "bodies_bounded c \<Longrightarrow> bodies_bounded (c\<lparr>blocks := fmdrop h (blocks c)\<rparr>)"
  by (auto simp: bodies_bounded_def split: if_splits)

lemma bodies_same: "bodies_bounded c \<Longrightarrow> blocks c' = blocks c \<Longrightarrow> bodies_bounded c'"
  by (simp add: bodies_bounded_def)

lemma forget_staking: "same_staking c (forget_block h c) \<and> (bodies_bounded c \<longrightarrow> bodies_bounded (forget_block h c))"
  by (auto simp: same_staking_def forget_block_def bodies_bounded_def money_view_def split: if_splits)

lemma prune_fork_staking:
  "same_staking c (prune_fork_bodies order c) \<and> (bodies_bounded c \<longrightarrow> bodies_bounded (prune_fork_bodies order c))"
proof (induction order c rule: prune_fork_bodies.induct)
  case (1 order c)
  let ?leaf = "arg_min_list (known_work c) (fork_leaves order c)"
  let ?big = "retained_main_bodies c + MAX_FORK_BODIES < fcard (fmdom (blocks c)) \<and> fork_leaves order c \<noteq> []"
  have eq: "prune_fork_bodies order c = (if ?big then prune_fork_bodies order (forget_block ?leaf c) else c)"
    by (subst prune_fork_bodies.simps) simp
  show ?case
  proof (cases ?big)
    case True
    with 1 [OF True] forget_staking [of c ?leaf] show ?thesis
      unfolding eq by (simp add: same_staking_def)
  next
    case False
    then show ?thesis unfolding eq if_not_P [OF False] by (simp add: same_staking_def)
  qed
qed

lemma prune_staking:
  "same_staking c (prune_bodies order c) \<and> (bodies_bounded c \<longrightarrow> bodies_bounded (prune_bodies order c))"
proof -
  have "same_staking c (prune_main_body c) \<and> (bodies_bounded c \<longrightarrow> bodies_bounded (prune_main_body c))"
    by (auto simp: prune_main_body_def Let_def same_staking_def money_view_def bodies_drop split: option.split)
  then show ?thesis using prune_fork_staking [of "prune_main_body c" order]
    unfolding prune_bodies_def by (blast intro: same_staking_trans)
qed

lemma staked_sound_prune: "staked_sound snap c \<Longrightarrow> staked_sound snap (prune_bodies order c)"
  using prune_staking [of c order] staked_soundD(3) [of snap c] same_staking_sound [of snap c] by blast

section \<open>Blocks\<close>

lemma validated_outputs:
  assumes "validate_child lib now c b ph parent prev = Ok ()"
  shows "outputs_bounded (transactions b)"
proof -
  have "check_each validate_transaction (transactions b) = Ok ()"
    using assms by (auto simp: validate_child_def validate_block_inner_def res_bind_eq_Ok split: if_splits)
  then have "outputs_ok tx" if "tx \<in> set (transactions b)" for tx
    using that by (simp add: check_each_Ok validate_transaction_Ok)
  then show ?thesis unfolding outputs_bounded_def
    by (intro ballI) (auto simp: outputs_ok_def in_set_conv_nth [of _ "outputs tx" for tx])
qed

lemma staked_sound_applied:
  assumes a: "apply_block_journaled lib (get_legacy_balance snap) b ht c = (c', Ok j)"
    and s: "staked_sound snap c" and d: "distinct (map fst snap)" "ht \<noteq> 0"
    and f: "fresh_txs lib (transactions b) c" and v: "outputs_bounded (transactions b)"
  shows "staked_sound snap (c'\<lparr>journals := journals c' @ [j]\<rparr>)"
proof -
  have st: "same_static c c'" using apply_block_undoes [OF a] by (simp add: undoes_def)
  note rb = rollback_journal_Ok [OF block_rollback [OF f a]]
  have "staked_inv c'" by (rule block_staked [OF a staked_soundD(2) [OF s] d staked_soundD(1) [OF s] f v])
  moreover have "hist_inv snap (c'\<lparr>journals := journals c' @ [j]\<rparr>)"
    using s by (intro hist_inv_applied [OF a _ d]) (simp add: staked_sound_def)
  ultimately show ?thesis
    using s rb same_staticD [OF st]
    by (simp add: staked_sound_def staked_inv_def staked_exact_def bodies_bounded_def)
qed

lemma staked_sound_rollback:
  assumes "rollback_one_block lib c = (c', Ok r)" "staked_sound snap c" "j_height (last (journals c)) \<noteq> 0"
  shows "staked_sound snap c'"
proof -
  have "hist_inv snap c'" using hist_inv_rollback [OF assms(1)] assms(2,3) by (simp add: staked_sound_def)
  with assms show ?thesis
    by (elim rollback_one_block_Ok) (simp add: staked_sound_def bodies_bounded_def)
qed

section \<open>Fresh runs\<close>

text \<open>
  The blocks a call applies must create outpoints that are not in the set at that moment, which the
  hash in their identifiers ensures in practice: the block on the tip, and each block of a branch on
  top of those before it.
\<close>

fun fresh_branch ::
  "('sig, 'pk, 'x) node_lib_scheme \<Rightarrow> (bytes \<Rightarrow> u64) \<Rightarrow> u32 \<Rightarrow> (nat \<times> bytes) list \<Rightarrow> chain \<Rightarrow> bool" where
  "fresh_branch lib bal fh [] c = True"
| "fresh_branch lib bal fh (x # xs) c =
     ((case fmlookup (blocks c) (snd x) of None \<Rightarrow> True | Some b \<Rightarrow> fresh_txs lib (transactions b) c) \<and>
      (case apply_fork_block lib bal fh x c of (c', Ok _) \<Rightarrow> fresh_branch lib bal fh xs c' | (_, Err _) \<Rightarrow> True))"

definition fresh_reorg :: "('sig, 'pk, 'x) node_lib_scheme \<Rightarrow> (bytes \<Rightarrow> u64) \<Rightarrow> bytes \<Rightarrow> chain \<Rightarrow> bool" where
  "fresh_reorg lib bal tip c \<longleftrightarrow> (\<forall>fp fh c1 q path. chain_block_height c fp = Some fh \<longrightarrow>
     rollback_to lib fh c = (c1, Ok q) \<longrightarrow> to_apply c1 fp tip = Ok path \<longrightarrow>
     fresh_branch lib bal fh (List.enumerate 0 path) c1)"

definition registered :: "('sig, 'pk, 'x) node_lib_scheme \<Rightarrow> block \<Rightarrow> u32 \<Rightarrow> chain \<Rightarrow> chain" where
  "registered lib b m c = register_block (block_hash lib b) (prev_block_hash (header b)) (m + 1)
     (work_of c (prev_block_hash (header b)) + 1) b c"

definition fresh_block :: "('sig, 'pk, 'x) node_lib_scheme \<Rightarrow> (bytes \<Rightarrow> u64) \<Rightarrow> block \<Rightarrow> chain \<Rightarrow> bool" where
  "fresh_block lib bal b c \<longleftrightarrow>
     (if best_hash c = Some (prev_block_hash (header b)) then fresh_txs lib (transactions b) c
      else \<forall>m. fmlookup (block_heights c) (prev_block_hash (header b)) = Some m \<longrightarrow>
        fresh_reorg lib bal (block_hash lib b) (registered lib b m c))"

lemma staked_sound_branch:
  "st_collect (apply_fork_block lib (get_legacy_balance snap) fh) xs c = (c', Ok afs) \<Longrightarrow>
     staked_sound snap c \<Longrightarrow> distinct (map fst snap) \<Longrightarrow> fresh_branch lib (get_legacy_balance snap) fh xs c \<Longrightarrow>
     staked_sound snap c'"
proof (induction xs arbitrary: c afs)
  case (Cons x xs)
  let ?f = "apply_fork_block lib (get_legacy_balance snap) fh"
  obtain i h where x: "x = (i, h)" by (cases x)
  obtain c1 r1 where a: "?f x c = (c1, r1)" by fastforce
  obtain y where r1: "r1 = Ok y" using Cons.prems(1) a by (cases r1) auto
  obtain c2 r2 where s: "st_collect ?f xs c1 = (c2, r2)" by fastforce
  obtain ys where ys: "r2 = Ok ys" "c2 = c'" using Cons.prems(1) a r1 s by (cases r2) auto
  have "staked_sound snap c1"
    using a [unfolded x r1]
  proof (cases rule: apply_fork_block_Ok)
    case (1 b c0 j)
    have v: "outputs_bounded (transactions b)"
      using staked_soundD(3) [OF Cons.prems(2)] 1(2) by (auto simp: bodies_bounded_def)
    have f: "fresh_txs lib (transactions b) c" using Cons.prems(4) 1(2) by (simp add: x)
    let ?d = "c0\<lparr>journals := journals c0 @ [j]\<rparr>"
    have d: "staked_sound snap ?d"
      by (rule staked_sound_applied [OF 1(3) Cons.prems(2,3) fork_height_nonzero [OF 1(1)] f v])
    have "same_staking ?d c1" "blocks c1 = blocks ?d"
      by (simp_all add: 1(4) same_staking_def money_view_def index_block_transactions_def)
    then show ?thesis using same_staking_sound [OF d] bodies_same [OF staked_soundD(3) [OF d]] by blast
  qed
  moreover have "fresh_branch lib (get_legacy_balance snap) fh xs c1" using Cons.prems(4) a r1 by simp
  ultimately show ?case using Cons.IH [of c1 ys] s ys Cons.prems(3) by simp
qed simp

lemma reorganize_switches:
  assumes "reorganize_to lib bal tip th c = (c', Ok x)"
  shows "\<exists>fp fh. chain_block_height c fp = Some fh \<and> switch_branch lib bal fp fh tip th c = (c', Ok x)"
proof -
  obtain c1 r1 where i: "reorganize_to_inner lib bal tip th c = (c1, r1)" by fastforce
  then have "r1 = Ok x" "c' = c1" using assms by (cases r1; simp add: reorganize_to_def)+
  then show ?thesis
    using i by (auto simp: reorganize_to_inner_def Let_def split: result.splits option.splits if_splits)
qed

lemma staked_sound_reorganize:
  assumes "reorganize_to lib (get_legacy_balance snap) tip th c = (c', Ok x)" "staked_sound snap c"
    and "distinct (map fst snap)" "chain_wf c" "fresh_reorg lib (get_legacy_balance snap) tip c"
  shows "staked_sound snap c'"
proof -
  let ?bal = "get_legacy_balance snap"
  obtain fp fh where f: "chain_block_height c fp = Some fh" "switch_branch lib ?bal fp fh tip th c = (c', Ok x)"
    using reorganize_switches [OF assms(1)] by blast
  obtain c2 q afs path where p: "rollback_to lib fh c = (c2, Ok q)" "to_apply c2 fp tip = Ok path"
    "st_collect (apply_fork_block lib ?bal fh) (List.enumerate 0 path) c2 = (c', Ok afs)"
    using f(2) by (auto simp: switch_branch_def st_bind_eq_Ok st_then_eq_Ok split: prod.splits)
  have "journals_ok (length (height_index c)) (journals c)" using assms(4) by (simp add: chain_wf_def)
  then have "staked_sound snap c2"
    by (rule rollback_to_keeps [where P = "staked_sound snap", OF p(1) assms(2)]) (rule staked_sound_rollback)
  moreover have "fresh_branch lib ?bal fh (List.enumerate 0 path) c2"
    using assms(5) f(1) p(1,2) unfolding fresh_reorg_def by blast
  ultimately show ?thesis using staked_sound_branch [OF p(3)] assms(3) by blast
qed

section \<open>Adding a block\<close>

lemma staked_sound_main:
  assumes "add_main_block lib (get_legacy_balance snap) order now b c = (c', r)" "\<forall>m. r \<noteq> Err (Panic m)"
    and s: "staked_sound snap c" and d: "distinct (map fst snap)" and f: "fresh_txs lib (transactions b) c"
  shows "staked_sound snap c'"
  using assms(1,2)
proof (cases rule: add_main_block_cases)
  case (rejected e)
  then show ?thesis using s by simp
next
  case (failed e)
  then have "c' = c" by (intro block_atomic [OF f failed(1)]) (auto simp: is_panic_iff)
  then show ?thesis using s by simp
next
  case (mismatch c1 j e)
  then have "c' = c" using block_rollback [OF f mismatch(1)] by simp
  then show ?thesis using s by simp
next
  case (extended ph c1 j x)
  let ?d = "trim_journals (c1\<lparr>journals := journals c1 @ [j]\<rparr>)"
  let ?e = "extended_chain lib b (best_height c + 1) j c1"
  note v = validated_outputs [OF extended(3)]
  have "best_height c + 1 \<noteq> 0" using extended(1) by (metis eq_neg_iff_add_eq_0)
  then have d: "staked_sound snap ?d"
    by (intro staked_sound_trim staked_sound_applied [OF extended(4) s d _ f v])
  have "same_staking ?d ?e" "blocks ?e = fmupd (block_hash lib b) b (blocks ?d)"
    by (simp_all add: extended_chain_def Let_def same_staking_def register_block_def index_block_transactions_def
        money_view_def)
  moreover from this(2) have "bodies_bounded ?e"
    using staked_soundD(3) [OF d] v by (simp add: bodies_bounded_def)
  ultimately have "staked_sound snap ?e" using same_staking_sound [OF d] by blast
  then show ?thesis unfolding extended(6) by (rule staked_sound_prune)
qed

lemma registered_sound:
  assumes "staked_sound snap c" "validate_child lib now c b m ph p = Ok ()"
  shows "staked_sound snap (registered lib b m c)"
proof (rule same_staking_sound [OF assms(1)])
  show "same_staking c (registered lib b m c)"
    by (simp add: same_staking_def registered_def) (simp add: register_block_def)
  show "bodies_bounded (registered lib b m c)"
    using staked_soundD(3) [OF assms(1)] validated_outputs [OF assms(2)]
    by (simp add: bodies_bounded_def registered_def register_block_def)
qed

lemma staked_sound_fork:
  assumes run: "add_fork_block lib (get_legacy_balance snap) order now main_tip m b c = (c', r)"
    and np: "\<forall>m. r \<noteq> Err (Panic m)" and s: "staked_sound snap c" and d: "distinct (map fst snap)"
    and wf: "chain_wf c" and new: "fmlookup (block_heights c) (block_hash lib b) = None"
    and par: "fmlookup (block_heights c) (prev_block_hash (header b)) = Some m"
    and f: "fresh_reorg lib (get_legacy_balance snap) (block_hash lib b) (registered lib b m c)"
  shows "staked_sound snap c'"
proof (cases r)
  case (Err e)
  then have "\<not> is_panic e" using np by (auto simp: is_panic_iff)
  then show ?thesis using fork_rejected [OF wf new] run Err s by blast
next
  case (Ok x)
  from run np refl refl registered_def [of lib b m c] show ?thesis
  proof (cases rule: add_fork_block_cases)
    case (stored ph)
    then show ?thesis using staked_sound_prune [OF registered_sound [OF s stored(4)]] by simp
  next
    case (reorganized ph c2 txs rbs afs)
    have "tree_ok (hd (height_index c)) c" using wf by (simp add: chain_wf_def)
    then have "chain_wf (registered lib b m c)"
      using register_wf [OF wf new par reorganized(1)] ucast_Suc_u32 [OF reorganized(1)] par
      by (simp add: work_of_known registered_def)
    then have "staked_sound snap c2"
      by (intro staked_sound_reorganize [OF reorganized(6) registered_sound [OF s reorganized(4)] d _ f])
    then show ?thesis unfolding reorganized(7) by (rule staked_sound_prune)
  qed (simp_all add: Ok s)
qed

lemma staked_sound_add_block:
  assumes run: "add_block lib (get_legacy_balance snap) order now b c = (c', r)" "\<forall>m. r \<noteq> Err (Panic m)"
    and s: "staked_sound snap c" "distinct (map fst snap)" "chain_wf c"
    and f: "fresh_block lib (get_legacy_balance snap) b c"
  shows "staked_sound snap c'"
  using run(1) refl
proof (cases rule: add_block_cases)
  case main
  then have "fresh_txs lib (transactions b) c" using f tip_height(1) [OF s(3)] by (simp add: fresh_block_def)
  then show ?thesis by (rule staked_sound_main [OF main(3) run(2) s(1,2)])
next
  case (fork m)
  then have "fresh_reorg lib (get_legacy_balance snap) (block_hash lib b) (registered lib b m c)"
    using f tip_height(1) [OF s(3)] by (auto simp: fresh_block_def)
  then show ?thesis by (rule staked_sound_fork [OF fork(4) run(2) s fork(1,3)])
qed (simp_all add: s(1))

section \<open>Reachable chains\<close>

inductive fresh_reach :: "('sig, 'pk, 'x) node_lib_scheme \<Rightarrow> snapshot \<Rightarrow> chain \<Rightarrow> bool" for lib snap where
  start: "new_chain lib snap = Ok c \<or> new_regtest lib snap = Ok c \<or> new_regtest_fast lib snap = Ok c \<Longrightarrow>
    fresh_reach lib snap c"
| block: "fresh_reach lib snap c \<Longrightarrow> add_block lib (get_legacy_balance snap) order now b c = (c', r) \<Longrightarrow>
    \<forall>m. r \<noteq> Err (Panic m) \<Longrightarrow> fresh_block lib (get_legacy_balance snap) b c \<Longrightarrow> fresh_reach lib snap c'"
| setting: "fresh_reach lib snap c \<Longrightarrow>
    c' \<in> {set_block_body_cache n c, set_body_source s c, set_governance_test_activation ht c,
      set_governance_test_deployment dep period c} \<Longrightarrow> fresh_reach lib snap c'"

lemma fresh_reach_reach: "fresh_reach lib snap c \<Longrightarrow> chain_reach lib snap c"
  by (induction rule: fresh_reach.induct) (auto intro: chain_reach.intros)

lemma genesis_staked:
  assumes "new_chain lib snap = Ok c" "snapshot_ok snap"
  obtains j where "journals c = [j]" "j_height j = 0" "staked_exact (utxo_set c) (chain_params c) (total_staked c)"
    "chain_params c = default_params" "bodies_bounded c"
proof -
  let ?g = "create_genesis_block lib snap"
  obtain c1 j where a: "apply_block_journaled lib (get_legacy_balance snap) ?g 0 (with_genesis lib snap) = (c1, Ok j)"
    and c: "c = (index_block_transactions lib (block_hash lib ?g) ?g c1)\<lparr>journals := [j]\<rparr>"
    using assms(1) by (rule new_chain_Ok)
  have j0: "j_height j = 0" using apply_block_undoes [OF a] by (simp add: undoes_def)
  from assms(2) show ?thesis
  proof (cases rule: genesis_applies [of snap lib "get_legacy_balance snap"])
    case (fits us j')
    then have c1: "c1 = (with_genesis lib snap)\<lparr>utxo_set := us, total_supply := of_nat (unclaimed snap {}), total_staked := 0\<rparr>"
      using a by simp
    have "staked default_params us = 0" using staked_le_coins [of default_params us] fits(2) by simp
    then have "staked_exact us default_params 0" using fits(4) by (simp add: staked_exact_def)
    moreover have "outputs_bounded (transactions ?g)"
      using genesis_coinbase_value legacy_distribution_value [OF fits(1)]
      by (simp add: outputs_bounded_def create_genesis_block_def Let_def)
    ultimately show ?thesis using that j0
      by (simp add: c c1 index_block_transactions_def bodies_bounded_def with_genesis_def empty_chain_def Let_def)
  next
    case (exceeds d e)
    then show ?thesis using a by simp
  qed
qed

lemma start_staked:
  assumes "new_chain lib snap = Ok c \<or> new_regtest lib snap = Ok c \<or> new_regtest_fast lib snap = Ok c" "snapshot_ok snap"
  shows "staked_sound snap c"
proof -
  obtain c0 where c0: "new_chain lib snap = Ok c0"
    using assms(1) by (cases "new_chain lib snap") (auto simp: new_regtest_def new_regtest_fast_def)
  obtain j where j: "journals c0 = [j]" "j_height j = 0"
    "staked_exact (utxo_set c0) (chain_params c0) (total_staked c0)" "bodies_bounded c0"
    using c0 assms(2) by (rule genesis_staked)
  have c: "utxo_set c = utxo_set c0" "journals c = journals c0" "total_staked c = total_staked c0" "blocks c = blocks c0"
    "min_stake_amount (chain_params c) = min_stake_amount (chain_params c0)"
    using assms(1) c0 by (auto simp: new_regtest_def new_regtest_fast_def)
  have "staked (chain_params c) = staked (chain_params c0)"
    using is_stakeable_cong [OF c(5)] by (simp add: staked_def [abs_def] stake_value_def [abs_def])
  moreover have "hist_inv snap c"
    using reach_sound [OF fresh_reach_reach [OF fresh_reach.start [OF assms(1)]]] assms(2) by (simp add: chain_sound_def)
  ultimately show ?thesis using j c by (simp add: staked_sound_def staked_exact_def bodies_bounded_def)
qed

lemma fresh_reach_staked: "fresh_reach lib snap c \<Longrightarrow> snapshot_ok snap \<Longrightarrow> staked_sound snap c"
proof (induction rule: fresh_reach.induct)
  case (start c)
  then show ?case by (rule start_staked)
next
  case (block c order now b c' r)
  have "chain_wf c" using reach_sound [OF fresh_reach_reach [OF block.hyps(1)]] by (simp add: chain_sound_def)
  moreover have "distinct (map fst snap)" using block.prems by (simp add: snapshot_ok_def)
  ultimately show ?case using staked_sound_add_block [OF block.hyps(2,3)] block.IH block.prems block.hyps(4) by blast
next
  case (setting c c' n s ht dep period)
  then have "same_staking c c'" "blocks c' = blocks c"
    by (auto simp: same_staking_def money_view_def set_block_body_cache_def set_body_source_def
        set_governance_test_activation_def set_governance_test_deployment_def)
  then show ?case
    using setting same_staking_sound bodies_same staked_soundD(3) by metis
qed

section \<open>A chain with a staked coin\<close>

definition first_mint :: transaction where
  "first_mint = mint_tx\<lparr>tx_version := 2, lock_time := 1\<rparr>"

definition mint_block :: block where
  "mint_block = (let g = create_genesis_block sample_lib sample_snapshot; h = block_hash sample_lib g in
     \<lparr>header = \<lparr>header_version = 1, prev_block_hash = h,
        merkle_root = compute_merkle_root_from_txids sample_lib [txid sample_lib first_mint],
        utxo_root = zero_hash, timestamp = 1700000100, bits = GENESIS_BITS, nonce = 1,
        stake_modifier = compute_stake_modifier sample_lib 0 h\<rparr>,
      transactions = [first_mint]\<rparr>)"

lemma first_mint_fields: "is_coinbase first_mint" "\<not> is_coinstake first_mint" "\<not> is_legacy_claim first_mint"
  "outputs first_mint = [\<lparr>out_value = 700000000, script_pubkey = key_script\<rparr>]"
  "tx_kind first_mint = Coinbase" "lock_time first_mint = 1"
  by (simp_all add: first_mint_def mint_tx_def is_coinbase_def is_coinstake_def is_legacy_claim_def)

lemma sample_version: "take 4 (txid sample_lib tx) = u32_le (tx_version tx)"
  by (simp add: sample_txid pad_to_def tx_enc_def)

lemma sample_kind: "take 4 (drop 4 (txid sample_lib tx)) = u32_le (tx_type_u32 (tx_kind tx))"
  by (simp add: sample_txid pad_to_def tx_enc_def drop_take)

lemma sample_ids:
  "txid sample_lib first_mint \<noteq> txid sample_lib genesis_coinbase"
  "txid sample_lib first_mint \<noteq> txid sample_lib (legacy_distribution snap)"
  "txid sample_lib genesis_coinbase \<noteq> txid sample_lib (legacy_distribution snap)"
proof -
  have "u32_le (tx_version first_mint) \<noteq> u32_le 1" unfolding u32c.enc_inject by (simp add: first_mint_def)
  then show "txid sample_lib first_mint \<noteq> txid sample_lib genesis_coinbase"
    "txid sample_lib first_mint \<noteq> txid sample_lib (legacy_distribution snap)"
    using sample_version [of first_mint] sample_version [of genesis_coinbase] sample_version [of "legacy_distribution snap"]
    by (auto simp: genesis_coinbase_def legacy_distribution_def)
  have "u32_le (tx_type_u32 Coinbase) \<noteq> u32_le (tx_type_u32 LegacyClaim)"
    unfolding u32c.enc_inject by (simp add: tx_type_u32_def)
  then show "txid sample_lib genesis_coinbase \<noteq> txid sample_lib (legacy_distribution snap)"
    using sample_kind [of genesis_coinbase] sample_kind [of "legacy_distribution snap"] by (auto simp: genesis_fields)
qed

text \<open>The regression-test chain of the example, before its first block.\<close>

definition mint_ready :: "chain \<Rightarrow> bool" where
  "mint_ready c \<longleftrightarrow> new_regtest sample_lib sample_snapshot = Ok c \<and> chain_params c = default_params \<and>
     total_staked c = 0 \<and> total_supply c = 4000000000 \<and> \<not> governance_active c 1 \<and> allow_pow_test_blocks c \<and>
     height_index c = [block_hash sample_lib (create_genesis_block sample_lib sample_snapshot)] \<and>
     fresh_txs sample_lib [first_mint] c"

lemma genesis_outpoints:
  assumes "apply_block_journaled sample_lib bal (create_genesis_block sample_lib sample_snapshot) 0
    (with_genesis sample_lib sample_snapshot) = (c1, Ok j)"
  shows "fmdom' (utxo_set c1) \<subseteq> txid sample_lib ` {genesis_coinbase, legacy_distribution sample_snapshot} \<times> UNIV"
  using assms
proof (cases rule: apply_block_Ok)
  case (1 pm c0 c2 j2 j3)
  let ?g = "create_genesis_block sample_lib sample_snapshot"
  have txs: "transactions ?g = [genesis_coinbase, legacy_distribution sample_snapshot]"
    by (simp add: create_genesis_block_def Let_def)
  have e: "utxo_set c0 = fmempty" using begin_governance_block_frame(2) [OF 1(1)] by simp
  have "length (outputs genesis_coinbase) = 1" "length (outputs (legacy_distribution sample_snapshot)) = 1"
    by (simp_all add: genesis_coinbase_def legacy_distribution_def sample_snapshot_def)
  then have "fresh_txs sample_lib (transactions ?g) c0"
    using sample_ids(3) [of sample_snapshot] by (simp add: fresh_txs_def fresh_tx_def txs e)
  from apply_transactions_undoable [OF this] 1(2)
  have "undoable (txid sample_lib ` set (transactions ?g)) (c0, new_journal (with_genesis sample_lib sample_snapshot)
      (block_hash sample_lib ?g) 0) (c2, j2)" by (metis fst_conv)
  from undoable_dom [OF this] show ?thesis using commit_block_frame(2) [OF 1(3)] by (simp add: txs e)
qed

lemma mint_start: "\<exists>c. mint_ready c"
proof -
  let ?g = "create_genesis_block sample_lib sample_snapshot" and ?bal = "get_legacy_balance sample_snapshot"
  from sample_snapshot_ok(1) show ?thesis
  proof (cases rule: genesis_applies [of sample_snapshot sample_lib ?bal])
    case (fits us j)
    let ?c = "(index_block_transactions sample_lib (block_hash sample_lib ?g) ?g ((with_genesis sample_lib sample_snapshot)
      \<lparr>utxo_set := us, total_supply := of_nat (unclaimed sample_snapshot {}), total_staked := 0\<rparr>))
      \<lparr>journals := [j], allow_pow_test_blocks := True\<rparr>"
    have "new_regtest sample_lib sample_snapshot = Ok ?c"
      by (simp add: new_regtest_def new_chain_def Let_def fits(3))
    moreover have "fmlookup us (txid sample_lib first_mint, v) = None" for v
      using genesis_outpoints [OF fits(3)] sample_ids(1,2)
      by (auto simp: fmlookup_dom'_iff dest!: subsetD [of _ _ "(txid sample_lib first_mint, v)"] intro: ccontr)
    ultimately have "mint_ready ?c"
      by (simp add: mint_ready_def index_block_transactions_def with_genesis_def empty_chain_def Let_def
          governance_active_def governance_deployment_config_def governance_deployment_def
          unclaimed_def sample_snapshot_def fresh_txs_def fresh_tx_def first_mint_fields)
    then show ?thesis by blast
  next
    case (exceeds c e)
    then show ?thesis using sample_snapshot_ok(2) by simp
  qed
qed

lemma mint_applies:
  assumes r: "mint_ready c"
    and h: "fmlookup (headers c) (block_hash sample_lib (create_genesis_block sample_lib sample_snapshot)) = Some hdr"
  shows "\<exists>c1 j. apply_block_journaled sample_lib bal mint_block 1 c = (c1, Ok j) \<and> total_staked c1 = 700000000"
proof -
  let ?j = "new_journal c (block_hash sample_lib mint_block) 1"
  have p: "parent_stake_modifier c mint_block 1 = Ok (stake_modifier hdr)"
    using h by (simp add: parent_stake_modifier_def mint_block_def Let_def ok_or_def)
  obtain t where t: "apply_transaction sample_lib bal first_mint 1 1700000100 (stake_modifier hdr) False (c, ?j) = (t, Ok ())"
    "total_supply (fst t) = 4000000000" "total_staked (fst t) = 0" "supply_delta (snd t) = 700000000"
    "staked_delta (snd t) = 700000000"
    using r first_mint_fields by (simp add: mint_ready_def run_defs key_output new_journal_def)
  have "\<exists>u. apply_block_body sample_lib bal mint_block 1 (stake_modifier hdr) False (c, ?j) = (u, Ok ()) \<and>
      total_staked (fst u) = 700000000"
    using t by (cases t) (simp add: apply_block_body_def mint_block_def Let_def st_then_def st_bind_def on_chain_def
      begin_governance_block_def commit_block_def sat_add_def add_staked_def MAX_SUPPLY_def COIN_def)
  then show ?thesis using r p by (auto simp: apply_block_journaled_def mint_ready_def)
qed

lemma mint_accepted:
  assumes r: "mint_ready c"
  shows "\<exists>c' a. add_block sample_lib bal order 1700000100 mint_block c = (c', Ok a) \<and> total_staked c' = 700000000"
proof -
  let ?g = "create_genesis_block sample_lib sample_snapshot"
  let ?h = "block_hash sample_lib ?g"
  obtain c0 where c0: "new_chain sample_lib sample_snapshot = Ok c0" "c = c0\<lparr>allow_pow_test_blocks := True\<rparr>"
    using r by (cases "new_chain sample_lib sample_snapshot") (auto simp: mint_ready_def new_regtest_def)
  note t = genesis_tip [OF c0(1) refl]
  have hd: "fmlookup (headers c) ?h = Some (header ?g)" using t(4) c0(2) by simp
  obtain c1 j where a: "apply_block_journaled sample_lib bal mint_block 1 c = (c1, Ok j)" "total_staked c1 = 700000000"
    using mint_applies [OF r hd] by blast
  have new: "block_hash sample_lib mint_block \<noteq> ?h"
  proof
    assume e: "block_hash sample_lib mint_block = ?h"
    have "take 4 (block_hash sample_lib mint_block) = u32_le 1700000100" "take 4 ?h = u32_le 1700000000"
      by (simp_all add: block_hash_def header_hash_def sha256d_def sample_lib_def pad_to_def mint_block_def
          create_genesis_block_def GENESIS_TIMESTAMP_def Let_def)
    then have "u32_le 1700000100 = u32_le 1700000000" using e by metis
    then show False unfolding u32c.enc_inject by simp
  qed
  have tip: "best_hash c = Some ?h" "best_height c = 0" "get_header_at_height c 0 = Some (header ?g)"
    using t(1) c0(2) hd by (simp_all add: best_hash_def best_height_def get_header_at_height_def nth_opt_def)
  have "validate_child sample_lib 1700000100 c mint_block 0 (header ?g) ?h = Ok ()"
    using r first_mint_fields
    by (simp add: validate_child_def validate_block_inner_def mint_ready_def mint_block_def Let_def height_def
        create_genesis_block_def check_first_def is_pos_def compute_merkle_root_def validate_transaction_def
        sat_add_def GENESIS_TIMESTAMP_def MAX_BLOCK_SIZE_def MAX_MONEY_def MAX_SUPPLY_def COIN_def sample_lib_def)
  moreover have "work_of c1 ?h = 1"
    using t(3) c0(2) same_staticD(7) [of c c1] apply_block_undoes [OF a(1)] by (simp add: work_of_def undoes_def)
  moreover have "\<not> root_mismatch mint_block j" by (simp add: root_mismatch_def is_pos_def mint_block_def Let_def)
  moreover have "prev_block_hash (header mint_block) = ?h" by (simp add: mint_block_def Let_def)
  moreover have "total_staked (prune_bodies order d) = total_staked d" for d
    using prune_staking [of d order] by (simp add: same_staking_def)
  ultimately show ?thesis
    using new tip a t(2) c0(2)
    by (simp add: add_block_def add_main_block_def Let_def trim_journals_def index_block_transactions_def
        register_block_def split: prod.split)
qed




end
