(* ===== verification/Template.thy ===== *)
theory Template
  imports ChainUndo "HOL-Library.Sublist"
begin

text \<open>
  Block templates: \<open>select_block_transactions\<close> of \<open>vtorrent-node/src/chain/chain_reorg.rs\<close>, which
  tries the candidates of a block on the chain itself and takes everything back. The chain is left as
  it was, and a block made of the selection is one the node can apply.
\<close>

section \<open>Selection\<close>

text \<open>The ledger, the size so far, the identifiers taken and the transactions kept.\<close>

type_synonym template = "ledger \<times> u64 \<times> bytes list \<times> transaction list"

definition skips :: "('sig, 'pk, 'x) node_lib_scheme \<Rightarrow> transaction \<Rightarrow> u64 \<Rightarrow> bytes list \<Rightarrow> bool" where
  "skips lib tx used ids \<longleftrightarrow> serialized_size lib tx > MAX_BLOCK_SIZE - used \<or> is_coinbase tx \<or>
     is_coinstake tx \<or> txid lib tx \<in> set ids \<or> is_err (validate_transaction tx)"

text \<open>Taking a failed candidate back: its governance undo, then the entries its run appended.\<close>

definition take_back ::
  "governance_undo option \<Rightarrow> block_journal \<Rightarrow> (ledger, unit, node_error) st" where
  "take_back undo j = (\<lambda>(c1, j1).
     case restore_governance undo c1 of
       (c2, Err e) \<Rightarrow> ((c2, j1), Err e)
     | (c2, Ok _) \<Rightarrow>
         ((rollback_changes (drop (length (changes j)) (changes j1))
             (drop (length (j_claimed j)) (j_claimed j1)) c2,
           j1\<lparr>changes := take (length (changes j)) (changes j1),
              j_claimed := take (length (j_claimed j)) (j_claimed j1),
              supply_delta := supply_delta j, staked_delta := staked_delta j\<rparr>), Ok ()))"

definition exceeds_supply :: "ledger \<Rightarrow> bool" where
  "exceeds_supply = (\<lambda>(c, j). sat_add (total_supply c) (supply_delta j) > MAX_SUPPLY)"

definition try_candidate ::
  "('sig, 'pk, 'x) node_lib_scheme \<Rightarrow> (bytes \<Rightarrow> u64) \<Rightarrow> u32 \<Rightarrow> u32 \<Rightarrow> u64 \<Rightarrow> bool \<Rightarrow> transaction \<Rightarrow>
     (template, unit, node_error) st" where
  "try_candidate lib legacy_balance ht ts modifier gov_active tx = (\<lambda>((c, j), used, ids, kept).
     if skips lib tx used ids then (((c, j), used, ids, kept), Ok ())
     else
       (let undo = (if gov_active then Some (transaction_undo lib (governance c) tx ht) else None);
            (s1, r) = apply_transaction lib legacy_balance tx ht ts modifier gov_active (c, j) in
        case r of
          Err (Panic m) \<Rightarrow> ((s1, used, ids, kept), Err (Panic m))
        | _ \<Rightarrow>
            if is_err r \<or> exceeds_supply s1 then
              (let (s2, q) = take_back undo j s1 in ((s2, used, ids, kept), q))
            else ((s1, used + serialized_size lib tx, ids @ [txid lib tx], kept @ [tx]), Ok ())))"

text \<open>The closure of the source: the prefix, then the candidates.\<close>

definition fill_template ::
  "('sig, 'pk, 'x) node_lib_scheme \<Rightarrow> (bytes \<Rightarrow> u64) \<Rightarrow> transaction \<Rightarrow> transaction list \<Rightarrow> u32 \<Rightarrow> u32 \<Rightarrow> u64 \<Rightarrow>
     bool \<Rightarrow> ledger \<Rightarrow> ledger \<times> transaction list nresult" where
  "fill_template lib legacy_balance first_tx candidates ht ts modifier gov_active s0 =
     (case st_then (on_chain (begin_governance_block ht ts gov_active (snd s0)))
         (st_then (st_lift (\<lambda>_. validate_transaction first_tx))
         (st_then (st_require (\<lambda>_. serialized_size lib first_tx \<le> MAX_BLOCK_SIZE)
            (InvalidBlock ''Template prefix exceeds block size limit''))
         (st_then (apply_transaction lib legacy_balance first_tx ht ts modifier gov_active)
            (st_require (\<lambda>s. \<not> exceeds_supply s)
              (InvalidBlock ''Template prefix exceeds maximum supply''))))) s0 of
        (s1, Err e) \<Rightarrow> (s1, Err e)
      | (s1, Ok _) \<Rightarrow>
          (case st_each (try_candidate lib legacy_balance ht ts modifier gov_active) candidates
              (s1, serialized_size lib first_tx, [txid lib first_tx], []) of
             ((s2, _), Err e) \<Rightarrow> (s2, Err e)
           | ((s2, _, _, kept), Ok _) \<Rightarrow> (s2, Ok kept)))"

definition undo_journal :: "chain \<Rightarrow> u32 \<Rightarrow> chain \<Rightarrow> block_journal \<Rightarrow> block_journal" where
  "undo_journal c ht c1 j1 = j1\<lparr>previous_governance :=
     if governance_active c ht then Some (undo_since (governance c1) (governance c)) else None\<rparr>"

text \<open>The rollback at the end, whatever the selection returned. A panic unwinds past it.\<close>

definition end_selection ::
  "transaction list nresult \<Rightarrow> block_journal \<Rightarrow> (chain, transaction list, node_error) st" where
  "end_selection r j c =
     (case r of
        Err (Panic m) \<Rightarrow> (c, Err (Panic m))
      | _ \<Rightarrow> (case rollback_journal j c of (c', Ok _) \<Rightarrow> (c', r) | (c', Err p) \<Rightarrow> (c', Err p)))"

definition select_block_transactions ::
  "('sig, 'pk, 'x) node_lib_scheme \<Rightarrow> (bytes \<Rightarrow> u64) \<Rightarrow> transaction \<Rightarrow> transaction list \<Rightarrow> u32 \<Rightarrow> u32 \<Rightarrow>
     (chain, transaction list, node_error) st" where
  "select_block_transactions lib legacy_balance first_tx candidates ht ts c =
     (if best_height c = - 1 then (c, Err overflow)
      else if ht \<noteq> best_height c + 1 then (c, Err (ChainError ''Template height must extend the current tip''))
      else if \<not> (is_coinstake first_tx \<or> allow_pow_test_blocks c \<and> is_coinbase first_tx)
      then (c, Err (InvalidBlock ''Template must begin with coinstake or regtest coinbase''))
      else case best_hash c of
        None \<Rightarrow> (c, Err (ChainError ''Template parent missing''))
      | Some parent \<Rightarrow> (case fmlookup (headers c) parent of
          None \<Rightarrow> (c, Err (Panic ''no entry found for key''))
        | Some parent_hdr \<Rightarrow>
            (let gov_active = governance_active c ht;
                 ((c1, j1), r) = fill_template lib legacy_balance first_tx candidates ht ts
                   (stake_modifier parent_hdr) gov_active (c, new_journal c zero_hash ht)
             in end_selection r (undo_journal c ht c1 j1) c1)))"

section \<open>A failed candidate leaves no trace\<close>

text \<open>Only a coinstake finds a stake, and only the stake moves a vote lock.\<close>

definition no_stake :: "ledger \<times> u64 \<times> utxo option \<Rightarrow> ledger \<times> u64 \<times> utxo option \<Rightarrow> bool" where
  "no_stake = (\<lambda>(_, _, si) (_, _, si'). si = None \<longrightarrow> si' = None)"

interpretation stakeless: step_relation no_stake
  by unfold_locales (auto simp: no_stake_def)

lemma spend_inputs_no_stake:
  assumes "\<not> is_coinstake tx" "spend_inputs lib tx ht ts gov (s, ti, None) = ((s', ti', si'), r)"
  shows "si' = None"
proof -
  have "moves no_stake (spend_input lib tx ht ts gov x)" for x
    using assms(1)
    by (auto simp: moves_def no_stake_def spend_input_def Let_def split: prod.split option.split result.split)
  then have "moves no_stake (spend_inputs lib tx ht ts gov)"
    unfolding spend_inputs_def by (auto intro: stakeless.moves_lift stakeless.moves_each)
  from movesD [OF this assms(2)] show ?thesis by (simp add: no_stake_def)
qed

lemma finish_stakeless_gov: "moves same_gov (finish_transaction lib bal tx ht ts pm gov ti None)"
proof -
  have "moves same_gov (move_stake_lock lib tx ht gov None)" "moves same_gov (add_supply tx ti)"
    by (auto simp: moves_def same_gov_def move_stake_lock_def add_supply_def st_update_def split: prod.split bool.split)
  then show ?thesis
    unfolding finish_transaction_def
    by (intro sgov.moves_then apply_claim_gov add_outputs_gov sgov.moves_require sgov.moves_lift)
qed

lemma apply_transaction_governance:
  assumes ncs: "\<not> is_coinstake tx" and run: "apply_transaction lib bal tx ht ts pm True (c, j) = ((c1, j1), r)"
    and np: "\<forall>m. r \<noteq> Err (Panic m)"
  obtains genesis where "governance c1 = fst (process_transaction lib tx ht ts (utxo_set c) (chain_params c)
      (total_staked c) genesis (governance c))"
proof -
  have j: "same_gov s t" if "apply_transaction_journaled lib bal tx ht ts pm True s = (t, q)" for s t q
  proof -
    obtain s1 ti si x where sp: "spend_inputs lib tx ht ts True (s, 0, None) = ((s1, ti, si), x)" by (metis surj_pair)
    then have si: "si = None" using spend_inputs_no_stake [OF ncs] by blast
    have "same_gov s s1" using movesD [OF spend_inputs_gov sp] by simp
    moreover have "same_gov s1 (fst (finish_transaction lib bal tx ht ts pm True ti None s1))"
      using finish_stakeless_gov unfolding moves_def by blast
    ultimately show ?thesis
      using that sp si by (cases x) (auto simp: apply_transaction_journaled_def same_gov_def)
  qed
  obtain g hs where hi: "height_index c = g # hs"
    using run np by (cases "height_index c")
      (auto simp: apply_transaction_def process_governance_def st_then_def st_bind_def)
  obtain g1 q where p: "process_transaction lib tx ht ts (utxo_set c) (chain_params c) (total_staked c) g (governance c) = (g1, q)"
    by fastforce
  then have pg: "process_governance lib tx ht ts True (c, j) = ((c\<lparr>governance := g1\<rparr>, j), q)"
    by (simp add: process_governance_def hi)
  have "governance c1 = g1"
  proof (cases q)
    case (Err e)
    then show ?thesis using run pg by (auto simp: apply_transaction_def st_then_def st_bind_def)
  next
    case (Ok u)
    then have "apply_transaction_journaled lib bal tx ht ts pm True (c\<lparr>governance := g1\<rparr>, j) = ((c1, j1), r)"
      using run pg by (simp add: apply_transaction_def st_then_def st_bind_def)
    from j [OF this] show ?thesis by (simp add: same_gov_def)
  qed
  then show ?thesis using that [of g] p by simp
qed

lemma candidate_undo:
  assumes "\<not> is_coinstake tx" "apply_transaction lib bal tx ht ts pm gov (c, j) = ((c1, j1), r)" "\<forall>m. r \<noteq> Err (Panic m)"
  shows "restore_governance (if gov then Some (transaction_undo lib (governance c) tx ht) else None) c1 =
    (c1\<lparr>governance := governance c\<rparr>, Ok ())"
proof (cases gov)
  case True
  then have run: "apply_transaction lib bal tx ht ts pm True (c, j) = ((c1, j1), r)" using assms(2) by simp
  obtain genesis where "governance c1 = fst (process_transaction lib tx ht ts (utxo_set c) (chain_params c)
      (total_staked c) genesis (governance c))"
    using assms(1) run assms(3) by (rule apply_transaction_governance)
  then show ?thesis using True by (simp add: restore_governance_def transaction_undo_inverse)
next
  case False
  then have "same_gov (c, j) (c1, j1)" using assms(2) by (intro movesD [OF apply_transaction_gov]) simp
  then show ?thesis using False by (cases c1) (simp add: same_gov_def restore_governance_def)
qed

text \<open>No step of a transaction writes the root of its journal.\<close>

definition same_root :: "ledger \<Rightarrow> ledger \<Rightarrow> bool" where
  "same_root s t \<longleftrightarrow> j_utxo_root (snd t) = j_utxo_root (snd s)"

interpretation root: step_relation same_root
  by unfold_locales (auto simp: same_root_def)

interpretation root_in: step_relation "\<lambda>s t. same_root (fst s) (fst t)"
  by unfold_locales (auto simp: same_root_def)

lemma apply_transaction_root: "moves same_root (apply_transaction lib bal tx ht ts pm gov)"
proof -
  have si: "moves (\<lambda>s t. same_root (fst s) (fst t)) (spend_input lib tx ht ts gov x)" for x
    by (auto simp: moves_def same_root_def spend_input_def Let_def split: prod.split option.split result.split)
  have sp: "moves (\<lambda>s t. same_root (fst s) (fst t)) (spend_inputs lib tx ht ts gov)"
    unfolding spend_inputs_def by (auto intro: root_in.moves_lift root_in.moves_each si)
  have rc: "moves same_root (record_claim lib bal tx ht)"
    by (auto simp: moves_def same_root_def record_claim_def split: prod.split option.split result.split)
  have cl: "moves same_root (apply_claim lib bal tx ht ts)"
    using rc unfolding apply_claim_def by (auto intro: root.moves_then root.moves_lift root.moves_require)
  have ao: "moves same_root (add_outputs lib tx ht ts)"
    unfolding add_outputs_def
    by (rule root.moves_each)
      (auto simp: moves_def same_root_def add_output_def Let_def split: prod.split option.split)
  have ml: "moves same_root (move_stake_lock lib tx ht gov si)" for si
    by (auto simp: moves_def same_root_def move_stake_lock_def split: prod.split bool.split option.split)
  have as: "moves same_root (add_supply tx ti)" for ti
    by (auto simp: moves_def same_root_def add_supply_def st_update_def)
  have fin: "moves same_root (finish_transaction lib bal tx ht ts pm gov ti si)" for ti si
    unfolding finish_transaction_def
    by (intro root.moves_then cl ao ml as root.moves_require root.moves_lift)
  have jn: "moves same_root (apply_transaction_journaled lib bal tx ht ts pm gov)"
    unfolding moves_def
  proof
    fix s
    obtain s1 ti si x where r: "spend_inputs lib tx ht ts gov (s, 0, None) = ((s1, ti, si), x)" by (metis surj_pair)
    have "same_root s s1" using movesD [OF sp r] by simp
    moreover have "same_root s1 (fst (finish_transaction lib bal tx ht ts pm gov ti si s1))"
      using fin unfolding moves_def by blast
    ultimately show "same_root s (fst (apply_transaction_journaled lib bal tx ht ts pm gov s))"
      using r by (cases x) (auto simp: apply_transaction_journaled_def same_root_def)
  qed
  have "moves same_root (process_governance lib tx ht ts gov)"
    by (auto simp: moves_def same_root_def process_governance_def Let_def split: prod.split list.split)
  then show ?thesis unfolding apply_transaction_def using jn by (rule root.moves_then)
qed

lemma take_back_exact:
  assumes u: "undoable T (c, j) (c1, j1)" and root: "same_root (c, j) (c1, j1)"
    and g: "restore_governance undo c1 = (c1\<lparr>governance := governance c\<rparr>, Ok ())"
  shows "take_back undo j (c1, j1) = ((c, j), Ok ())"
proof -
  obtain chs claims where a: "changes j1 = changes j @ chs" "j_claimed j1 = j_claimed j @ claims"
    "foldl undo_change (utxo_set c1) (rev chs) = utxo_set c"
    "undo_claims (claimed_addresses c1) (rev claims) = claimed_addresses c" "same_frame c c1" "same_journal_head j j1"
    using u unfolding undoable_def by auto
  have "rollback_changes chs claims (c1\<lparr>governance := governance c\<rparr>) = c"
    using a(3,4,5) unfolding rollback_changes_eq same_frame_def by (cases c; cases c1) simp
  moreover have "j1\<lparr>changes := changes j, j_claimed := j_claimed j, supply_delta := supply_delta j,
      staked_delta := staked_delta j\<rparr> = j"
    using a(6) root unfolding same_journal_head_def same_root_def by (cases j; cases j1) simp
  ultimately show ?thesis using g a(1,2) by (simp add: take_back_def)
qed

section \<open>What the selection has done so far\<close>

text \<open>
  The ledger is the one that the prefix and the kept transactions lead to, it can be undone, it is
  within the supply, and the size counts the transactions.
\<close>

definition filled ::
  "('sig, 'pk, 'x) node_lib_scheme \<Rightarrow> (bytes \<Rightarrow> u64) \<Rightarrow> transaction \<Rightarrow> u32 \<Rightarrow> u32 \<Rightarrow> u64 \<Rightarrow> bool \<Rightarrow> ledger \<Rightarrow>
     template \<Rightarrow> bool" where
  "filled lib bal first_tx ht ts pm gov s0 = (\<lambda>(s, used, ids, kept).
     st_each (\<lambda>tx. apply_transaction lib bal tx ht ts pm gov) (first_tx # kept) s0 = (s, Ok ()) \<and>
     undoable (set ids) s0 s \<and> \<not> exceeds_supply s \<and> ids = map (txid lib) (first_tx # kept) \<and> distinct ids \<and>
     (\<forall>tx\<in>set kept. \<not> is_coinbase tx \<and> \<not> is_coinstake tx \<and> validate_transaction tx = Ok ()) \<and>
     unat used = sum_list (map (unat \<circ> serialized_size lib) (first_tx # kept)) \<and> used \<le> MAX_BLOCK_SIZE)"

lemma filledD:
  assumes "filled lib bal first_tx ht ts pm gov s0 (s, used, ids, kept)"
  shows "st_each (\<lambda>tx. apply_transaction lib bal tx ht ts pm gov) (first_tx # kept) s0 = (s, Ok ())"
    "undoable (set ids) s0 s" "\<not> exceeds_supply s" "ids = map (txid lib) (first_tx # kept)" "distinct ids"
    "tx \<in> set kept \<Longrightarrow> \<not> is_coinbase tx \<and> \<not> is_coinstake tx \<and> validate_transaction tx = Ok ()"
    "unat used = sum_list (map (unat \<circ> serialized_size lib) (first_tx # kept))" "used \<le> MAX_BLOCK_SIZE"
  using assms unfolding filled_def prod.case by blast+

lemma st_each_snoc:
  "st_each f xs s = (t, Ok ()) \<Longrightarrow> f x t = (u, Ok ()) \<Longrightarrow> st_each f (xs @ [x]) s = (u, Ok ())"
  by (induction xs arbitrary: s) (auto split: prod.splits result.splits)

lemma is_err_unit: "\<not> is_err (r :: (unit, 'e) result) \<longleftrightarrow> r = Ok ()"
  by (cases r) auto

lemma size_fits:
  assumes "(b :: u64) \<le> MAX_BLOCK_SIZE - a" "a \<le> MAX_BLOCK_SIZE"
  shows "unat (a + b) = unat a + unat b" "a + b \<le> MAX_BLOCK_SIZE"
proof -
  have "unat b \<le> unat MAX_BLOCK_SIZE - unat a" "unat a \<le> unat MAX_BLOCK_SIZE" "unat MAX_BLOCK_SIZE = 1000000"
    using assms by (simp_all add: word_le_nat_alt unat_sub MAX_BLOCK_SIZE_def)
  then show "unat (a + b) = unat a + unat b" by (simp add: unat_word_ariths)
  with \<open>unat b \<le> unat MAX_BLOCK_SIZE - unat a\<close> \<open>unat a \<le> unat MAX_BLOCK_SIZE\<close>
  show "a + b \<le> MAX_BLOCK_SIZE" by (simp add: word_le_nat_alt)
qed

lemma try_candidate_Err: "try_candidate lib bal ht ts pm gov tx t = (t', Err e) \<Longrightarrow> is_panic e"
  by (auto simp: try_candidate_def take_back_def restore_governance_def is_panic_def Let_def
      split: prod.splits if_splits result.splits node_error.splits option.splits)

lemma try_candidate_filled:
  assumes f: "filled lib bal first_tx ht ts pm gov (c0, j0) t" and fresh: "fresh_tx lib tx c0"
    and run: "try_candidate lib bal ht ts pm gov tx t = (t', Ok ())"
  shows "filled lib bal first_tx ht ts pm gov (c0, j0) t' \<and>
    (snd (snd (snd t')) = snd (snd (snd t)) \<or> snd (snd (snd t')) = snd (snd (snd t)) @ [tx])"
proof -
  obtain c j used ids kept where t: "t = ((c, j), used, ids, kept)" by (metis surj_pair)
  obtain c1 j1 r where a: "apply_transaction lib bal tx ht ts pm gov (c, j) = ((c1, j1), r)" by (metis surj_pair)
  note old = filledD [OF f [unfolded t]]
  note u = old(2)
  show ?thesis
  proof (cases "skips lib tx used ids")
    case True
    then show ?thesis using f run by (simp add: t try_candidate_def)
  next
    case False
    then have new: "txid lib tx \<notin> set ids" "\<not> is_coinstake tx" "\<not> is_coinbase tx" "validate_transaction tx = Ok ()"
      "serialized_size lib tx \<le> MAX_BLOCK_SIZE - used"
      by (auto simp: skips_def is_err_unit not_less)
    have np: "\<forall>m. r \<noteq> Err (Panic m)" using run False a by (auto simp: t try_candidate_def)
    have u1: "undoable {txid lib tx} (c, j) (c1, j1)"
      using apply_transaction_undoable [OF fresh_tx_undoable [OF fresh u new(1)], of j] a by (metis fst_conv)
    show ?thesis
    proof (cases "is_err r \<or> exceeds_supply (c1, j1)")
      case True
      have "take_back (if gov then Some (transaction_undo lib (governance c) tx ht) else None) j (c1, j1) = ((c, j), Ok ())"
        using u1 movesD [OF apply_transaction_root a] candidate_undo [OF new(2) a np] by (rule take_back_exact)
      then have "t' = t" using run False a np True
        by (cases r) (simp_all add: t try_candidate_def Let_def split: node_error.splits)
      then show ?thesis using f by simp
    next
      case ok: False
      then have r: "r = Ok ()" by (simp add: is_err_unit)
      have t': "t' = ((c1, j1), used + serialized_size lib tx, ids @ [txid lib tx], kept @ [tx])"
        using run False a r ok by (simp add: t try_candidate_def)
      have "undoable (set (ids @ [txid lib tx])) (c0, j0) (c1, j1)"
        by (rule undoable_trans [OF undoable_mono [OF u] undoable_mono [OF u1]]) auto
      moreover have "st_each (\<lambda>tx. apply_transaction lib bal tx ht ts pm gov) ((first_tx # kept) @ [tx]) (c0, j0) =
          ((c1, j1), Ok ())"
        using old(1) a r by (intro st_each_snoc) simp_all
      moreover have "\<forall>x\<in>set (kept @ [tx]). \<not> is_coinbase x \<and> \<not> is_coinstake x \<and> validate_transaction x = Ok ()"
        using old(6) new by simp
      ultimately have "filled lib bal first_tx ht ts pm gov (c0, j0) t'"
        using ok old(4,5,7) new(1) size_fits [OF new(5) old(8)]
        unfolding t' filled_def prod.case by (auto simp del: st_each.simps)
      then show ?thesis by (simp add: t t')
    qed
  qed
qed

lemma candidates_filled:
  "st_each (try_candidate lib bal ht ts pm gov) txs t = (t', r) \<Longrightarrow> \<forall>m. r \<noteq> Err (Panic m) \<Longrightarrow>
     filled lib bal first_tx ht ts pm gov (c0, j0) t \<Longrightarrow> \<forall>tx\<in>set txs. fresh_tx lib tx c0 \<Longrightarrow>
     r = Ok () \<and> filled lib bal first_tx ht ts pm gov (c0, j0) t' \<and>
     (\<exists>new. snd (snd (snd t')) = snd (snd (snd t)) @ new \<and> subseq new txs)"
proof (induction txs arbitrary: t)
  case (Cons tx txs)
  obtain t1 q where s: "try_candidate lib bal ht ts pm gov tx t = (t1, q)" by fastforce
  have q: "q = Ok ()"
  proof (cases q)
    case (Err e)
    then have "r = Err e" using Cons.prems(1) s by simp
    then show ?thesis using Cons.prems(2) try_candidate_Err [OF s [unfolded Err]] by (auto simp: is_panic_iff)
  qed simp
  have 1: "filled lib bal first_tx ht ts pm gov (c0, j0) t1"
    "snd (snd (snd t1)) = snd (snd (snd t)) \<or> snd (snd (snd t1)) = snd (snd (snd t)) @ [tx]"
    using try_candidate_filled [OF Cons.prems(3) _ s [unfolded q]] Cons.prems(4) by simp_all
  have "r = Ok () \<and> filled lib bal first_tx ht ts pm gov (c0, j0) t' \<and>
     (\<exists>new. snd (snd (snd t')) = snd (snd (snd t1)) @ new \<and> subseq new txs)"
    using Cons.prems(1,2,4) s q 1(1) by (intro Cons.IH) simp_all
  then show ?case using 1(2) by (metis append.assoc append_Cons append_Nil subseq_Cons2 list_emb_Cons)
qed simp

section \<open>The whole selection\<close>

lemma journaled_undoable:
  assumes "journaled c (c0, j0)" "undoable T (c0, j0) (c1, j1)" "changes j0 = []" "j_claimed j0 = []"
  shows "journaled c (c1, j1)"
proof -
  obtain chs claims where u: "changes j1 = chs" "j_claimed j1 = claims"
    "foldl undo_change (utxo_set c1) (rev chs) = utxo_set c0"
    "undo_claims (claimed_addresses c1) (rev claims) = claimed_addresses c0" "same_frame c0 c1" "same_journal_head j0 j1"
    using assms(2-4) unfolding undoable_def by auto
  then show ?thesis
    using assms(1,3,4) same_frame_static [OF u(5)]
    by (auto simp: journaled_def same_journal_head_def undo_claims_def intro: same_static_trans)
qed

lemma filled_first:
  assumes "fresh_tx lib first_tx c0" "apply_transaction lib bal first_tx ht ts pm gov (c0, j0) = (s1, Ok ())"
    "\<not> exceeds_supply s1" "serialized_size lib first_tx \<le> MAX_BLOCK_SIZE"
  shows "filled lib bal first_tx ht ts pm gov (c0, j0) (s1, serialized_size lib first_tx, [txid lib first_tx], [])"
  using apply_transaction_undoable [OF assms(1), of j0 bal ht ts pm gov] assms(2-4) by (simp add: filled_def)

lemma fill_outcome:
  assumes run: "fill_template lib bal first_tx cands ht ts pm gov (c, new_journal c h ht) = ((c1, j1), r)"
    and np: "\<forall>m. r \<noteq> Err (Panic m)" and fresh: "\<forall>tx\<in>set (first_tx # cands). fresh_tx lib tx c"
  shows "\<exists>c0. begin_governance_block ht ts gov (new_journal c h ht) c = (c0, Ok ()) \<and> journaled c (c1, j1) \<and>
    (\<not> gov \<longrightarrow> governance c1 = governance c) \<and>
    (\<forall>kept. r = Ok kept \<longrightarrow> subseq kept cands \<and> validate_transaction first_tx = Ok () \<and>
      (\<exists>used ids. filled lib bal first_tx ht ts pm gov (c0, new_journal c h ht) ((c1, j1), used, ids, kept)))"
proof -
  let ?j = "new_journal c h ht"
  obtain c0 q where g: "begin_governance_block ht ts gov ?j c = (c0, q)" by fastforce
  have q: "q = Ok ()"
    using run np g
    by (cases q) (auto simp: fill_template_def st_then_def st_bind_def on_chain_def begin_governance_block_def
        stakeable_sum_def Let_def split: if_splits prod.splits)
  note fr = begin_governance_block_frame [OF g]
  have j0: "journaled c (c0, ?j)" using fr by (simp add: journaled_def new_journal_def undo_claims_def)
  have jj: "changes ?j = []" "j_claimed ?j = []" by (simp_all add: new_journal_def)
  have fresh0: "\<forall>tx\<in>set (first_tx # cands). fresh_tx lib tx c0"
    using fresh fr(2) by (simp add: fresh_tx_def)
  have gov0: "governance c0 = governance c" if "\<not> gov" using g that by (simp add: begin_governance_block_def)
  obtain s1 q1 where a: "apply_transaction lib bal first_tx ht ts pm gov (c0, ?j) = (s1, q1)" by fastforce
  have u1: "undoable {txid lib first_tx} (c0, ?j) s1"
    using apply_transaction_undoable [of lib first_tx c0 ?j bal ht ts pm gov] fresh0 a by simp
  have gs: "same_gov (c0, ?j) s" if "\<not> gov" "st_each (\<lambda>tx. apply_transaction lib bal tx ht ts pm gov) txs (c0, ?j) = (s, x)"
    for txs s x
    using that by (intro movesD [OF sgov.moves_each that(2)]) (simp add: apply_transaction_gov)
  have g1: "same_gov (c0, ?j) s1" if "\<not> gov" using a that by (intro movesD [OF apply_transaction_gov]) simp
  have fin: "journaled c (c1, j1) \<and> (\<not> gov \<longrightarrow> governance c1 = governance c)"
    if "(c1, j1) = (c0, ?j) \<or> (c1, j1) = s1"
    using that j0 gov0 g1 journaled_undoable [OF j0 _ jj] u1 by (auto simp: same_gov_def)
  show ?thesis
  proof (cases "validate_transaction first_tx = Ok () \<and> serialized_size lib first_tx \<le> MAX_BLOCK_SIZE \<and>
      q1 = Ok () \<and> \<not> exceeds_supply s1")
    case False
    then have "is_err r \<and> ((c1, j1) = (c0, ?j) \<or> (c1, j1) = s1)"
      using run g q a
      by (cases "validate_transaction first_tx"; cases q1)
        (auto simp: fill_template_def st_then_def st_bind_def st_lift_def st_require_def on_chain_def split: if_splits)
    then have e: "\<forall>kept. r \<noteq> Ok kept" "journaled c (c1, j1)" "\<not> gov \<longrightarrow> governance c1 = governance c"
      using fin by auto
    show ?thesis by (rule exI [of _ c0]) (use g q e in simp)
  next
    case True
    let ?t = "(s1, serialized_size lib first_tx, [txid lib first_tx], [])"
    have f1: "filled lib bal first_tx ht ts pm gov (c0, ?j) ?t"
      using filled_first [of lib first_tx c0] fresh0 a True by simp
    obtain s2 used ids kept x where e: "st_each (try_candidate lib bal ht ts pm gov) cands ?t = ((s2, used, ids, kept), x)"
      by (metis surj_pair)
    have r: "((c1, j1), r) = (case x of Err e \<Rightarrow> (s2, Err e) | Ok _ \<Rightarrow> (s2, Ok kept))"
      using run g q a True e
      by (simp add: fill_template_def st_then_def st_bind_def st_lift_def st_require_def on_chain_def split: result.splits)
    then have "\<forall>m. x \<noteq> Err (Panic m)" using np by auto
    from candidates_filled [OF e this f1] fresh0
    have x: "x = Ok ()" "filled lib bal first_tx ht ts pm gov (c0, ?j) (s2, used, ids, kept)" "subseq kept cands"
      by auto
    then have s2: "s2 = (c1, j1)" "r = Ok kept" using r by simp_all
    note d = filledD [OF x(2)]
    have "journaled c (c1, j1)" using journaled_undoable [OF j0 _ jj] d(2) s2(1) by simp
    moreover have "governance c1 = governance c" if "\<not> gov"
      using gs [OF that d(1)] gov0 [OF that] s2(1) by (simp add: same_gov_def)
    ultimately show ?thesis by (intro exI [of _ c0]) (use g q True x(2,3) s2 in auto)
  qed
qed

lemma end_selection_runs:
  assumes "end_selection r j c = (c', q)" "\<forall>m. q \<noteq> Err (Panic m)"
  shows "q = r \<and> rollback_journal j c = (c', Ok ())"
proof -
  obtain c2 x where rb: "rollback_journal j c = (c2, x)" by fastforce
  show ?thesis
  proof (cases x)
    case (Ok u)
    then show ?thesis using assms rb by (cases r) (auto simp: end_selection_def split: node_error.splits)
  next
    case (Err e)
    then obtain m where "e = Panic m" using rollback_journal_Err rb by blast
    then show ?thesis using assms rb Err by (cases r) (auto simp: end_selection_def split: node_error.splits)
  qed
qed

lemma select_runs:
  assumes run: "select_block_transactions lib bal first_tx cands ht ts c = (c', r)" and np: "\<forall>m. r \<noteq> Err (Panic m)"
  obtains (refused) e where "c' = c" "r = Err e"
  | (tried) parent hdr c1 j1 where "best_height c \<noteq> - 1" "ht = best_height c + 1" "best_hash c = Some parent"
      "fmlookup (headers c) parent = Some hdr"
      "fill_template lib bal first_tx cands ht ts (stake_modifier hdr) (governance_active c ht)
         (c, new_journal c zero_hash ht) = ((c1, j1), r)"
      "rollback_journal (undo_journal c ht c1 j1) c1 = (c', Ok ())"
proof (cases "c' = c \<and> (\<exists>e. r = Err e)")
  case True
  then show ?thesis using refused by blast
next
  case False
  note def = select_block_transactions_def
  have h1: "best_height c \<noteq> - 1"
  proof
    assume "best_height c = - 1"
    then show False using run False by (auto simp: def)
  qed
  have h2: "ht = best_height c + 1"
  proof (rule ccontr)
    assume "ht \<noteq> best_height c + 1"
    then show False using run False h1 by (auto simp: def)
  qed
  have h3: "is_coinstake first_tx \<or> allow_pow_test_blocks c \<and> is_coinbase first_tx"
  proof (rule ccontr)
    assume "\<not> ?thesis"
    then show False using run False h1 h2 by (auto simp: def)
  qed
  obtain parent where p: "best_hash c = Some parent"
    using run False h1 h2 h3 by (cases "best_hash c") (auto simp: def)
  obtain hdr where d: "fmlookup (headers c) parent = Some hdr"
    using run False h1 h2 h3 p by (cases "fmlookup (headers c) parent") (auto simp: def)
  obtain c1 j1 q where f: "fill_template lib bal first_tx cands ht ts (stake_modifier hdr) (governance_active c ht)
      (c, new_journal c zero_hash ht) = ((c1, j1), q)" by (metis surj_pair)
  have "end_selection q (undo_journal c ht c1 j1) c1 = (c', r)"
    using run h1 h3 p d f unfolding def by (simp add: Let_def h2 [symmetric])
  then have "r = q" "rollback_journal (undo_journal c ht c1 j1) c1 = (c', Ok ())"
    using end_selection_runs np by blast+
  then show ?thesis using tried [OF h1 h2 p d] f by blast
qed

section \<open>The block hash of a journal\<close>

text \<open>
  The template is tried on a journal without a block hash. A step is blind to an update of its state
  when it makes no difference whether the update comes before or after.
\<close>

definition blind :: "('s \<Rightarrow> 's) \<Rightarrow> ('s, 'a, 'e) st \<Rightarrow> bool" where
  "blind u m \<longleftrightarrow> (\<forall>s. m (u s) = apfst u (m s))"

lemma blindD: "blind u m \<Longrightarrow> m (u s) = apfst u (m s)"
  by (simp add: blind_def)

lemma blind_bind:
  assumes "blind u m" "\<And>x. blind u (f x)"
  shows "blind u (st_bind m f)"
  unfolding blind_def
proof
  fix s
  obtain t r where m: "m s = (t, r)" by fastforce
  then have "m (u s) = (u t, r)" using assms(1) by (simp add: blind_def)
  then show "st_bind m f (u s) = apfst u (st_bind m f s)"
    using assms(2) m by (cases r) (simp_all add: st_bind_def blind_def)
qed

lemma blind_then: "blind u m \<Longrightarrow> blind u n \<Longrightarrow> blind u (st_then m n)"
  unfolding st_then_def by (rule blind_bind)

lemma blind_lift: "(\<And>s. f (u s) = f s) \<Longrightarrow> blind u (st_lift f)"
  by (simp add: blind_def st_lift_def)

lemma blind_require: "(\<And>s. P (u s) = P s) \<Longrightarrow> blind u (st_require P e)"
  by (simp add: blind_def st_require_def)

lemma blind_each: "(\<And>x. blind u (f x)) \<Longrightarrow> blind u (st_each f xs)"
proof (induction xs)
  case (Cons x xs)
  have "st_each f (x # xs) = st_then (f x) (st_each f xs)"
    by (auto simp: st_then_def st_bind_def fun_eq_iff split: prod.splits result.splits)
  then show ?case using Cons by (auto intro: blind_then)
qed (simp add: blind_def)

definition rehash :: "bytes \<Rightarrow> ledger \<Rightarrow> ledger" where
  "rehash h = (\<lambda>(c, j). (c, j\<lparr>j_block_hash := h\<rparr>))"

lemma spend_inputs_blind: "blind (apfst (rehash h)) (spend_inputs lib tx ht ts gov)"
proof -
  have "blind (apfst (rehash h)) (spend_input lib tx ht ts gov x)" for x
    unfolding blind_def
    by (auto simp: rehash_def spend_input_def Let_def split: prod.split option.split result.split)
  then show ?thesis unfolding spend_inputs_def by (auto intro: blind_lift blind_each)
qed

lemma finish_transaction_blind: "blind (rehash h) (finish_transaction lib bal tx ht ts pm gov ti si)"
proof -
  have rc: "blind (rehash h) (record_claim lib bal tx ht)"
    by (auto simp: blind_def rehash_def record_claim_def split: prod.split option.split result.split)
  have cl: "blind (rehash h) (apply_claim lib bal tx ht ts)"
    unfolding apply_claim_def by (auto intro: blind_then rc blind_lift blind_require)
  have ao: "blind (rehash h) (add_outputs lib tx ht ts)"
    unfolding add_outputs_def
    by (rule blind_each) (auto simp: blind_def rehash_def add_output_def Let_def split: prod.split option.split)
  have ml: "blind (rehash h) (move_stake_lock lib tx ht gov si)"
    by (auto simp: blind_def rehash_def move_stake_lock_def split: prod.split bool.split option.split)
  have as: "blind (rehash h) (add_supply tx ti)"
    by (auto simp: blind_def rehash_def add_supply_def st_update_def)
  have ck: "blind (rehash h) (st_lift (\<lambda>(c, j). if is_coinstake tx then check_coinstake lib tx ht ts pm si c else Ok ()))"
    by (rule blind_lift) (auto simp: rehash_def split: prod.split)
  show ?thesis
    unfolding finish_transaction_def
    by (intro blind_then cl ao ml as ck blind_require) simp
qed

lemma apply_transaction_blind: "blind (rehash h) (apply_transaction lib bal tx ht ts pm gov)"
proof -
  have "blind (rehash h) (apply_transaction_journaled lib bal tx ht ts pm gov)"
    unfolding blind_def
  proof
    fix s
    obtain s1 ti si x where sp: "spend_inputs lib tx ht ts gov (s, 0, None) = ((s1, ti, si), x)" by (metis surj_pair)
    have "spend_inputs lib tx ht ts gov (apfst (rehash h) (s, 0, None)) =
        apfst (apfst (rehash h)) (spend_inputs lib tx ht ts gov (s, 0, None))"
      by (rule blindD [OF spend_inputs_blind])
    then have "spend_inputs lib tx ht ts gov (rehash h s, 0, None) = ((rehash h s1, ti, si), x)" by (simp add: sp)
    then show "apply_transaction_journaled lib bal tx ht ts pm gov (rehash h s) =
        apfst (rehash h) (apply_transaction_journaled lib bal tx ht ts pm gov s)"
      using sp by (cases x) (simp_all add: apply_transaction_journaled_def blindD [OF finish_transaction_blind])
  qed
  moreover have "blind (rehash h) (process_governance lib tx ht ts gov)"
    by (auto simp: blind_def rehash_def process_governance_def Let_def split: prod.split list.split)
  ultimately show ?thesis unfolding apply_transaction_def by (intro blind_then)
qed

section \<open>Properties\<close>

text \<open>On the sample chain, a candidate that spends an unknown output is dropped, the next one kept.\<close>

lemma sample_checks:
  "validate_transaction mint_tx = Ok ()" "validate_transaction (spend_tx (replicate 32 n)) = Ok ()"
  by (simp_all add: validate_transaction_def mint_tx_def spend_tx_def is_coinbase_def is_coinstake_def is_legacy_claim_def
      key_script_def outpoint_def MAX_MONEY_def MAX_SUPPLY_def COIN_def)

lemma sample_sizes:
  "serialized_size sample_lib mint_tx = 120" "serialized_size sample_lib (spend_tx (replicate 32 n)) = 124"
  by (simp_all add: mint_tx_def spend_tx_def key_script_def serialized_size_def sample_lib_def tx_enc_def
      vec_enc_def input_enc_def output_enc_def bytes_enc_def zero_hash_def)

lemma sample_selects:
  "\<exists>c'. select_block_transactions sample_lib bal mint_tx [spend_tx (replicate 32 8), spend_tx (replicate 32 9)] 5 5000
     small_chain = (c', Ok [spend_tx (replicate 32 9)])"
proof -
  let ?bad = "spend_tx (replicate 32 8)" and ?good = "spend_tx (replicate 32 9)" and ?j = "new_journal small_chain zero_hash 5"
  obtain c j where m: "minted zero_hash = (c, j)" by (cases "minted zero_hash")
  have v: "supply_delta j = 700000000" "total_supply c = 9000000000"
    using m by (auto simp: minted_def small_chain_def)
  have "fmlookup (utxo_set c) (replicate 32 8, 0) = None"
    using m mint_id(1) [of 8] by (auto simp: minted_def small_chain_def coin_key_def)
  then have "\<exists>e. apply_transaction sample_lib bal ?bad 5 5000 17 False (c, j) = ((c, j), Err (InvalidTransaction e))"
    by (simp add: run_defs spend_input_def spend_kind)
  moreover have tb: "take_back None j (c, j) = ((c, j), Ok ())"
    by (simp add: take_back_def restore_governance_def rollback_changes_eq undo_claims_def)
  moreover have ids: "txid sample_lib ?bad \<noteq> txid sample_lib mint_tx" "txid sample_lib ?good \<noteq> txid sample_lib mint_tx"
    using mint_id(2) by metis+
  ultimately have bad: "try_candidate sample_lib bal 5 5000 17 False ?bad ((c, j), 120, [txid sample_lib mint_tx], []) =
      (((c, j), 120, [txid sample_lib mint_tx], []), Ok ())"
    by (auto simp: try_candidate_def skips_def sample_checks sample_sizes spend_kind MAX_BLOCK_SIZE_def)
  obtain c2 j2 where g: "apply_transaction sample_lib bal ?good 5 5000 17 False (c, j) = ((c2, j2), Ok ())"
    "supply_delta j2 = 700000000" "total_supply c2 = 9000000000"
    using spend_runs [of bal zero_hash] m by auto
  then have good: "try_candidate sample_lib bal 5 5000 17 False ?good ((c, j), 120, [txid sample_lib mint_tx], []) =
      (((c2, j2), 244, [txid sample_lib mint_tx, txid sample_lib ?good], [?good]), Ok ())"
    using ids by (simp add: try_candidate_def skips_def sample_checks sample_sizes spend_kind MAX_BLOCK_SIZE_def
        exceeds_supply_def sat_add_def MAX_SUPPLY_def COIN_def)
  have fill: "fill_template sample_lib bal mint_tx [?bad, ?good] 5 5000 17 False (small_chain, ?j) = ((c2, j2), Ok [?good])"
    using v bad good by (simp add: fill_template_def st_then_def st_bind_def st_lift_def st_require_def on_chain_def
        begin_governance_block_def mint_runs m sample_checks sample_sizes MAX_BLOCK_SIZE_def exceeds_supply_def sat_add_def
        MAX_SUPPLY_def COIN_def)
  have "best_height small_chain = 4" "best_hash small_chain = Some parent_hash" "allow_pow_test_blocks small_chain"
    "fmlookup (headers small_chain) parent_hash = Some parent_header" "stake_modifier parent_header = 17"
    by (simp_all add: small_chain_def best_height_def best_hash_def parent_header_def)
  moreover have "\<exists>c'. rollback_journal (undo_journal small_chain 5 c2 j2) c2 = (c', Ok ())"
    by (simp add: rollback_journal_def undo_journal_def small_governance st_then_def st_bind_def st_update_def
        restore_governance_def)
  ultimately show ?thesis using fill mint_kind(1)
    by (auto simp: select_block_transactions_def small_governance end_selection_def)
qed

lemma sample_fresh:
  "\<forall>tx\<in>set (mint_tx # [spend_tx (replicate 32 8), spend_tx (replicate 32 9)]). fresh_tx sample_lib tx small_chain"
  using good_fresh bad_fresh by (auto simp: fresh_txs_def good_block_def bad_block_def block_of_def)

text \<open>
  C7: trying out a template leaves no trace. Selecting transactions for a block, whichever candidates
  fail and also when the prefix itself is refused, gives the chain back exactly as it was, provided
  that the selection does not panic and that the prefix and the candidates create outpoints that are
  not in the set.
\<close>

theorem template_restores:
  assumes "select_block_transactions lib bal first_tx cands ht ts c = (c', r)" "\<forall>m. r \<noteq> Err (Panic m)"
    "\<forall>tx\<in>set (first_tx # cands). fresh_tx lib tx c"
  shows "c' = c"
  using assms(1,2)
proof (cases rule: select_runs)
  case (tried parent hdr c1 j1)
  have jo: "journaled c (c1, j1)" and gov: "\<not> governance_active c ht \<longrightarrow> governance c1 = governance c"
    using fill_outcome [OF tried(5) assms(2,3)] by blast+
  have "rollback_journal (undo_journal c ht c1 j1) c1 = (c, Ok ())"
  proof (rule rollback_journal_exact)
    show "journaled c (c1, undo_journal c ht c1 j1)" using jo by (simp add: journaled_def undo_journal_def)
    fix d :: chain
    assume d: "governance d = governance c1"
    show "restore_governance (previous_governance (undo_journal c ht c1 j1)) d = (d\<lparr>governance := governance c\<rparr>, Ok ())"
    proof (cases "governance_active c ht")
      case True
      then show ?thesis using restore_since [OF d] by (simp add: undo_journal_def)
    next
      case False
      then show ?thesis using d gov by (cases d) (simp add: undo_journal_def restore_governance_def)
    qed
  qed
  then show ?thesis using tried(6) by simp
qed simp

theorem template_restores_witness:
  "select_block_transactions sample_lib (\<lambda>_. 0) mint_tx [spend_tx (replicate 32 8), spend_tx (replicate 32 9)] 5 5000
     small_chain = (small_chain, Ok [spend_tx (replicate 32 9)])"
proof -
  obtain c' where s: "select_block_transactions sample_lib (\<lambda>_. 0) mint_tx
      [spend_tx (replicate 32 8), spend_tx (replicate 32 9)] 5 5000 small_chain = (c', Ok [spend_tx (replicate 32 9)])"
    using sample_selects by blast
  have "c' = small_chain" by (rule template_restores [OF s _ sample_fresh]) simp
  then show ?thesis using s by simp
qed

text \<open>
  C6: a template can be applied. When the candidates and the prefix create outpoints that are not in
  the set, the kept transactions are candidates in their order, and a block of the prefix and the kept
  transactions, on top of the tip at the same time, is applied by the ledger. The sizes of its
  transactions sum to at most the block size limit; the header and the framing of the block are not
  part of that sum, although the validation of a block counts them.
\<close>

theorem template_applies:
  assumes run: "select_block_transactions lib bal first_tx cands ht ts c = (c', Ok kept)"
    and fresh: "\<forall>tx\<in>set (first_tx # cands). fresh_tx lib tx c"
    and b: "transactions b = first_tx # kept" "timestamp (header b) = ts" "best_hash c = Some (prev_block_hash (header b))"
  shows "subseq kept cands \<and> sum_list (map (unat \<circ> serialized_size lib) (transactions b)) \<le> unat MAX_BLOCK_SIZE \<and>
    (\<exists>c1 j. apply_block_journaled lib bal b ht c = (c1, Ok j))"
proof -
  have np: "\<forall>m. Ok kept \<noteq> (Err (Panic m) :: (transaction list, node_error) result)" by simp
  with run show ?thesis
  proof (cases rule: select_runs)
    case (tried parent hdr c1 j1)
    let ?gov = "governance_active c ht" and ?pm = "stake_modifier hdr" and ?h = "block_hash lib b"
    let ?j = "new_journal c zero_hash ht" and ?jb = "new_journal c (block_hash lib b) ht"
    obtain c0 used ids where bg: "begin_governance_block ht ts ?gov ?j c = (c0, Ok ())" and sub: "subseq kept cands"
      and fl: "filled lib bal first_tx ht ts ?pm ?gov (c0, ?j) ((c1, j1), used, ids, kept)"
      using fill_outcome [OF tried(5) np fresh] by blast
    note d = filledD [OF fl]
    have "ht \<noteq> 0" using tried(1,2) by (metis eq_neg_iff_add_eq_0)
    then have pm: "parent_stake_modifier c b ht = Ok ?pm"
      using tried(3,4) b(3) by (simp add: parent_stake_modifier_def ok_or_def)
    have "st_each (\<lambda>tx. apply_transaction lib bal tx ht ts ?pm ?gov) (transactions b) (rehash ?h (c0, ?j)) =
        apfst (rehash ?h) ((c1, j1), Ok ())"
      unfolding b(1) d(1) [symmetric] by (rule blindD [OF blind_each [OF apply_transaction_blind]])
    then have tx: "st_each (\<lambda>tx. apply_transaction lib bal tx ht ts ?pm ?gov) (transactions b) (c0, ?jb) =
        ((c1, j1\<lparr>j_block_hash := ?h\<rparr>), Ok ())"
      by (simp add: rehash_def new_journal_def)
    have "previous_params ?jb = previous_params ?j" by (simp add: new_journal_def)
    then have g: "begin_governance_block ht ts ?gov ?jb c = (c0, Ok ())"
      using bg by (simp only: begin_governance_block_def)
    have "\<exists>u. apply_block_body lib bal b ht ?pm ?gov (c, ?jb) = (u, Ok ())"
      using tx g d(3) b(2)
      by (simp add: apply_block_body_def st_then_def st_bind_def on_chain_def commit_block_def exceeds_supply_def Let_def)
    then have "\<exists>c1 j. apply_block_journaled lib bal b ht c = (c1, Ok j)"
      using pm by (auto simp: apply_block_journaled_def)
    moreover have "sum_list (map (unat \<circ> serialized_size lib) (transactions b)) \<le> unat MAX_BLOCK_SIZE"
      using d(7,8) b(1) by (simp add: word_le_nat_alt)
    ultimately show ?thesis using sub by simp
  qed simp
qed

theorem template_applies_witness:
  "\<exists>c1 j. apply_block_journaled sample_lib (\<lambda>_. 0) good_block 5 small_chain = (c1, Ok j)"
proof -
  obtain c' where s: "select_block_transactions sample_lib (\<lambda>_. 0) mint_tx
      [spend_tx (replicate 32 8), spend_tx (replicate 32 9)] 5 5000 small_chain = (c', Ok [spend_tx (replicate 32 9)])"
    using sample_selects by blast
  have b: "transactions good_block = mint_tx # [spend_tx (replicate 32 9)]" "timestamp (header good_block) = 5000"
    "best_hash small_chain = Some (prev_block_hash (header good_block))"
    by (simp_all add: good_block_def block_of_def small_chain_def best_hash_def)
  show ?thesis using template_applies [OF s sample_fresh b] by blast
qed

end
