(* ===== verification/Mempool.thy ===== *)
theory Mempool
  imports ChainApi
begin

text \<open>
  The pool of unconfirmed transactions of \<open>vtorrent-node/src/mempool.rs\<close>: admission by fee,
  replacement, eviction, and the order in which a staker takes the transactions. The clock and the
  order in which a \<open>HashMap\<close> is iterated are arguments where they can matter. A loop that need not
  end is a partial function, whose result \<open>None\<close> is a run that does not return.
\<close>

section \<open>State\<close>

definition MIN_RBF_FEE_BUMP :: u64 where "MIN_RBF_FEE_BUMP = 1"
definition MIN_RELAY_FEE :: u64 where "MIN_RELAY_FEE = 1000"
definition DEFAULT_MAX_MEMPOOL_BYTES :: u64 where "DEFAULT_MAX_MEMPOOL_BYTES = 32 * 1024 * 1024"
definition STALE_TX_TTL_SECS :: u64 where "STALE_TX_TTL_SECS = 48 * 60 * 60"
definition DUST_SATOSHIS :: u64 where "DUST_SATOSHIS = 546"

record mempool_entry =
  e_tx :: transaction
  e_fee :: u64
  e_size :: u64
  received_at :: u64
  e_rbf :: bool

text \<open>The rate of a fee over a size, as \<open>fee_rate\<close> and the admission compute it.\<close>

definition rate_of :: "u64 \<Rightarrow> u64 \<Rightarrow> u64" where
  "rate_of fee sz = (if sz = 0 then 0 else fee div sz)"

definition fee_rate :: "mempool_entry \<Rightarrow> u64" where
  "fee_rate e = rate_of (e_fee e) (e_size e)"

record mempool =
  entries :: "(bytes, mempool_entry) fmap"
  pending_claims :: "(bytes, bytes) fmap"
  spent_inputs :: "(out_point, bytes) fmap"
  max_size :: nat
  max_bytes :: u64
  min_fee_rate :: u64

definition with_byte_limit :: "nat \<Rightarrow> u64 \<Rightarrow> mempool" where
  "with_byte_limit size_limit byte_limit =
     \<lparr>entries = fmempty, pending_claims = fmempty, spent_inputs = fmempty,
      max_size = size_limit, max_bytes = byte_limit, min_fee_rate = 1\<rparr>"

definition new_mempool :: "nat \<Rightarrow> mempool" where
  "new_mempool size_limit = with_byte_limit size_limit DEFAULT_MAX_MEMPOOL_BYTES"

definition mempool_size :: "mempool \<Rightarrow> nat" where
  "mempool_size mp = fcard (fmdom (entries mp))"

definition total_bytes :: "mempool \<Rightarrow> u64 nresult" where
  "total_bytes mp = checked_sum (map e_size (fm_values (entries mp)))"

definition total_fees :: "mempool \<Rightarrow> u64 nresult" where
  "total_fees mp = checked_sum (map e_fee (fm_values (entries mp)))"

definition mempool_transaction :: "mempool \<Rightarrow> bytes \<Rightarrow> transaction option" where
  "mempool_transaction mp t = map_option e_tx (fmlookup (entries mp) t)"

section \<open>Removal\<close>

text \<open>The address a transaction claims, when it is a claim.\<close>

definition claimed_by :: "transaction \<Rightarrow> bytes option" where
  "claimed_by tx = (if is_legacy_claim tx then claim_address tx else None)"

definition remove_entry :: "bytes \<Rightarrow> mempool \<Rightarrow> mempool" where
  "remove_entry t mp =
     (case fmlookup (entries mp) t of
        None \<Rightarrow> mp
      | Some e \<Rightarrow> mp\<lparr>entries := fmdrop t (entries mp),
          spent_inputs := fold (\<lambda>inp. fmdrop (outpoint inp)) (inputs (e_tx e)) (spent_inputs mp),
          pending_claims :=
            (case claimed_by (e_tx e) of
               None \<Rightarrow> pending_claims mp
             | Some addr \<Rightarrow>
                 if fmlookup (pending_claims mp) addr = Some t then fmdrop addr (pending_claims mp)
                 else pending_claims mp)\<rparr>)"

definition remove_transaction :: "bytes \<Rightarrow> mempool \<Rightarrow> mempool" where
  "remove_transaction = remove_entry"

text \<open>The owners of the indexed inputs that satisfy a test, in the order of the index.\<close>

definition owners :: "(out_point \<Rightarrow> bool) \<Rightarrow> mempool \<Rightarrow> bytes list" where
  "owners test mp = map snd (filter (\<lambda>(k, _). test k) (sorted_list_of_fmap (spent_inputs mp)))"

definition handle_confirmed_block :: "bytes list \<Rightarrow> out_point list \<Rightarrow> mempool \<Rightarrow> mempool" where
  "handle_confirmed_block confirmed_txids spent_outpoints mp =
     (let mp1 = fold remove_entry confirmed_txids mp in
      if spent_outpoints = [] then mp1
      else fold remove_entry (owners (\<lambda>k. k \<in> set spent_outpoints) mp1) mp1)"

definition evict_stale :: "u64 \<Rightarrow> mempool \<Rightarrow> mempool \<times> nat" where
  "evict_stale now mp =
     (let stale = map fst (filter (\<lambda>(_, e). sat_sub now (received_at e) > STALE_TX_TTL_SECS)
        (sorted_list_of_fmap (entries mp))) in
      (fold remove_entry stale mp, length stale))"

text \<open>The loop over the descendants of removed transactions, level by level.\<close>

partial_function (option) evict_descendants :: "bytes list \<Rightarrow> mempool \<Rightarrow> mempool option" where
  "evict_descendants frontier mp =
     (if frontier = [] then Some mp
      else let doomed = owners (\<lambda>k. fst k \<in> set frontier) mp in
        if doomed = [] then Some mp
        else evict_descendants doomed (fold remove_entry doomed mp))"

section \<open>Admission\<close>

type_synonym 'a pool_run = "(mempool \<times> 'a nresult) option"

definition then_run :: "unit pool_run \<Rightarrow> (mempool \<Rightarrow> 'a pool_run) \<Rightarrow> 'a pool_run" where
  "then_run r f = Option.bind r (\<lambda>(mp, q). case q of Ok _ \<Rightarrow> f mp | Err e \<Rightarrow> Some (mp, Err e))"

definition is_data_carrier :: "tx_output \<Rightarrow> bool" where
  "is_data_carrier out \<longleftrightarrow>
     (case from_bytes (script_pubkey out) of Ok s \<Rightarrow> classify_script s = OpReturn | Err _ \<Rightarrow> False)"

definition check_dust :: "tx_output \<Rightarrow> unit nresult" where
  "check_dust out =
     (if out_value out < DUST_SATOSHIS \<and> \<not> is_data_carrier out
      then Err (PolicyRejected ''Output value is below the dust threshold'') else Ok ())"

definition check_pending_claim :: "bytes \<Rightarrow> transaction \<Rightarrow> mempool \<Rightarrow> unit nresult" where
  "check_pending_claim t tx mp =
     (case Option.bind (claimed_by tx) (fmlookup (pending_claims mp)) of
        None \<Rightarrow> Ok ()
      | Some existing \<Rightarrow>
          if existing \<noteq> t then Err (PolicyRejected ''A claim is already pending'') else Ok ())"

definition check_fee :: "bool \<Rightarrow> u64 \<Rightarrow> u64 \<Rightarrow> mempool \<Rightarrow> unit nresult" where
  "check_fee fee_exempt fee rate mp =
     (if \<not> fee_exempt \<and> fee < MIN_RELAY_FEE then Err (PolicyRejected ''Fee too low'')
      else if \<not> fee_exempt \<and> rate < min_fee_rate mp then Err (PolicyRejected ''Fee rate too low'')
      else Ok ())"

text \<open>The checks that precede the first change of the pool.\<close>

definition relay_checks ::
  "('sig, 'pk, 'x) node_lib_scheme \<Rightarrow> transaction \<Rightarrow> u64 \<Rightarrow> mempool \<Rightarrow> unit nresult" where
  "relay_checks lib tx fee mp =
     res_bind (validate_transaction tx) (\<lambda>_.
     res_bind (if is_legacy_claim tx then Ok () else check_each check_dust (outputs tx)) (\<lambda>_.
     res_bind (check_pending_claim (txid lib tx) tx mp) (\<lambda>_.
     check_fee (is_legacy_claim tx) fee (rate_of fee (serialized_size lib tx)) mp)))"

fun collect_conflicts :: "(out_point, bytes) fmap \<Rightarrow> bytes list \<Rightarrow> tx_input list \<Rightarrow> bytes list" where
  "collect_conflicts index acc [] = acc"
| "collect_conflicts index acc (inp # inps) =
     collect_conflicts index
       (case fmlookup index (outpoint inp) of
          None \<Rightarrow> acc
        | Some t \<Rightarrow> if t \<in> set acc then acc else acc @ [t]) inps"

definition find_conflicts :: "transaction \<Rightarrow> mempool \<Rightarrow> bytes list" where
  "find_conflicts tx mp = collect_conflicts (spent_inputs mp) [] (inputs tx)"

definition check_outbids :: "u64 \<Rightarrow> u64 \<Rightarrow> mempool \<Rightarrow> bytes \<Rightarrow> unit nresult" where
  "check_outbids rate fee mp t =
     (case fmlookup (entries mp) t of
        None \<Rightarrow> Err (ChainError ''Conflict entry missing'')
      | Some e \<Rightarrow>
          if rate < sat_add (fee_rate e) MIN_RBF_FEE_BUMP
          then Err (ChainError ''RBF replacement fee rate must exceed the conflict'')
          else if fee < e_fee e
          then Err (ChainError ''RBF replacement absolute fee must not be lower'')
          else Ok ())"

definition replace_conflicts :: "transaction \<Rightarrow> u64 \<Rightarrow> u64 \<Rightarrow> mempool \<Rightarrow> unit pool_run" where
  "replace_conflicts tx rate fee mp =
     (let conflicts = find_conflicts tx mp in
      if conflicts = [] then Some (mp, Ok ())
      else if \<not> signals_rbf tx
      then Some (mp, Err (ChainError ''Transaction conflicts with mempool entry; signal RBF to replace''))
      else (case check_each (check_outbids rate fee mp) conflicts of
          Err e \<Rightarrow> Some (mp, Err e)
        | Ok _ \<Rightarrow> map_option (\<lambda>mp'. (mp', Ok ()))
            (evict_descendants conflicts (fold remove_entry conflicts mp))))"

text \<open>The entry of least rate, then of least size, then of least identifier.\<close>

definition lowest_fee_rate_txid :: "('sig, 'pk, 'x) node_lib_scheme \<Rightarrow> mempool \<Rightarrow> bytes option" where
  "lowest_fee_rate_txid lib mp =
     (case sorted_list_of_fmap (entries mp) of
        [] \<Rightarrow> None
      | es \<Rightarrow> Some (fst (arg_min_list (\<lambda>(t, e). (fee_rate e, serialized_size lib (e_tx e), t)) es)))"

definition pool_fits :: "u64 \<Rightarrow> u64 \<Rightarrow> mempool \<Rightarrow> bool" where
  "pool_fits used sz mp \<longleftrightarrow>
     mempool_size mp < max_size mp \<and> sat_add used sz \<le> max_bytes mp"

partial_function (option) make_room ::
  "('sig, 'pk, 'x) node_lib_scheme \<Rightarrow> u64 \<Rightarrow> u64 \<Rightarrow> mempool \<Rightarrow> unit pool_run" where
  "make_room lib sz rate mp =
     (case total_bytes mp of
        Err e \<Rightarrow> Some (mp, Err e)
      | Ok used \<Rightarrow>
          if pool_fits used sz mp then Some (mp, Ok ())
          else (case lowest_fee_rate_txid lib mp of
              None \<Rightarrow> Some (mp, Ok ())
            | Some lowest \<Rightarrow> (case fmlookup (entries mp) lowest of
                None \<Rightarrow> Some (mp, Err (Panic ''no entry found for key''))
              | Some e \<Rightarrow>
                  if rate \<le> fee_rate e then Some (mp, Err (ChainError ''Mempool full''))
                  else Option.bind (evict_descendants [lowest] (remove_entry lowest mp)) (\<lambda>mp1.
                    case checked_add (fee_rate e) 1 of
                      None \<Rightarrow> Some (mp1, Err overflow)
                    | Some floor_rate \<Rightarrow> make_room lib sz rate (mp1\<lparr>min_fee_rate := floor_rate\<rparr>)))))"

definition decay_fee_rate :: "mempool \<Rightarrow> mempool" where
  "decay_fee_rate mp =
     (if mempool_size mp < max_size mp div 2 \<and> min_fee_rate mp > 1
      then mp\<lparr>min_fee_rate := min_fee_rate mp - 1\<rparr> else mp)"

definition insert_entry :: "bytes \<Rightarrow> mempool_entry \<Rightarrow> mempool \<Rightarrow> mempool" where
  "insert_entry t e mp = mp\<lparr>entries := fmupd t e (entries mp),
     spent_inputs := fold (\<lambda>inp. fmupd (outpoint inp) t) (inputs (e_tx e)) (spent_inputs mp),
     pending_claims :=
       (case claimed_by (e_tx e) of
          None \<Rightarrow> pending_claims mp
        | Some addr \<Rightarrow> fmupd addr t (pending_claims mp))\<rparr>"

definition new_entry ::
  "('sig, 'pk, 'x) node_lib_scheme \<Rightarrow> u64 \<Rightarrow> transaction \<Rightarrow> u64 \<Rightarrow> mempool_entry" where
  "new_entry lib now tx fee = \<lparr>e_tx = tx, e_fee = fee, e_size = serialized_size lib tx,
     received_at = now, e_rbf = signals_rbf tx\<rparr>"

definition add_transaction_with_fee ::
  "('sig, 'pk, 'x) node_lib_scheme \<Rightarrow> u64 \<Rightarrow> transaction \<Rightarrow> u64 \<Rightarrow> mempool \<Rightarrow> unit pool_run" where
  "add_transaction_with_fee lib now tx fee mp =
     (case relay_checks lib tx fee mp of
        Err e \<Rightarrow> Some (mp, Err e)
      | Ok _ \<Rightarrow>
          (let t = txid lib tx; sz = serialized_size lib tx; rate = rate_of fee sz in
           if t |\<in>| fmdom (entries mp) then Some (mp, Ok ())
           else then_run (replace_conflicts tx rate fee mp) (\<lambda>mp1.
             if sz > max_bytes mp1
             then Some (mp1, Err (PolicyRejected ''Transaction size exceeds the mempool byte budget''))
             else then_run (make_room lib sz rate mp1) (\<lambda>mp2.
               Some (insert_entry t (new_entry lib now tx fee) (decay_fee_rate mp2), Ok ())))))"

text \<open>An ordinary spend of a cold-staking output needs the spending key.\<close>

definition check_cold_spend ::
  "('sig, 'pk, 'x) node_lib_scheme \<Rightarrow> chain \<Rightarrow> transaction \<Rightarrow> nat \<times> tx_input \<Rightarrow> unit nresult" where
  "check_cold_spend lib c tx = (\<lambda>(i, inp).
     case fmlookup (utxo_set c) (prev_txid inp, prev_vout inp) of
       None \<Rightarrow> Ok ()
     | Some u \<Rightarrow>
         if p2cs_redeem_script (u_script u) (script_sig inp) \<noteq> None \<and>
            \<not> p2cs_cold_spend_authorized lib tx i u
         then Err (PolicyRejected ''P2CS spend must be authorized by the cold spending key'')
         else Ok ())"

definition tip_time :: "chain \<Rightarrow> u32" where
  "tip_time c = (case get_block_at_height c (best_height c) of
     None \<Rightarrow> 0 | Some b \<Rightarrow> timestamp (header b))"

definition admit_with_chain_fee ::
  "('sig, 'pk, 'x) node_lib_scheme \<Rightarrow> (bytes \<Rightarrow> u64) \<Rightarrow> u64 \<Rightarrow> chain \<Rightarrow> transaction \<Rightarrow> mempool \<Rightarrow> u64 pool_run" where
  "admit_with_chain_fee lib legacy_balance now c tx mp =
     (case compute_tx_fee c tx of
        None \<Rightarrow> Some (mp, Err (ChainError ''Transaction inputs not found in UTXO set''))
      | Some fee \<Rightarrow>
          (case res_bind (verify_tx_scripts lib legacy_balance c tx (best_height c) (tip_time c)) (\<lambda>_.
              if is_coinstake tx then Ok ()
              else check_each (check_cold_spend lib c tx) (List.enumerate 0 (inputs tx))) of
             Err e \<Rightarrow> Some (mp, Err e)
           | Ok _ \<Rightarrow> then_run (add_transaction_with_fee lib now tx fee mp) (\<lambda>mp1. Some (mp1, Ok fee))))"

text \<open>Errors of the readmission are dropped; a panic is not an error that can be.\<close>

fun readmit ::
  "('sig, 'pk, 'x) node_lib_scheme \<Rightarrow> (bytes \<Rightarrow> u64) \<Rightarrow> u64 \<Rightarrow> chain \<Rightarrow> transaction list \<Rightarrow> mempool \<Rightarrow> unit pool_run" where
  "readmit lib legacy_balance now c [] mp = Some (mp, Ok ())"
| "readmit lib legacy_balance now c (tx # txs) mp =
     Option.bind (admit_with_chain_fee lib legacy_balance now c tx mp) (\<lambda>(mp1, r).
       case r of
         Err (Panic m) \<Rightarrow> Some (mp1, Err (Panic m))
       | _ \<Rightarrow> readmit lib legacy_balance now c txs mp1)"

definition invalid_after_reorg ::
  "('sig, 'pk, 'x) node_lib_scheme \<Rightarrow> (bytes \<Rightarrow> u64) \<Rightarrow> chain \<Rightarrow> mempool_entry \<Rightarrow> bool" where
  "invalid_after_reorg lib legacy_balance c e \<longleftrightarrow>
     compute_tx_fee c (e_tx e) \<noteq> Some (e_fee e) \<or>
     is_err (verify_tx_scripts lib legacy_balance c (e_tx e) (best_height c) (tip_time c))"

definition handle_reorg ::
  "('sig, 'pk, 'x) node_lib_scheme \<Rightarrow> (bytes \<Rightarrow> u64) \<Rightarrow> u64 \<Rightarrow> chain \<Rightarrow> transaction list \<Rightarrow> mempool \<Rightarrow> unit pool_run" where
  "handle_reorg lib legacy_balance now c rolled_back_txs mp =
     (let invalid = map fst (filter (\<lambda>(_, e). invalid_after_reorg lib legacy_balance c e)
        (sorted_list_of_fmap (entries mp))) in
      readmit lib legacy_balance now c rolled_back_txs (fold remove_entry invalid mp))"

section \<open>The order for a block\<close>

text \<open>\<open>std::cmp::Reverse\<close> turns an order around.\<close>

datatype 'a reverse = Reverse (unreverse: 'a)

instantiation reverse :: (linorder) linorder
begin

definition less_eq_reverse :: "'a reverse \<Rightarrow> 'a reverse \<Rightarrow> bool" where
  "less_eq_reverse a b \<longleftrightarrow> unreverse b \<le> unreverse a"

definition less_reverse :: "'a reverse \<Rightarrow> 'a reverse \<Rightarrow> bool" where
  "less_reverse a b \<longleftrightarrow> unreverse b < unreverse a"

instance
  by standard (auto simp: less_eq_reverse_def less_reverse_def reverse.expand)

end

text \<open>The entries in an order of their identifiers.\<close>

definition entries_in :: "(bytes \<Rightarrow> nat) \<Rightarrow> mempool \<Rightarrow> mempool_entry list" where
  "entries_in order mp =
     map (\<lambda>t. the (fmlookup (entries mp) t)) (sort_key order (sorted_list_of_fset (fmdom (entries mp))))"

text \<open>The outputs of other transactions of the pool that an entry spends.\<close>

definition pool_inputs :: "mempool \<Rightarrow> mempool_entry \<Rightarrow> tx_input list" where
  "pool_inputs mp e = filter (\<lambda>inp. prev_txid inp |\<in>| fmdom (entries mp)) (inputs (e_tx e))"

text \<open>The number of such inputs of each entry, and the spenders of each entry, once per input.\<close>

definition in_degrees :: "('sig, 'pk, 'x) node_lib_scheme \<Rightarrow> mempool \<Rightarrow> mempool_entry list \<Rightarrow> (bytes, nat) fmap" where
  "in_degrees lib mp es =
     fold (\<lambda>e m. fmupd (txid lib (e_tx e))
       ((case fmlookup m (txid lib (e_tx e)) of None \<Rightarrow> 0 | Some d \<Rightarrow> d) + length (pool_inputs mp e)) m) es fmempty"

definition children_of ::
  "('sig, 'pk, 'x) node_lib_scheme \<Rightarrow> mempool \<Rightarrow> mempool_entry list \<Rightarrow> bytes \<Rightarrow> bytes list" where
  "children_of lib mp es p =
     concat (map (\<lambda>e. map (\<lambda>_. txid lib (e_tx e))
       (filter (\<lambda>inp. prev_txid inp = p) (pool_inputs mp e))) es)"

type_synonym ready_set = "(u64 reverse \<times> bytes) list"

text \<open>A \<open>BTreeSet\<close> is the sorted list of its elements.\<close>

definition make_ready :: "mempool \<Rightarrow> bytes \<Rightarrow> ready_set \<Rightarrow> ready_set" where
  "make_ready mp t ready =
     (case fmlookup (entries mp) t of
        None \<Rightarrow> ready
      | Some e \<Rightarrow> insort_insert (Reverse (fee_rate e), t) ready)"

definition first_ready :: "mempool \<Rightarrow> (bytes, nat) fmap \<Rightarrow> ready_set" where
  "first_ready mp degrees =
     fold (\<lambda>(t, d) ready. if d = 0 then make_ready mp t ready else ready) (sorted_list_of_fmap degrees) []"

definition release_child :: "mempool \<Rightarrow> bytes \<Rightarrow> (bytes, nat) fmap \<times> ready_set \<Rightarrow> (bytes, nat) fmap \<times> ready_set" where
  "release_child mp kid = (\<lambda>(degrees, ready).
     case fmlookup degrees kid of
       None \<Rightarrow> (degrees, ready)
     | Some d \<Rightarrow> (fmupd kid (d - 1) degrees, if d - 1 = 0 then make_ready mp kid ready else ready))"

partial_function (option) emit_ready ::
  "mempool \<Rightarrow> (bytes \<Rightarrow> bytes list) \<Rightarrow> (bytes, nat) fmap \<Rightarrow> ready_set \<Rightarrow> transaction list \<Rightarrow> transaction list option" where
  "emit_ready mp children degrees ready out =
     (case ready of
        [] \<Rightarrow> Some out
      | (_, t) # rest \<Rightarrow>
          (let (degrees', ready') = fold (release_child mp) (children t) (degrees, rest) in
           emit_ready mp children degrees' ready'
             (case fmlookup (entries mp) t of None \<Rightarrow> out | Some e \<Rightarrow> out @ [e_tx e])))"

definition add_leftovers ::
  "('sig, 'pk, 'x) node_lib_scheme \<Rightarrow> mempool \<Rightarrow> mempool_entry list \<Rightarrow> transaction list \<Rightarrow> transaction list" where
  "add_leftovers lib mp es out =
     (if length out < mempool_size mp then
        out @ map e_tx (sort_key (\<lambda>e. Reverse (fee_rate e))
          (filter (\<lambda>e. txid lib (e_tx e) \<notin> txid lib ` set out) es))
      else out)"

definition get_transactions ::
  "('sig, 'pk, 'x) node_lib_scheme \<Rightarrow> (bytes \<Rightarrow> nat) \<Rightarrow> mempool \<Rightarrow> transaction list option" where
  "get_transactions lib order mp =
     (let es = entries_in order mp; degrees = in_degrees lib mp es in
      map_option (add_leftovers lib mp es)
        (emit_ready mp (children_of lib mp es) degrees (first_ready mp degrees) []))"

definition get_entries :: "(bytes \<Rightarrow> nat) \<Rightarrow> mempool \<Rightarrow> mempool_entry list" where
  "get_entries order mp = sort_key (\<lambda>e. Reverse (fee_rate e)) (entries_in order mp)"

section \<open>Fee statistics\<close>

definition sorted_rates :: "mempool \<Rightarrow> u64 list" where
  "sorted_rates mp = sort (map fee_rate (fm_values (entries mp)))"

definition median_fee_rate :: "mempool \<Rightarrow> u64" where
  "median_fee_rate mp =
     (let rates = sorted_rates mp in
      if rates = [] then min_fee_rate mp else rates ! (length rates div 2))"

definition recommended_fee_rate :: "mempool \<Rightarrow> u64" where
  "recommended_fee_rate mp =
     (if mempool_size mp < max_size mp div 2 then min_fee_rate mp
      else let rates = sorted_rates mp in
        (case nth_opt rates (length rates * 3 div 4) of None \<Rightarrow> min_fee_rate mp | Some r \<Rightarrow> r))"

definition rate_at :: "mempool \<Rightarrow> nat \<Rightarrow> u64" where
  "rate_at mp pct =
     (let rates = sorted_rates mp in
      if rates = [] then min_fee_rate mp
      else max (rates ! min (length rates * pct div 100) (length rates - 1)) (min_fee_rate mp))"

fun cap_by_faster :: "(u32 \<times> u64) list \<Rightarrow> (u32 \<times> u64) list" where
  "cap_by_faster ((t, r) # (t', r') # rest) =
     (t, r) # cap_by_faster ((t', if r' > r then r else r') # rest)"
| "cap_by_faster out = out"

definition fee_estimates :: "mempool \<Rightarrow> (u32 \<times> u64) list" where
  "fee_estimates mp = cap_by_faster [(1, rate_at mp 90), (2, rate_at mp 75), (3, rate_at mp 50), (6, rate_at mp 25)]"

end
