(* ===== verification/MempoolProps.thy ===== *)
theory MempoolProps
  imports Mempool LedgerSamples
begin

text \<open>
  What the memory pool promises: its indexes are exact and its limits are kept by every operation,
  every loop ends, nothing panics, an admitted transaction outbids what it displaces, and the order
  for a block puts parents first.
\<close>

section \<open>The invariant\<close>

definition spent_by :: "mempool_entry \<Rightarrow> out_point set" where
  "spent_by e = outpoint ` set (inputs (e_tx e))"

definition keys_ok :: "('sig, 'pk, 'x) node_lib_scheme \<Rightarrow> mempool \<Rightarrow> bool" where
  "keys_ok lib mp \<longleftrightarrow> (\<forall>t e. fmlookup (entries mp) t = Some e \<longrightarrow>
     t = txid lib (e_tx e) \<and> e_size e = serialized_size lib (e_tx e))"

definition index_ok :: "mempool \<Rightarrow> bool" where
  "index_ok mp \<longleftrightarrow> (\<forall>k t. fmlookup (spent_inputs mp) k = Some t \<longleftrightarrow>
     (\<exists>e. fmlookup (entries mp) t = Some e \<and> k \<in> spent_by e))"

definition claims_ok :: "mempool \<Rightarrow> bool" where
  "claims_ok mp \<longleftrightarrow> (\<forall>a t. fmlookup (pending_claims mp) a = Some t \<longleftrightarrow>
     (\<exists>e. fmlookup (entries mp) t = Some e \<and> claimed_by (e_tx e) = Some a))"

definition pool_ok :: "('sig, 'pk, 'x) node_lib_scheme \<Rightarrow> mempool \<Rightarrow> bool" where
  "pool_ok lib mp \<longleftrightarrow> keys_ok lib mp \<and> index_ok mp \<and> claims_ok mp"

lemma index_okD: "index_ok mp \<Longrightarrow>
    fmlookup (spent_inputs mp) k = Some t \<longleftrightarrow> (\<exists>e. fmlookup (entries mp) t = Some e \<and> k \<in> spent_by e)"
  unfolding index_ok_def by blast

lemma claims_okD: "claims_ok mp \<Longrightarrow>
    fmlookup (pending_claims mp) a = Some t \<longleftrightarrow>
    (\<exists>e. fmlookup (entries mp) t = Some e \<and> claimed_by (e_tx e) = Some a)"
  unfolding claims_ok_def by blast

text \<open>An exact index has one owner per output, so no two entries spend the same output.\<close>

lemma index_unique:
  assumes "index_ok mp" "fmlookup (entries mp) t = Some e" "fmlookup (entries mp) t' = Some e'"
    "k \<in> spent_by e" "k \<in> spent_by e'"
  shows "t = t'"
  using assms index_okD [of mp k] by (metis option.inject)

lemma claim_unique:
  assumes "claims_ok mp" "fmlookup (entries mp) t = Some e" "fmlookup (entries mp) t' = Some e'"
    "claimed_by (e_tx e) = Some a" "claimed_by (e_tx e') = Some a"
  shows "t = t'"
  using assms claims_okD [of mp a] by (metis option.inject)

section \<open>Removal\<close>

lemma fmlookup_fold_drop:
  "fmlookup (fold (\<lambda>x. fmdrop (f x)) xs m) k = (if k \<in> f ` set xs then None else fmlookup m k)"
  by (induction xs arbitrary: m) auto

lemma fmlookup_fold_upd:
  "fmlookup (fold (\<lambda>x. fmupd (f x) v) xs m) k = (if k \<in> f ` set xs then Some v else fmlookup m k)"
  by (induction xs arbitrary: m) auto

lemma remove_entries [simp]:
  "fmlookup (entries (remove_entry t mp)) t' = (if t' = t then None else fmlookup (entries mp) t')"
  by (auto simp: remove_entry_def split: option.split)

lemma remove_limits [simp]:
  "max_size (remove_entry t mp) = max_size mp" "max_bytes (remove_entry t mp) = max_bytes mp"
  "min_fee_rate (remove_entry t mp) = min_fee_rate mp"
  by (simp_all add: remove_entry_def split: option.split)

lemma remove_index:
  "fmlookup (spent_inputs (remove_entry t mp)) k =
     (case fmlookup (entries mp) t of
        Some e \<Rightarrow> if k \<in> spent_by e then None else fmlookup (spent_inputs mp) k
      | None \<Rightarrow> fmlookup (spent_inputs mp) k)"
  by (simp add: remove_entry_def spent_by_def fmlookup_fold_drop split: option.split)

lemma remove_claims:
  "fmlookup (pending_claims (remove_entry t mp)) a =
     (case fmlookup (entries mp) t of
        Some e \<Rightarrow> if claimed_by (e_tx e) = Some a \<and> fmlookup (pending_claims mp) a = Some t then None
          else fmlookup (pending_claims mp) a
      | None \<Rightarrow> fmlookup (pending_claims mp) a)"
  by (auto simp: remove_entry_def split: option.split)

lemma remove_index_ok:
  assumes "index_ok mp"
  shows "index_ok (remove_entry t mp)"
  unfolding index_ok_def
proof (intro allI)
  fix k u
  show "fmlookup (spent_inputs (remove_entry t mp)) k = Some u \<longleftrightarrow>
      (\<exists>e. fmlookup (entries (remove_entry t mp)) u = Some e \<and> k \<in> spent_by e)"
  proof (cases "fmlookup (entries mp) t")
    case None
    then have "remove_entry t mp = mp" by (simp add: remove_entry_def)
    then show ?thesis using index_okD [OF assms] by simp
  next
    case (Some e)
    show ?thesis
    proof (cases "k \<in> spent_by e")
      case True
      then have "u = t" if "fmlookup (entries mp) u = Some e'" "k \<in> spent_by e'" for e'
        using index_unique [OF assms that(1) Some that(2)] by simp
      then show ?thesis using Some True by (auto simp: remove_index)
    next
      case False
      then have "fmlookup (spent_inputs (remove_entry t mp)) k = Some u \<longleftrightarrow>
          (\<exists>e. fmlookup (entries mp) u = Some e \<and> k \<in> spent_by e)"
        using Some index_okD [OF assms] by (simp add: remove_index)
      then show ?thesis using Some False by auto
    qed
  qed
qed

lemma remove_claims_ok:
  assumes "claims_ok mp"
  shows "claims_ok (remove_entry t mp)"
  unfolding claims_ok_def
proof (intro allI)
  fix a u
  show "fmlookup (pending_claims (remove_entry t mp)) a = Some u \<longleftrightarrow>
      (\<exists>e. fmlookup (entries (remove_entry t mp)) u = Some e \<and> claimed_by (e_tx e) = Some a)"
  proof (cases "fmlookup (entries mp) t")
    case None
    then have "remove_entry t mp = mp" by (simp add: remove_entry_def)
    then show ?thesis using claims_okD [OF assms] by simp
  next
    case (Some e)
    have here: "fmlookup (pending_claims mp) a = Some t \<longleftrightarrow> claimed_by (e_tx e) = Some a"
      using claims_okD [OF assms, of a t] Some by simp
    show ?thesis
    proof (cases "claimed_by (e_tx e) = Some a")
      case True
      then have "u = t" if "fmlookup (entries mp) u = Some e'" "claimed_by (e_tx e') = Some a" for e'
        using claim_unique [OF assms that(1) Some that(2)] by simp
      then show ?thesis using Some True here by (auto simp: remove_claims)
    next
      case False
      then have "fmlookup (pending_claims (remove_entry t mp)) a = Some u \<longleftrightarrow>
          (\<exists>e. fmlookup (entries mp) u = Some e \<and> claimed_by (e_tx e) = Some a)"
        using Some claims_okD [OF assms] by (simp add: remove_claims)
      then show ?thesis using Some False by auto
    qed
  qed
qed

lemma remove_ok: "pool_ok lib mp \<Longrightarrow> pool_ok lib (remove_entry t mp)"
  by (auto simp: pool_ok_def remove_index_ok remove_claims_ok keys_ok_def)

lemma removes_ok: "pool_ok lib mp \<Longrightarrow> pool_ok lib (fold remove_entry ts mp)"
  by (induction ts arbitrary: mp) (auto simp: remove_ok)

lemma removes_entries [simp]:
  "fmlookup (entries (fold remove_entry ts mp)) t = (if t \<in> set ts then None else fmlookup (entries mp) t)"
  by (induction ts arbitrary: mp) auto

lemma removes_limits [simp]:
  "max_size (fold remove_entry ts mp) = max_size mp" "max_bytes (fold remove_entry ts mp) = max_bytes mp"
  "min_fee_rate (fold remove_entry ts mp) = min_fee_rate mp"
  by (induction ts arbitrary: mp) auto

lemma set_owners: "t \<in> set (owners test mp) \<longleftrightarrow> (\<exists>k. test k \<and> fmlookup (spent_inputs mp) k = Some t)"
proof -
  have "t \<in> set (owners test mp) \<longleftrightarrow> (\<exists>k. test k \<and> (k, t) \<in> set (sorted_list_of_fmap (spent_inputs mp)))"
    unfolding owners_def by (simp add: image_iff split_beta Bex_def) (metis fst_conv snd_conv prod.collapse)
  then show ?thesis by (simp only: set_sorted_list_of_fmap)
qed

section \<open>Descendants\<close>

text \<open>A transaction of the pool spends an output of another.\<close>

definition spends :: "mempool \<Rightarrow> bytes \<Rightarrow> bytes \<Rightarrow> bool" where
  "spends mp t p \<longleftrightarrow> (\<exists>e. fmlookup (entries mp) t = Some e \<and> p \<in> fst ` spent_by e)"

inductive descends :: "mempool \<Rightarrow> bytes set \<Rightarrow> bytes \<Rightarrow> bool" for mp roots where
  child: "p \<in> roots \<Longrightarrow> spends mp t p \<Longrightarrow> descends mp roots t"
| grandchild: "descends mp roots p \<Longrightarrow> spends mp t p \<Longrightarrow> descends mp roots t"

text \<open>The entries of the second pool are among those of the first, and the limits are the same.\<close>

definition within_pool :: "mempool \<Rightarrow> mempool \<Rightarrow> bool" where
  "within_pool mp mp' \<longleftrightarrow> max_size mp' = max_size mp \<and> max_bytes mp' = max_bytes mp \<and>
     (\<forall>t e. fmlookup (entries mp') t = Some e \<longrightarrow> fmlookup (entries mp) t = Some e)"

interpretation shrinking: step_relation within_pool
  by unfold_locales (auto simp: within_pool_def)

lemma within_spends: "within_pool mp mp' \<Longrightarrow> spends mp' t p \<Longrightarrow> spends mp t p"
  by (auto simp: within_pool_def spends_def)

lemma descends_mono:
  assumes "within_pool mp mp'" "descends mp' roots t"
    and roots: "\<And>t. t \<in> roots \<Longrightarrow> t \<in> roots' \<or> descends mp roots' t"
  shows "descends mp roots' t"
  using assms(2)
  by induction (use roots within_spends [OF assms(1)] in \<open>blast intro: descends.intros\<close>)+

lemma removes_within: "within_pool mp (fold remove_entry ts mp)"
  by (auto simp: within_pool_def)

lemma remove_within: "within_pool mp (remove_entry t mp)"
  by (auto simp: within_pool_def)

lemma descends_known: "descends mp roots t \<Longrightarrow> t |\<in>| fmdom (entries mp)"
  by (induction rule: descends.induct) (auto simp: spends_def fmlookup_dom_iff)

lemma children_owners:
  assumes "index_ok mp"
  shows "set (owners (\<lambda>k. fst k \<in> F) mp) = {t. \<exists>p\<in>F. spends mp t p}"
  unfolding set_eq_iff set_owners index_okD [OF assms] spends_def by force

lemma mempool_size_less:
  assumes "within_pool mp mp'" "t |\<in>| fmdom (entries mp)" "t |\<notin>| fmdom (entries mp')"
  shows "mempool_size mp' < mempool_size mp"
proof -
  have "fmdom (entries mp') |\<subseteq>| fmdom (entries mp)"
    using assms(1) by (auto simp: within_pool_def fmlookup_dom_iff)
  with assms(2,3) have "fmdom (entries mp') |\<subset>| fmdom (entries mp)" by blast
  then show ?thesis unfolding mempool_size_def by (rule pfsubset_fcard_mono)
qed

text \<open>
  What the loop does, given the transactions gone so far: it removes descendants of the frontier
  only, and at the end no output of a transaction gone is spent.
\<close>

definition evicted :: "mempool \<Rightarrow> bytes set \<Rightarrow> bytes set \<Rightarrow> mempool \<Rightarrow> bool" where
  "evicted mp roots gone mp' \<longleftrightarrow> within_pool mp mp' \<and> min_fee_rate mp' = min_fee_rate mp \<and>
     (\<forall>t. fmlookup (entries mp') t \<noteq> fmlookup (entries mp) t \<longrightarrow> descends mp roots t) \<and>
     (\<forall>t p. spends mp' t p \<longrightarrow> p \<notin> gone \<and> (p |\<in>| fmdom (entries mp) \<longrightarrow> p |\<in>| fmdom (entries mp')))"

lemma evictedD:
  assumes "evicted mp roots gone mp'"
  shows "within_pool mp mp'" "min_fee_rate mp' = min_fee_rate mp"
    "fmlookup (entries mp') t \<noteq> fmlookup (entries mp) t \<Longrightarrow> descends mp roots t"
    "spends mp' u p \<Longrightarrow> p \<notin> gone"
    "spends mp' u p \<Longrightarrow> p |\<in>| fmdom (entries mp) \<Longrightarrow> p |\<in>| fmdom (entries mp')"
  using assms unfolding evicted_def by blast+

lemma evicted_level:
  assumes doomed: "set ts = {t. \<exists>p\<in>roots. spends mp t p}"
    and rest: "evicted (fold remove_entry ts mp) (set ts) (gone \<union> set ts) mp'"
  shows "evicted mp roots gone mp'"
  unfolding evicted_def
proof (intro conjI allI impI)
  let ?mp1 = "fold remove_entry ts mp"
  note ev = evictedD [OF rest]
  show "within_pool mp mp'" using removes_within ev(1) by (rule shrinking.step_trans)
  show "min_fee_rate mp' = min_fee_rate mp" using ev(2) by simp
  show "p \<notin> gone" if "spends mp' t p" for t p using ev(4) [OF that] by blast
  show "p |\<in>| fmdom (entries mp')" if "spends mp' t p" "p |\<in>| fmdom (entries mp)" for t p
  proof (rule ev(5) [OF that(1)])
    show "p |\<in>| fmdom (entries ?mp1)"
      using ev(4) [OF that(1)] that(2) by (simp add: fmlookup_dom_iff)
  qed
  have child: "descends mp roots t" if "t \<in> set ts" for t
    using that doomed by (auto intro: descends.child)
  show "descends mp roots t" if "fmlookup (entries mp') t \<noteq> fmlookup (entries mp) t" for t
  proof (cases "t \<in> set ts")
    case False
    with that have "descends ?mp1 (set ts) t" by (intro ev(3)) simp
    then show ?thesis by (rule descends_mono [OF removes_within]) (simp add: child)
  qed (rule child)
qed

text \<open>The loop returns when the frontier holds the only transactions gone whose outputs are spent.\<close>

lemma evict_descendants_loop:
  assumes "pool_ok lib mp" "\<And>t p. spends mp t p \<Longrightarrow> p \<in> gone \<Longrightarrow> p \<in> set frontier"
  shows "\<exists>mp'. evict_descendants frontier mp = Some mp' \<and> pool_ok lib mp' \<and>
     evicted mp (set frontier) gone mp'"
  using assms
proof (induction "mempool_size mp" arbitrary: mp frontier gone rule: less_induct)
  case less
  define ts where "ts = owners (\<lambda>k. fst k \<in> set frontier) mp"
  have "index_ok mp" using less.prems(1) by (simp add: pool_ok_def)
  then have doomed: "set ts = {t. \<exists>p\<in>set frontier. spends mp t p}"
    unfolding ts_def by (rule children_owners)
  show ?case
  proof (cases "frontier = [] \<or> ts = []")
    case True
    then have "evict_descendants frontier mp = Some mp"
      by (subst evict_descendants.simps) (auto simp: Let_def ts_def)
    moreover have "p \<notin> gone" if "spends mp t p" for t p
      using that True doomed less.prems(2) [OF that] by auto
    then have "evicted mp (set frontier) gone mp"
      by (simp add: evicted_def shrinking.step_refl)
    ultimately show ?thesis using less.prems(1) by blast
  next
    case False
    define mp1 where "mp1 = fold remove_entry ts mp"
    have step: "evict_descendants frontier mp = evict_descendants ts mp1"
      using False by (subst evict_descendants.simps) (simp add: Let_def mp1_def ts_def)
    have ok1: "pool_ok lib mp1" unfolding mp1_def using less.prems(1) by (rule removes_ok)
    have w1: "within_pool mp mp1" unfolding mp1_def by (rule removes_within)
    obtain d where d: "d \<in> set ts" using False by (cases ts) auto
    have "d |\<in>| fmdom (entries mp)" "d |\<notin>| fmdom (entries mp1)"
      using d doomed by (auto simp: spends_def fmlookup_dom_iff mp1_def)
    then have smaller: "mempool_size mp1 < mempool_size mp" by (rule mempool_size_less [OF w1])
    have left: "p \<in> set ts" if "spends mp1 t p" "p \<in> gone \<union> set ts" for t p
    proof (rule ccontr)
      assume "p \<notin> set ts"
      with that(2) have "p \<in> gone" by simp
      moreover have sp: "spends mp t p" using w1 that(1) by (rule within_spends)
      ultimately have "p \<in> set frontier" by (rule less.prems(2) [rotated])
      with sp have "t \<in> set ts" using doomed by blast
      with that(1) show False by (auto simp: spends_def mp1_def)
    qed
    have "\<exists>mp'. evict_descendants ts mp1 = Some mp' \<and> pool_ok lib mp' \<and>
        evicted mp1 (set ts) (gone \<union> set ts) mp'"
      using smaller ok1 left by (rule less.hyps)
    then obtain mp' where
      mp': "evict_descendants ts mp1 = Some mp'" "pool_ok lib mp'" "evicted mp1 (set ts) (gone \<union> set ts) mp'"
      by blast
    from doomed mp'(3) have "evicted mp (set frontier) gone mp'"
      unfolding mp1_def by (rule evicted_level)
    with mp' step show ?thesis by auto
  qed
qed

section \<open>Displacement\<close>

text \<open>
  The second pool is the first without some entries that satisfy a test and all their descendants:
  every entry that is missing is one of these, and no entry that remains has lost a parent.
\<close>

definition displaces :: "(mempool_entry \<Rightarrow> bool) \<Rightarrow> mempool \<Rightarrow> mempool \<Rightarrow> bool" where
  "displaces P mp mp' \<longleftrightarrow> within_pool mp mp' \<and>
     (\<forall>t. t |\<in>| fmdom (entries mp) \<longrightarrow> t |\<notin>| fmdom (entries mp') \<longrightarrow>
        (\<exists>r e. fmlookup (entries mp) r = Some e \<and> P e \<and> (t = r \<or> descends mp {r} t))) \<and>
     (\<forall>t p. spends mp' t p \<longrightarrow> p |\<in>| fmdom (entries mp) \<longrightarrow> p |\<in>| fmdom (entries mp'))"

lemma displacesD:
  assumes "displaces P mp mp'"
  shows "within_pool mp mp'"
    "t |\<in>| fmdom (entries mp) \<Longrightarrow> t |\<notin>| fmdom (entries mp') \<Longrightarrow>
       \<exists>r e. fmlookup (entries mp) r = Some e \<and> P e \<and> (t = r \<or> descends mp {r} t)"
    "spends mp' u p \<Longrightarrow> p |\<in>| fmdom (entries mp) \<Longrightarrow> p |\<in>| fmdom (entries mp')"
  using assms unfolding displaces_def by blast+

lemma displaces_trans:
  assumes 1: "displaces P mp mp1" and 2: "displaces P mp1 mp2"
  shows "displaces P mp mp2"
  unfolding displaces_def
proof (intro conjI allI impI)
  note w1 = displacesD(1) [OF 1] and w2 = displacesD(1) [OF 2]
  show "within_pool mp mp2" using w1 w2 by (rule shrinking.step_trans)
  show "p |\<in>| fmdom (entries mp2)" if "spends mp2 t p" "p |\<in>| fmdom (entries mp)" for t p
    using displacesD(3) [OF 1 within_spends [OF w2 that(1)] that(2)] by (rule displacesD(3) [OF 2 that(1)])
  fix t
  assume t: "t |\<in>| fmdom (entries mp)" "t |\<notin>| fmdom (entries mp2)"
  show "\<exists>r e. fmlookup (entries mp) r = Some e \<and> P e \<and> (t = r \<or> descends mp {r} t)"
  proof (cases "t |\<in>| fmdom (entries mp1)")
    case True
    from displacesD(2) [OF 2 True t(2)] obtain r e where
      r: "fmlookup (entries mp1) r = Some e" "P e" "t = r \<or> descends mp1 {r} t" by blast
    have "fmlookup (entries mp) r = Some e" using w1 r(1) by (simp add: within_pool_def)
    moreover have "t = r \<or> descends mp {r} t"
      using r(3) descends_mono [OF w1, of "{r}" t "{r}"] by blast
    ultimately show ?thesis using r(2) by blast
  qed (use displacesD(2) [OF 1 t(1)] in blast)
qed

lemma displaces_refl: "displaces P mp mp"
  by (simp add: displaces_def shrinking.step_refl)

interpretation displacing: step_relation "displaces P"
  by unfold_locales (rule displaces_refl, rule displaces_trans)

lemma displaces_mono: "displaces P mp mp' \<Longrightarrow> (\<And>e. P e \<Longrightarrow> Q e) \<Longrightarrow> displaces Q mp mp'"
  unfolding displaces_def by blast

lemma descends_root: "descends mp roots t \<Longrightarrow> \<exists>r\<in>roots. descends mp {r} t"
  by (induction rule: descends.induct) (auto intro: descends.intros)

lemma displace_roots:
  assumes ok: "pool_ok lib mp"
    and roots: "\<And>r. r \<in> set rs \<Longrightarrow> \<exists>e. fmlookup (entries mp) r = Some e \<and> P e"
  shows "\<exists>mp'. evict_descendants rs (fold remove_entry rs mp) = Some mp' \<and> pool_ok lib mp' \<and>
     displaces P mp mp' \<and> fset (fmdom (entries mp')) \<inter> set rs = {}"
proof -
  define mp1 where "mp1 = fold remove_entry rs mp"
  have w1: "within_pool mp mp1" unfolding mp1_def by (rule removes_within)
  have "pool_ok lib mp1" unfolding mp1_def using ok by (rule removes_ok)
  then obtain mp' where mp': "evict_descendants rs mp1 = Some mp'" "pool_ok lib mp'"
      "evicted mp1 (set rs) (set rs) mp'"
    using evict_descendants_loop [of lib mp1 "set rs" rs] by blast
  note ev = evictedD [OF mp'(3)]
  have w: "within_pool mp mp'" using w1 ev(1) by (rule shrinking.step_trans)
  have kept: "t |\<in>| fmdom (entries mp1) \<longleftrightarrow> t |\<in>| fmdom (entries mp) \<and> t \<notin> set rs" for t
    by (simp add: mp1_def fmlookup_dom_iff)
  have "displaces P mp mp'" unfolding displaces_def
  proof (intro conjI allI impI w)
    show "p |\<in>| fmdom (entries mp')" if "spends mp' t p" "p |\<in>| fmdom (entries mp)" for t p
      using ev(4) [OF that(1)] that(2) by (intro ev(5) [OF that(1)]) (simp add: kept)
    fix t
    assume t: "t |\<in>| fmdom (entries mp)" "t |\<notin>| fmdom (entries mp')"
    have "\<exists>r\<in>set rs. t = r \<or> descends mp {r} t"
    proof (cases "t \<in> set rs")
      case False
      with t have "fmlookup (entries mp') t \<noteq> fmlookup (entries mp1) t"
        by (metis fmlookup_dom_iff kept)
      then have "descends mp1 (set rs) t" by (rule ev(3))
      then have "descends mp (set rs) t" by (rule descends_mono [OF w1]) simp
      then show ?thesis by (blast dest: descends_root)
    qed blast
    then show "\<exists>r e. fmlookup (entries mp) r = Some e \<and> P e \<and> (t = r \<or> descends mp {r} t)"
      using roots by blast
  qed
  moreover have "fset (fmdom (entries mp')) \<inter> set rs = {}"
  proof -
    have "t |\<in>| fmdom (entries mp1)" if "t |\<in>| fmdom (entries mp')" for t
      using ev(1) that by (auto simp: within_pool_def fmlookup_dom_iff)
    then show ?thesis using kept by blast
  qed
  ultimately show ?thesis using mp' by (auto simp: mp1_def)
qed

section \<open>Limits\<close>

definition bytes_in :: "mempool \<Rightarrow> nat" where
  "bytes_in mp = fm_sum (\<lambda>e. unat (e_size e)) (entries mp)"

definition limits_ok :: "mempool \<Rightarrow> bool" where
  "limits_ok mp \<longleftrightarrow> mempool_size mp \<le> max 1 (max_size mp) \<and> bytes_in mp \<le> unat (max_bytes mp) \<and>
     max_bytes mp \<noteq> -1"

lemma total_bytes_Ok: "bytes_in mp < 2 ^ 64 \<Longrightarrow> total_bytes mp = Ok (of_nat (bytes_in mp))"
  by (simp add: total_bytes_def checked_sum_def bytes_in_def fm_sum_values o_def Let_def)

lemma within_bytes:
  assumes "within_pool mp mp'"
  shows "bytes_in mp' \<le> bytes_in mp"
proof -
  have sub: "fmlookup (entries mp) t = fmlookup (entries mp') t" if "t \<in> fmdom' (entries mp')" for t
    using assms that by (auto simp: within_pool_def fmlookup_dom'_iff)
  have "bytes_in mp' = (\<Sum>t\<in>fmdom' (entries mp'). unat (e_size (the (fmlookup (entries mp) t))))"
    unfolding bytes_in_def fm_sum_def by (rule sum.cong) (simp_all add: sub)
  also have "\<dots> \<le> bytes_in mp" unfolding bytes_in_def fm_sum_def
    by (rule sum_mono2) (use assms in \<open>auto simp: within_pool_def fmlookup_dom'_iff\<close>)
  finally show ?thesis .
qed

lemma within_size:
  assumes "within_pool mp mp'"
  shows "mempool_size mp' \<le> mempool_size mp"
proof -
  have "fmdom (entries mp') |\<subseteq>| fmdom (entries mp)"
    using assms by (auto simp: within_pool_def fmlookup_dom_iff)
  then show ?thesis unfolding mempool_size_def by (rule fcard_mono)
qed

lemma within_limits: "within_pool mp mp' \<Longrightarrow> limits_ok mp \<Longrightarrow> limits_ok mp'"
  using within_bytes [of mp mp'] within_size [of mp mp'] by (auto simp: limits_ok_def within_pool_def)

lemma lowest_entry:
  assumes "lowest_fee_rate_txid lib mp = Some t"
  shows "\<exists>e. fmlookup (entries mp) t = Some e"
proof -
  let ?key = "\<lambda>(t, e). (fee_rate e, serialized_size lib (e_tx e), t)"
  obtain x xs where es: "sorted_list_of_fmap (entries mp) = x # xs"
      and t: "t = fst (arg_min_list ?key (x # xs))"
    using assms by (auto simp: lowest_fee_rate_txid_def split: list.splits)
  have "arg_min_list ?key (x # xs) \<in> set (x # xs)" by (rule arg_min_list_in) simp
  then have "(t, snd (arg_min_list ?key (x # xs))) \<in> set (sorted_list_of_fmap (entries mp))"
    by (simp add: t es)
  then show ?thesis by (auto simp: set_sorted_list_of_fmap)
qed

lemma lowest_None:
  assumes "lowest_fee_rate_txid lib mp = None"
  shows "entries mp = fmempty"
proof -
  have "sorted_list_of_fmap (entries mp) = []"
    using assms by (auto simp: lowest_fee_rate_txid_def split: list.splits)
  then have "fmlookup (entries mp) t \<noteq> Some e" for t e
    using set_sorted_list_of_fmap [of t e "entries mp"] by simp
  then have "fmlookup (entries mp) t = None" for t by (cases "fmlookup (entries mp) t") auto
  then show ?thesis by (intro fmap_ext) simp
qed

section \<open>Making room\<close>

fun panics :: "'a nresult \<Rightarrow> bool" where
  "panics (Err (Panic m)) = True"
| "panics _ = False"

lemma panics_Err [simp]: "panics (Err x) \<longleftrightarrow> (\<exists>m. x = Panic m)"
  by (cases x) auto

text \<open>The pool has room for a transaction of the size: it fits, or the pool is empty.\<close>

definition has_room :: "u64 \<Rightarrow> mempool \<Rightarrow> bool" where
  "has_room sz mp \<longleftrightarrow> entries mp = fmempty \<or> pool_fits (of_nat (bytes_in mp)) sz mp"

lemma floor_irrelevant [simp]:
  "pool_ok lib (mp\<lparr>min_fee_rate := r\<rparr>) = pool_ok lib mp"
  "bytes_in (mp\<lparr>min_fee_rate := r\<rparr>) = bytes_in mp"
  "mempool_size (mp\<lparr>min_fee_rate := r\<rparr>) = mempool_size mp"
  "within_pool mp0 (mp\<lparr>min_fee_rate := r\<rparr>) = within_pool mp0 mp"
  "spends (mp\<lparr>min_fee_rate := r\<rparr>) t p = spends mp t p"
  by (auto simp: pool_ok_def keys_ok_def index_ok_def claims_ok_def bytes_in_def mempool_size_def
      within_pool_def spends_def)

lemma floor_displaces [simp]: "displaces P mp0 (mp\<lparr>min_fee_rate := r\<rparr>) = displaces P mp0 mp"
  by (simp add: displaces_def)

lemma checked_add_less: "(a :: u64) < b \<Longrightarrow> \<exists>c. checked_add a 1 = Some c"
proof -
  assume "a < b"
  moreover have "unat b < 2 ^ LENGTH(64)" by (rule unsigned_less)
  ultimately show ?thesis by (simp add: checked_add_def word_less_nat_alt)
qed

text \<open>One round of the eviction loop.\<close>

lemma evict_lowest:
  assumes "pool_ok lib mp" "fmlookup (entries mp) t = Some e" "P e"
  shows "\<exists>mp'. evict_descendants [t] (remove_entry t mp) = Some mp' \<and> pool_ok lib mp' \<and>
     displaces P mp mp' \<and> mempool_size mp' < mempool_size mp \<and> bytes_in mp' \<le> bytes_in mp"
proof -
  from assms displace_roots [OF assms(1), of "[t]" P] obtain mp' where
    mp': "evict_descendants [t] (remove_entry t mp) = Some mp'" "pool_ok lib mp'"
      "displaces P mp mp'" "t |\<notin>| fmdom (entries mp')" by auto
  have w: "within_pool mp mp'" using mp'(3) by (rule displacesD)
  have "mempool_size mp' < mempool_size mp"
    using w _ mp'(4) by (rule mempool_size_less) (simp add: assms(2) fmlookup_dom_iff)
  with mp' within_bytes [OF w] show ?thesis by blast
qed

text \<open>The eviction loop returns, and takes away only what the newcomer outbids.\<close>

lemma make_room_returns:
  assumes "pool_ok lib mp" "bytes_in mp < 2 ^ 64"
  shows "\<exists>mp' r. make_room lib sz rate mp = Some (mp', r) \<and> pool_ok lib mp' \<and>
     displaces (\<lambda>e. fee_rate e < rate) mp mp' \<and> \<not> panics r \<and> (r = Ok () \<longrightarrow> has_room sz mp')"
  using assms
proof (induction "mempool_size mp" arbitrary: mp rule: less_induct)
  case less
  note used = total_bytes_Ok [OF less.prems(2)]
  show ?case
  proof (cases "pool_fits (of_nat (bytes_in mp)) sz mp")
    case True
    then have "make_room lib sz rate mp = Some (mp, Ok ())"
      by (subst make_room.simps) (simp add: used)
    then show ?thesis using True less.prems(1) by (auto simp: has_room_def displaces_refl)
  next
    case full: False
    show ?thesis
    proof (cases "lowest_fee_rate_txid lib mp")
      case None
      then have "make_room lib sz rate mp = Some (mp, Ok ())"
        by (subst make_room.simps) (simp add: used)
      then show ?thesis using lowest_None [OF None] less.prems(1) by (auto simp: has_room_def displaces_refl)
    next
      case (Some t)
      then obtain e where e: "fmlookup (entries mp) t = Some e" using lowest_entry by blast
      show ?thesis
      proof (cases "rate \<le> fee_rate e")
        case True
        then have "make_room lib sz rate mp = Some (mp, Err (ChainError ''Mempool full''))"
          using full Some e by (subst make_room.simps) (simp add: used)
        then show ?thesis using less.prems(1) by (auto simp: displaces_refl)
      next
        case False
        then have low: "fee_rate e < rate" by simp
        then obtain c where c: "checked_add (fee_rate e) 1 = Some c" using checked_add_less by blast
        from evict_lowest [where P = "\<lambda>e. fee_rate e < rate", OF less.prems(1) e low] obtain mp1 where
          mp1: "evict_descendants [t] (remove_entry t mp) = Some mp1" "pool_ok lib mp1"
            "displaces (\<lambda>e. fee_rate e < rate) mp mp1" "mempool_size mp1 < mempool_size mp"
            "bytes_in mp1 \<le> bytes_in mp" by blast
        let ?mp2 = "mp1\<lparr>min_fee_rate := c\<rparr>"
        have step: "make_room lib sz rate mp = make_room lib sz rate ?mp2"
          using full Some e False c mp1(1) by (subst make_room.simps) (simp add: used)
        have "mempool_size ?mp2 < mempool_size mp" "pool_ok lib ?mp2" "bytes_in ?mp2 < 2 ^ 64"
          using mp1 less.prems(2) by simp_all
        then obtain mp' r where mp': "make_room lib sz rate ?mp2 = Some (mp', r)" "pool_ok lib mp'"
            "displaces (\<lambda>e. fee_rate e < rate) ?mp2 mp'" "\<not> panics r" "r = Ok () \<longrightarrow> has_room sz mp'"
          using less.hyps [of ?mp2] by blast
        have "displaces (\<lambda>e. fee_rate e < rate) mp ?mp2" using mp1(3) by simp
        then have "displaces (\<lambda>e. fee_rate e < rate) mp mp'" using mp'(3) by (rule displaces_trans)
        then show ?thesis using step mp' by auto
      qed
    qed
  qed
qed

section \<open>Replacement\<close>

lemma set_collect_conflicts:
  "set (collect_conflicts index acc inps) =
     set acc \<union> {t. \<exists>inp\<in>set inps. fmlookup index (outpoint inp) = Some t}"
  by (induction inps arbitrary: acc) (auto split: option.split)

lemma set_find_conflicts:
  "set (find_conflicts tx mp) = {t. \<exists>inp\<in>set (inputs tx). fmlookup (spent_inputs mp) (outpoint inp) = Some t}"
  by (simp add: find_conflicts_def set_collect_conflicts)

lemma checks_all_Ok: "check_each f xs = Ok () \<longleftrightarrow> (\<forall>x\<in>set xs. f x = Ok ())"
  by (induction xs) (auto simp: res_bind_eq_Ok)

text \<open>The rate a newcomer needs over an entry to take its place.\<close>

definition outbid :: "u64 \<Rightarrow> mempool_entry \<Rightarrow> bool" where
  "outbid rate e \<longleftrightarrow> sat_add (fee_rate e) 1 \<le> rate"

lemma less_outbid: "fee_rate e < rate \<Longrightarrow> outbid rate e"
proof -
  assume "fee_rate e < rate"
  moreover have "unat rate < 2 ^ LENGTH(64)" by (rule unsigned_less)
  ultimately show ?thesis
    by (simp add: outbid_def sat_add_def word_less_nat_alt word_le_nat_alt unat_plus_if')
qed

lemma check_outbids_Ok:
  "check_outbids rate fee mp t = Ok () \<Longrightarrow> \<exists>e. fmlookup (entries mp) t = Some e \<and> outbid rate e \<and> e_fee e \<le> fee"
  by (auto simp: check_outbids_def outbid_def MIN_RBF_FEE_BUMP_def not_less split: option.splits if_splits)

text \<open>No entry spends an output that the transaction spends.\<close>

definition conflict_free :: "transaction \<Rightarrow> mempool \<Rightarrow> bool" where
  "conflict_free tx mp \<longleftrightarrow> (\<forall>inp\<in>set (inputs tx). fmlookup (spent_inputs mp) (outpoint inp) = None)"

lemma check_outbids_no_panic: "\<not> panics (check_each (check_outbids rate fee mp) ts)"
  by (induction ts) (auto simp: res_bind_eq_Err check_outbids_def split: option.splits if_splits)

lemma replaced_conflict_free:
  assumes "index_ok mp" "index_ok mp'" "within_pool mp mp'"
    "fset (fmdom (entries mp')) \<inter> set (find_conflicts tx mp) = {}"
  shows "conflict_free tx mp'"
  unfolding conflict_free_def
proof (intro ballI, rule ccontr)
  fix inp
  assume inp: "inp \<in> set (inputs tx)" and "fmlookup (spent_inputs mp') (outpoint inp) \<noteq> None"
  then obtain t where "fmlookup (spent_inputs mp') (outpoint inp) = Some t" by blast
  then obtain e where e: "fmlookup (entries mp') t = Some e" "outpoint inp \<in> spent_by e"
    using index_okD [OF assms(2)] by blast
  then have "fmlookup (spent_inputs mp) (outpoint inp) = Some t"
    using index_okD [OF assms(1)] assms(3) by (auto simp: within_pool_def)
  with inp have "t \<in> set (find_conflicts tx mp)" by (auto simp: set_find_conflicts)
  with e(1) assms(4) show False by (auto simp: fmdom_notI disjoint_iff fmlookup_dom_iff)
qed

lemma replace_conflicts_returns:
  assumes ok: "pool_ok lib mp"
  shows "\<exists>mp' r. replace_conflicts tx rate fee mp = Some (mp', r) \<and> pool_ok lib mp' \<and>
     displaces (outbid rate) mp mp' \<and> \<not> panics r \<and> (r = Ok () \<longrightarrow> conflict_free tx mp')"
proof -
  let ?cs = "find_conflicts tx mp"
  have idx: "index_ok mp" using ok by (simp add: pool_ok_def)
  consider (none) "?cs = []" | (rbf) "?cs \<noteq> []" "\<not> signals_rbf tx"
    | (low) x where "?cs \<noteq> []" "signals_rbf tx" "check_each (check_outbids rate fee mp) ?cs = Err x"
    | (replace) "?cs \<noteq> []" "signals_rbf tx" "check_each (check_outbids rate fee mp) ?cs = Ok ()"
    by (cases "check_each (check_outbids rate fee mp) ?cs") auto
  then show ?thesis
  proof cases
    case none
    then have "conflict_free tx mp"
      by (intro replaced_conflict_free [OF idx idx shrinking.step_refl]) simp
    then show ?thesis using none ok by (simp add: replace_conflicts_def displaces_refl)
  next
    case rbf
    then show ?thesis using ok by (simp add: replace_conflicts_def displaces_refl)
  next
    case low
    then show ?thesis using ok check_outbids_no_panic [of rate fee mp ?cs]
      by (auto simp: replace_conflicts_def displaces_refl)
  next
    case replace
    then have "\<exists>e. fmlookup (entries mp) c = Some e \<and> outbid rate e" if "c \<in> set ?cs" for c
      using that check_outbids_Ok unfolding checks_all_Ok by blast
    from displace_roots [OF ok this] obtain mp' where mp':
      "evict_descendants ?cs (fold remove_entry ?cs mp) = Some mp'" "pool_ok lib mp'"
      "displaces (outbid rate) mp mp'" "fset (fmdom (entries mp')) \<inter> set ?cs = {}" by blast
    have "conflict_free tx mp'"
      using mp'(2,4) by (intro replaced_conflict_free [OF idx _ displacesD(1) [OF mp'(3)]]) (simp_all add: pool_ok_def)
    then show ?thesis using mp' replace by (simp add: replace_conflicts_def)
  qed
qed

section \<open>Admission\<close>

lemma insert_simps [simp]:
  "entries (insert_entry t e mp) = fmupd t e (entries mp)"
  "max_size (insert_entry t e mp) = max_size mp" "max_bytes (insert_entry t e mp) = max_bytes mp"
  by (simp_all add: insert_entry_def)

lemma insert_index:
  "fmlookup (spent_inputs (insert_entry t e mp)) k =
     (if k \<in> spent_by e then Some t else fmlookup (spent_inputs mp) k)"
  by (simp add: insert_entry_def spent_by_def fmlookup_fold_upd)

lemma insert_claims:
  "fmlookup (pending_claims (insert_entry t e mp)) a =
     (if claimed_by (e_tx e) = Some a then Some t else fmlookup (pending_claims mp) a)"
  by (auto simp: insert_entry_def split: option.split)

lemma insert_index_ok:
  assumes idx: "index_ok mp" and new: "t |\<notin>| fmdom (entries mp)" and free: "conflict_free (e_tx e) mp"
  shows "index_ok (insert_entry t e mp)"
  unfolding index_ok_def
proof (intro allI)
  fix k u
  have unspent: "fmlookup (spent_inputs mp) k = None" if "k \<in> spent_by e"
    using that free by (auto simp: conflict_free_def spent_by_def)
  have "fmlookup (entries mp) t = None" using new by (simp add: fmdom_notD)
  then have other: "fmlookup (spent_inputs mp) k \<noteq> Some t" using index_okD [OF idx] by simp
  show "fmlookup (spent_inputs (insert_entry t e mp)) k = Some u \<longleftrightarrow>
      (\<exists>e'. fmlookup (entries (insert_entry t e mp)) u = Some e' \<and> k \<in> spent_by e')"
    using unspent other index_okD [OF idx, of k u]
    by (cases "u = t"; cases "k \<in> spent_by e") (simp_all add: insert_index)
qed

lemma insert_claims_ok:
  assumes cl: "claims_ok mp" and new: "t |\<notin>| fmdom (entries mp)"
    and free: "\<And>a. claimed_by (e_tx e) = Some a \<Longrightarrow> fmlookup (pending_claims mp) a = None"
  shows "claims_ok (insert_entry t e mp)"
  unfolding claims_ok_def
proof (intro allI)
  fix a u
  have "fmlookup (entries mp) t = None" using new by (simp add: fmdom_notD)
  then have other: "fmlookup (pending_claims mp) a \<noteq> Some t" using claims_okD [OF cl] by simp
  show "fmlookup (pending_claims (insert_entry t e mp)) a = Some u \<longleftrightarrow>
      (\<exists>e'. fmlookup (entries (insert_entry t e mp)) u = Some e' \<and> claimed_by (e_tx e') = Some a)"
    using free [of a] other claims_okD [OF cl, of a u]
    by (cases "u = t"; cases "claimed_by (e_tx e) = Some a") (simp_all add: insert_claims)
qed

lemma insert_limits:
  assumes "has_room (e_size e) mp" "e_size e \<le> max_bytes mp" "max_bytes mp \<noteq> -1"
    "bytes_in mp < 2 ^ 64" "t |\<notin>| fmdom (entries mp)"
  shows "limits_ok (insert_entry t e mp)"
proof -
  have new: "fmlookup (entries mp) t = None" using assms(5) by (simp add: fmdom_notD)
  have sz: "mempool_size (insert_entry t e mp) = Suc (mempool_size mp)"
    using assms(5) by (simp add: mempool_size_def fcard_finsert_disjoint)
  have bt: "bytes_in (insert_entry t e mp) = unat (e_size e) + bytes_in mp"
    using new by (simp add: bytes_in_def fm_sum_upd_new)
  show ?thesis
  proof (cases "entries mp = fmempty")
    case True
    then have "mempool_size mp = 0" "bytes_in mp = 0" by (simp_all add: mempool_size_def bytes_in_def)
    then show ?thesis using assms(2,3) by (simp add: limits_ok_def sz bt word_le_nat_alt)
  next
    case False
    with assms(1) have fits: "mempool_size mp < max_size mp"
        "sat_add (of_nat (bytes_in mp)) (e_size e) \<le> max_bytes mp"
      by (simp_all add: has_room_def pool_fits_def)
    have u: "unat (of_nat (bytes_in mp) :: u64) = bytes_in mp"
      using assms(4) by (simp add: unsigned_of_nat take_bit_nat_eq_self)
    have "max_bytes mp < -1" using assms(3) by (simp add: less_le)
    then have "unat (max_bytes mp) < unat (-1 :: u64)" by (simp only: word_less_nat_alt)
    with fits(2) have "unat (of_nat (bytes_in mp) :: u64) + unat (e_size e) \<le> unat (max_bytes mp)"
      by (auto simp: sat_add_def word_le_nat_alt unat_word_ariths split: if_splits)
    then show ?thesis using fits(1) assms(3) by (simp add: limits_ok_def sz bt u)
  qed
qed

lemma decay_simps [simp]:
  "entries (decay_fee_rate mp) = entries mp" "spent_inputs (decay_fee_rate mp) = spent_inputs mp"
  "pending_claims (decay_fee_rate mp) = pending_claims mp"
  "max_size (decay_fee_rate mp) = max_size mp" "max_bytes (decay_fee_rate mp) = max_bytes mp"
  "pool_ok lib (decay_fee_rate mp) = pool_ok lib mp" "bytes_in (decay_fee_rate mp) = bytes_in mp"
  "has_room sz (decay_fee_rate mp) = has_room sz mp"
  by (simp_all add: decay_fee_rate_def has_room_def pool_fits_def)

text \<open>A claim that passed the checks is the only one of its address.\<close>

lemma relay_checks_claim:
  assumes "relay_checks lib tx fee mp = Ok ()" "claims_ok mp" "txid lib tx |\<notin>| fmdom (entries mp)"
    "within_pool mp mp'" "claims_ok mp'" "claimed_by tx = Some a"
  shows "fmlookup (pending_claims mp') a = None"
proof (rule ccontr)
  assume "fmlookup (pending_claims mp') a \<noteq> None"
  then obtain t e where e: "fmlookup (entries mp') t = Some e" "claimed_by (e_tx e) = Some a"
    using claims_okD [OF assms(5)] by blast
  then have old: "fmlookup (entries mp) t = Some e" using assms(4) by (simp add: within_pool_def)
  with e(2) have "fmlookup (pending_claims mp) a = Some t" using claims_okD [OF assms(2)] by blast
  moreover have "t \<noteq> txid lib tx" using old assms(3) by (auto simp: fmdom_notI fmlookup_dom_iff)
  ultimately show False
    using assms(1,6) by (auto simp: relay_checks_def res_bind_eq_Ok check_pending_claim_def)
qed

lemma validate_transaction_no_panic: "\<not> panics (validate_transaction tx)"
proof -
  have outs: "\<not> panics (check_outputs cs i os)" for cs i os
    by (induction cs i os rule: check_outputs.induct) (auto split: if_splits)
  have dups: "\<not> panics (check_duplicates seen inps)" for seen inps
    by (induction seen inps rule: check_duplicates.induct) (auto split: if_splits)
  show ?thesis
  proof (cases "check_outputs (is_coinstake tx) 0 (outputs tx)")
    case (Ok u)
    then show ?thesis using dups [of "{}" "inputs tx"] by (auto simp: validate_transaction_def split: if_splits)
  next
    case (Err x)
    then show ?thesis using outs [of "is_coinstake tx" 0 "outputs tx"] by (auto simp: validate_transaction_def)
  qed
qed

lemma res_bind_no_panic:
  "\<not> panics r \<Longrightarrow> (\<And>x. \<not> panics (f x)) \<Longrightarrow> \<not> panics (res_bind r f)"
  by (cases r) auto

lemma check_each_no_panic: "(\<And>x. \<not> panics (f x)) \<Longrightarrow> \<not> panics (check_each f xs)"
  by (induction xs) (simp, simp add: res_bind_no_panic)

lemma relay_checks_no_panic: "\<not> panics (relay_checks lib tx fee mp)"
proof -
  have "\<not> panics (check_each check_dust os)" for os
    by (rule check_each_no_panic) (simp add: check_dust_def)
  then have dust: "\<not> panics (if is_legacy_claim tx then Ok () else check_each check_dust (outputs tx))" by simp
  have claim: "\<not> panics (check_pending_claim (txid lib tx) tx mp)"
    by (simp add: check_pending_claim_def split: option.split)
  have "\<not> panics (check_fee (is_legacy_claim tx) fee (rate_of fee (serialized_size lib tx)) mp)"
    by (simp add: check_fee_def)
  then show ?thesis unfolding relay_checks_def
    by (intro res_bind_no_panic validate_transaction_no_panic dust claim)
qed

lemma conflict_free_within:
  assumes "index_ok mp" "index_ok mp'" "within_pool mp mp'" "conflict_free tx mp"
  shows "conflict_free tx mp'"
proof (rule replaced_conflict_free [OF assms(1-3)])
  have "set (find_conflicts tx mp) = {}"
    using assms(4) by (auto simp: set_find_conflicts conflict_free_def)
  then show "fset (fmdom (entries mp')) \<inter> set (find_conflicts tx mp) = {}" by simp
qed

lemma new_entry_simps [simp]:
  "e_tx (new_entry lib now tx fee) = tx" "e_fee (new_entry lib now tx fee) = fee"
  "e_size (new_entry lib now tx fee) = serialized_size lib tx"
  by (simp_all add: new_entry_def)

text \<open>The last step: the transaction enters a pool that has room for it and no conflict.\<close>

lemma enter_ok:
  assumes ok: "pool_ok lib mp" "pool_ok lib mp'" and w: "within_pool mp mp'" and lim: "limits_ok mp'"
    and chk: "relay_checks lib tx fee mp = Ok ()" and new: "txid lib tx |\<notin>| fmdom (entries mp)"
    and free: "conflict_free tx mp'" and room: "has_room (serialized_size lib tx) mp'"
    and sz: "serialized_size lib tx \<le> max_bytes mp'"
  shows "pool_ok lib (insert_entry (txid lib tx) (new_entry lib now tx fee) (decay_fee_rate mp'))"
    and "limits_ok (insert_entry (txid lib tx) (new_entry lib now tx fee) (decay_fee_rate mp'))"
proof -
  let ?e = "new_entry lib now tx fee" and ?mp = "decay_fee_rate mp'"
  have new': "txid lib tx |\<notin>| fmdom (entries ?mp)"
    using new w by (cases "fmlookup (entries mp') (txid lib tx)") (auto simp: within_pool_def fmlookup_dom_iff)
  have ok': "keys_ok lib ?mp" "index_ok ?mp" "claims_ok ?mp"
    using ok(2) decay_simps(6) [of lib mp'] unfolding pool_ok_def by blast+
  have "conflict_free (e_tx ?e) ?mp" using free by (simp add: conflict_free_def)
  then have "index_ok (insert_entry (txid lib tx) ?e ?mp)" by (rule insert_index_ok [OF ok'(2) new'])
  moreover have "fmlookup (pending_claims ?mp) a = None" if "claimed_by (e_tx ?e) = Some a" for a
    using that ok relay_checks_claim [OF chk _ new w] by (simp add: pool_ok_def)
  then have "claims_ok (insert_entry (txid lib tx) ?e ?mp)" by (rule insert_claims_ok [OF ok'(3) new'])
  moreover have "keys_ok lib (insert_entry (txid lib tx) ?e ?mp)"
    using ok'(1) by (simp add: keys_ok_def)
  ultimately show "pool_ok lib (insert_entry (txid lib tx) ?e ?mp)" by (simp add: pool_ok_def)
  have "unat (max_bytes mp') < 2 ^ LENGTH(64)" by (rule unsigned_less)
  then show "limits_ok (insert_entry (txid lib tx) ?e ?mp)"
    using lim room sz new' by (intro insert_limits) (simp_all add: limits_ok_def)
qed

text \<open>
  The result of an admission: the invariant and the limits hold, and the pool is the former one
  without what the newcomer outbids, with the newcomer when it is admitted.
\<close>

definition admission ::
  "('sig, 'pk, 'x) node_lib_scheme \<Rightarrow> u64 \<Rightarrow> transaction \<Rightarrow> u64 \<Rightarrow> mempool \<Rightarrow> mempool \<Rightarrow> 'a nresult \<Rightarrow> bool" where
  "admission lib now tx fee mp mp' r \<longleftrightarrow> pool_ok lib mp' \<and> limits_ok mp' \<and> \<not> panics r \<and>
     (\<exists>mp1. displaces (outbid (rate_of fee (serialized_size lib tx))) mp mp1 \<and>
        (entries mp' = entries mp1 \<and> (is_ok r \<longrightarrow> txid lib tx |\<in>| fmdom (entries mp)) \<or>
         is_ok r \<and> entries mp' = fmupd (txid lib tx) (new_entry lib now tx fee) (entries mp1)))"

lemma admissionI:
  assumes "pool_ok lib mp'" "limits_ok mp'" "\<not> panics (Err x :: 'a nresult)"
    "displaces (outbid (rate_of fee (serialized_size lib tx))) mp mp'"
  shows "admission lib now tx fee mp mp' (Err x :: 'a nresult)"
  using assms unfolding admission_def by auto

lemma enter_returns:
  assumes ok: "pool_ok lib mp" "pool_ok lib mp1" and lim: "limits_ok mp1"
    and d: "displaces (outbid (rate_of fee (serialized_size lib tx))) mp mp1"
    and chk: "relay_checks lib tx fee mp = Ok ()" and new: "txid lib tx |\<notin>| fmdom (entries mp)"
    and free: "conflict_free tx mp1" and sz: "serialized_size lib tx \<le> max_bytes mp1"
  shows "\<exists>mp' r. then_run (make_room lib (serialized_size lib tx) (rate_of fee (serialized_size lib tx)) mp1)
      (\<lambda>mp2. Some (insert_entry (txid lib tx) (new_entry lib now tx fee) (decay_fee_rate mp2), Ok ())) =
      Some (mp', r) \<and> admission lib now tx fee mp mp' r"
proof -
  let ?sz = "serialized_size lib tx" and ?rate = "rate_of fee (serialized_size lib tx)"
  have "unat (max_bytes mp1) < 2 ^ LENGTH(64)" by (rule unsigned_less)
  then have "bytes_in mp1 < 2 ^ 64" using lim by (simp add: limits_ok_def)
  from make_room_returns [OF ok(2) this, of ?sz ?rate] obtain mp2 r2 where
    2: "make_room lib ?sz ?rate mp1 = Some (mp2, r2)" "pool_ok lib mp2"
      "displaces (\<lambda>e. fee_rate e < ?rate) mp1 mp2" "\<not> panics r2" "r2 = Ok () \<longrightarrow> has_room ?sz mp2" by blast
  have w2: "within_pool mp1 mp2" using 2(3) by (rule displacesD)
  have "displaces (outbid ?rate) mp1 mp2" using 2(3) less_outbid by (rule displaces_mono)
  with d have d2: "displaces (outbid ?rate) mp mp2" by (rule displaces_trans)
  have lim2: "limits_ok mp2" using w2 lim by (rule within_limits)
  show ?thesis
  proof (cases r2)
    case (Err x)
    with 2(4) have "\<not> panics (Err x :: unit nresult)" by simp
    from admissionI [OF 2(2) lim2 this d2] have "admission lib now tx fee mp mp2 (Err x :: unit nresult)" .
    then show ?thesis using 2(1) Err by (simp add: then_run_def)
  next
    case (Ok u)
    let ?mp3 = "insert_entry (txid lib tx) (new_entry lib now tx fee) (decay_fee_rate mp2)"
    have free2: "conflict_free tx mp2"
      using ok(2) 2(2) conflict_free_within [OF _ _ w2 free] unfolding pool_ok_def by blast
    have room: "has_room ?sz mp2" "?sz \<le> max_bytes mp2"
      using 2(5) Ok sz w2 unfolding within_pool_def by simp_all
    note entered = enter_ok [OF ok(1) 2(2) displacesD(1) [OF d2] lim2 chk new free2 room]
    have "admission lib now tx fee mp ?mp3 (Ok () :: unit nresult)"
      unfolding admission_def by (intro conjI exI [of _ mp2] d2 entered disjI2) simp_all
    moreover have "then_run (make_room lib ?sz ?rate mp1)
        (\<lambda>mp2. Some (insert_entry (txid lib tx) (new_entry lib now tx fee) (decay_fee_rate mp2), Ok ())) =
        Some (?mp3, Ok ())" using 2(1) Ok by (simp add: then_run_def)
    ultimately show ?thesis by blast
  qed
qed

lemma add_transaction_returns:
  assumes ok: "pool_ok lib mp" and lim: "limits_ok mp"
  shows "\<exists>mp' r. add_transaction_with_fee lib now tx fee mp = Some (mp', r) \<and> admission lib now tx fee mp mp' r"
proof (cases "relay_checks lib tx fee mp")
  case (Err x)
  then have "admission lib now tx fee mp mp (Err x :: unit nresult)"
    using relay_checks_no_panic [of lib tx fee mp] by (intro admissionI ok lim displaces_refl) simp
  then show ?thesis using Err by (simp add: add_transaction_with_fee_def)
next
  case (Ok u)
  let ?sz = "serialized_size lib tx" and ?rate = "rate_of fee (serialized_size lib tx)"
  have chk: "relay_checks lib tx fee mp = Ok ()" using Ok by simp
  show ?thesis
  proof (cases "txid lib tx |\<in>| fmdom (entries mp)")
    case True
    then have "admission lib now tx fee mp mp (Ok () :: unit nresult)"
      using ok lim displaces_refl unfolding admission_def by auto
    then show ?thesis using chk True by (simp add: add_transaction_with_fee_def Let_def)
  next
    case new: False
    obtain mp1 r1 where 1: "replace_conflicts tx ?rate fee mp = Some (mp1, r1)" "pool_ok lib mp1"
        "displaces (outbid ?rate) mp mp1" "\<not> panics r1" "r1 = Ok () \<longrightarrow> conflict_free tx mp1"
      using replace_conflicts_returns [OF ok, of tx ?rate fee] by blast
    have lim1: "limits_ok mp1" using displacesD(1) [OF 1(3)] lim by (rule within_limits)
    note run = add_transaction_with_fee_def Let_def chk new 1(1)
    consider (fail) x where "r1 = Err x" | (large) "r1 = Ok ()" "?sz > max_bytes mp1"
      | (go) "r1 = Ok ()" "?sz \<le> max_bytes mp1" by (cases r1) force+
    then show ?thesis
    proof cases
      case fail
      then have "admission lib now tx fee mp mp1 (Err x :: unit nresult)"
        using 1(4) by (intro admissionI 1(2,3) lim1) simp
      then show ?thesis using fail by (simp add: run then_run_def)
    next
      case large
      have "admission lib now tx fee mp mp1
          (Err (PolicyRejected ''Transaction size exceeds the mempool byte budget'') :: unit nresult)"
        by (intro admissionI 1(2,3) lim1) simp
      then show ?thesis using large by (simp add: run then_run_def)
    next
      case go
      then have "conflict_free tx mp1" using 1(5) by simp
      from enter_returns [OF ok 1(2) lim1 1(3) chk new this go(2)] show ?thesis
        using go by (simp add: run then_run_def [of "Some _"] leD [OF go(2)])
    qed
  qed
qed

section \<open>Admission against the chain\<close>

lemma admissionD:
  assumes "admission lib now tx fee mp mp' r"
  shows "pool_ok lib mp'" "limits_ok mp'" "\<not> panics r"
    "fmlookup (entries mp') t = Some e \<Longrightarrow> fmlookup (entries mp) t = Some e \<or> e = new_entry lib now tx fee"
proof -
  show "pool_ok lib mp'" "limits_ok mp'" "\<not> panics r" using assms by (simp_all add: admission_def)
  assume e: "fmlookup (entries mp') t = Some e"
  from assms obtain mp1 where mp1: "within_pool mp mp1"
      "entries mp' = entries mp1 \<or> entries mp' = fmupd (txid lib tx) (new_entry lib now tx fee) (entries mp1)"
    unfolding admission_def by (blast dest: displacesD(1))
  have "fmlookup (entries mp1) t = Some e \<or> e = new_entry lib now tx fee"
    using mp1(2) e by (auto split: if_splits)
  then show "fmlookup (entries mp) t = Some e \<or> e = new_entry lib now tx fee"
    using mp1(1) by (auto simp: within_pool_def)
qed

lemma verify_tx_scripts_no_panic: "\<not> panics (verify_tx_scripts lib bal c tx ht ts)"
proof -
  have "\<not> panics (verify_tx_input lib c tx ht ts x)" for x
    by (simp add: verify_tx_input_def verify_script_def split: prod.split option.split result.split)
  then have "\<not> panics (check_each (verify_tx_input lib c tx ht ts) xs)" for xs by (rule check_each_no_panic)
  moreover have "\<not> panics (validate_legacy_claim lib tx b)" for b
    by (simp add: validate_legacy_claim_def split: option.split result.split)
  ultimately show ?thesis by (simp add: verify_tx_scripts_def split: option.split)
qed

lemma cold_spend_no_panic: "\<not> panics (check_each (check_cold_spend lib c tx) xs)"
  by (rule check_each_no_panic) (simp add: check_cold_spend_def split: prod.split option.split)

text \<open>The entries of the pool are valid against the chain, at the fee they are recorded with.\<close>

definition valid_pool ::
  "('sig, 'pk, 'x) node_lib_scheme \<Rightarrow> (bytes \<Rightarrow> u64) \<Rightarrow> chain \<Rightarrow> mempool \<Rightarrow> bool" where
  "valid_pool lib bal c mp \<longleftrightarrow>
     (\<forall>t e. fmlookup (entries mp) t = Some e \<longrightarrow> \<not> invalid_after_reorg lib bal c e)"

definition safe_pool :: "('sig, 'pk, 'x) node_lib_scheme \<Rightarrow> mempool \<Rightarrow> bool" where
  "safe_pool lib mp \<longleftrightarrow> pool_ok lib mp \<and> limits_ok mp"

lemma admit_returns:
  assumes safe: "safe_pool lib mp"
  shows "\<exists>mp' r. admit_with_chain_fee lib bal now c tx mp = Some (mp', r) \<and> safe_pool lib mp' \<and>
     \<not> panics r \<and> (valid_pool lib bal c mp \<longrightarrow> valid_pool lib bal c mp')"
proof (cases "compute_tx_fee c tx")
  case None
  then show ?thesis using safe by (simp add: admit_with_chain_fee_def)
next
  case (Some fee)
  let ?scripts = "verify_tx_scripts lib bal c tx (best_height c) (tip_time c)"
  let ?checks = "res_bind ?scripts (\<lambda>_. if is_coinstake tx then Ok ()
    else check_each (check_cold_spend lib c tx) (List.enumerate 0 (inputs tx)))"
  have np: "\<not> panics ?checks"
    by (intro res_bind_no_panic verify_tx_scripts_no_panic) (simp add: cold_spend_no_panic)
  show ?thesis
  proof (cases ?checks)
    case (Err x)
    with np have "\<not> panics (Err x :: u64 nresult)" by simp
    then show ?thesis using Some Err safe by (simp add: admit_with_chain_fee_def)
  next
    case (Ok u)
    then have "?scripts = Ok ()" by (auto simp: res_bind_eq_Ok)
    then have new: "\<not> invalid_after_reorg lib bal c (new_entry lib now tx fee)"
      using Some by (simp add: invalid_after_reorg_def)
    have "pool_ok lib mp" "limits_ok mp" using safe by (simp_all add: safe_pool_def)
    from add_transaction_returns [OF this, of now tx fee] obtain mp' r where
      add: "add_transaction_with_fee lib now tx fee mp = Some (mp', r)" and
      adm: "admission lib now tx fee mp mp' r" by blast
    have run: "admit_with_chain_fee lib bal now c tx mp =
        Some (mp', case r of Ok _ \<Rightarrow> Ok fee | Err x \<Rightarrow> Err x)"
      using Some Ok add by (simp add: admit_with_chain_fee_def then_run_def split: result.split)
    have "valid_pool lib bal c mp'" if "valid_pool lib bal c mp"
      using that new admissionD(4) [OF adm] unfolding valid_pool_def by blast
    moreover have "safe_pool lib mp'" using admissionD(1,2) [OF adm] by (simp add: safe_pool_def)
    moreover have "\<not> panics (case r of Ok _ \<Rightarrow> Ok fee | Err x \<Rightarrow> Err x)"
      using admissionD(3) [OF adm] by (cases r) simp_all
    ultimately show ?thesis using run by blast
  qed
qed

lemma readmit_returns:
  assumes "safe_pool lib mp" "valid_pool lib bal c mp"
  shows "\<exists>mp'. readmit lib bal now c txs mp = Some (mp', Ok ()) \<and> safe_pool lib mp' \<and> valid_pool lib bal c mp'"
  using assms
proof (induction txs arbitrary: mp)
  case (Cons tx txs)
  from admit_returns [OF Cons.prems(1), of bal now c tx] Cons.prems(2) obtain mp1 r where
    1: "admit_with_chain_fee lib bal now c tx mp = Some (mp1, r)" "safe_pool lib mp1"
      "\<not> panics r" "valid_pool lib bal c mp1" by blast
  have "readmit lib bal now c (tx # txs) mp = readmit lib bal now c txs mp1"
    using 1(1,3) by (auto split: result.split node_error.split)
  then show ?case using Cons.IH [OF 1(2,4)] by simp
qed simp

lemma removes_safe: "safe_pool lib mp \<Longrightarrow> safe_pool lib (fold remove_entry ts mp)"
  using removes_ok within_limits [OF removes_within] by (auto simp: safe_pool_def)

lemma handle_reorg_returns:
  assumes "safe_pool lib mp"
  shows "\<exists>mp'. handle_reorg lib bal now c txs mp = Some (mp', Ok ()) \<and> safe_pool lib mp' \<and> valid_pool lib bal c mp'"
proof -
  define ts where "ts = map fst (filter (\<lambda>(_, e). invalid_after_reorg lib bal c e) (sorted_list_of_fmap (entries mp)))"
  have "t \<in> set ts" if "fmlookup (entries mp) t = Some e" "invalid_after_reorg lib bal c e" for t e
  proof -
    have "(t, e) \<in> set (sorted_list_of_fmap (entries mp))" using that(1) by (simp add: set_sorted_list_of_fmap)
    then show ?thesis using that(2) unfolding ts_def by force
  qed
  then have "valid_pool lib bal c (fold remove_entry ts mp)" unfolding valid_pool_def by auto
  from readmit_returns [OF removes_safe [OF assms] this] show ?thesis
    by (simp add: handle_reorg_def ts_def [symmetric])
qed

section \<open>Reachable pools\<close>

inductive pool_reach :: "('sig, 'pk, 'x) node_lib_scheme \<Rightarrow> mempool \<Rightarrow> bool" for lib where
  start: "limit \<noteq> -1 \<Longrightarrow> pool_reach lib (with_byte_limit n limit)"
| add: "pool_reach lib mp \<Longrightarrow> add_transaction_with_fee lib now tx fee mp = Some (mp', r) \<Longrightarrow> pool_reach lib mp'"
| admit: "pool_reach lib mp \<Longrightarrow> admit_with_chain_fee lib bal now c tx mp = Some (mp', q) \<Longrightarrow> pool_reach lib mp'"
| remove: "pool_reach lib mp \<Longrightarrow> pool_reach lib (remove_transaction t mp)"
| confirm: "pool_reach lib mp \<Longrightarrow> pool_reach lib (handle_confirmed_block txids spent mp)"
| reorg: "pool_reach lib mp \<Longrightarrow> handle_reorg lib bal now c txs mp = Some (mp', r) \<Longrightarrow> pool_reach lib mp'"
| stale: "pool_reach lib mp \<Longrightarrow> evict_stale now mp = (mp', n) \<Longrightarrow> pool_reach lib mp'"

lemma empty_safe: "limit \<noteq> -1 \<Longrightarrow> safe_pool lib (with_byte_limit n limit)"
  by (simp add: safe_pool_def pool_ok_def keys_ok_def index_ok_def claims_ok_def limits_ok_def
      with_byte_limit_def mempool_size_def bytes_in_def fcard_fempty)

lemma reach_safe: "pool_reach lib mp \<Longrightarrow> safe_pool lib mp"
proof (induction rule: pool_reach.induct)
  case (start limit n)
  then show ?case by (rule empty_safe)
next
  case (add mp now tx fee mp' r)
  then have "pool_ok lib mp" "limits_ok mp" by (simp_all add: safe_pool_def)
  from add_transaction_returns [OF this, of now tx fee] add.hyps(2) show ?case
    by (auto simp: safe_pool_def dest: admissionD)
next
  case (admit mp bal now c tx mp' q)
  from admit_returns [OF admit.IH, of bal now c tx] admit.hyps(2) show ?case by auto
next
  case (remove mp t)
  then show ?case using removes_safe [of lib mp "[t]"] by (simp add: remove_transaction_def)
next
  case (confirm mp txids spent)
  then show ?case by (simp add: handle_confirmed_block_def Let_def removes_safe)
next
  case (reorg mp bal now c txs mp' r)
  from handle_reorg_returns [OF reorg.IH, of bal now c txs] reorg.hyps(2) show ?case by auto
next
  case (stale mp now mp' n)
  then show ?case by (auto simp: evict_stale_def Let_def removes_safe)
qed

section \<open>A sample pool\<close>

text \<open>A pool of ten places takes a transaction, which another one with ten times the fee replaces.\<close>

definition bump_tx :: transaction where
  "bump_tx = sample_tx\<lparr>tx_version := 2\<rparr>"

definition first_pool :: mempool where
  "first_pool = insert_entry (txid sample_lib sample_tx) (new_entry sample_lib 7 sample_tx 5000) (new_mempool 10)"

lemma sample_relay:
  "relay_checks sample_lib sample_tx 5000 (new_mempool 10) = Ok ()"
  "relay_checks sample_lib bump_tx 50000 first_pool = Ok ()"
  by (simp_all add: relay_checks_def validate_transaction_def check_pending_claim_def claimed_by_def
      check_fee_def check_dust_def is_legacy_claim_def is_coinstake_def is_coinbase_def
      new_mempool_def with_byte_limit_def bump_tx_def sample_tx_def DUST_SATOSHIS_def MIN_RELAY_FEE_def MAX_MONEY_def MAX_SUPPLY_def COIN_def
      first_pool_def insert_entry_def
      rate_of_def serialized_size_def sample_lib_def tx_enc_def vec_enc_def input_enc_def output_enc_def bytes_enc_def outpoint_def)

lemma pool_tx_sizes: "serialized_size sample_lib sample_tx = 96" "serialized_size sample_lib bump_tx = 96"
  by (simp_all add: serialized_size_def sample_lib_def tx_enc_def vec_enc_def input_enc_def output_enc_def
      bytes_enc_def bump_tx_def sample_tx_def)

lemma room_in_new: "make_room lib 96 rate (new_mempool 10) = Some (new_mempool 10, Ok ())"
proof -
  have "total_bytes (new_mempool 10) = Ok 0" "pool_fits 0 96 (new_mempool 10)"
    by (simp_all add: total_bytes_def checked_sum_def pool_fits_def new_mempool_def with_byte_limit_def
        mempool_size_def fcard_fempty DEFAULT_MAX_MEMPOOL_BYTES_def sat_add_def)
  then show ?thesis by (subst make_room.simps) simp
qed

lemma no_decay_in_new: "decay_fee_rate (new_mempool 10) = new_mempool 10"
  by (simp add: decay_fee_rate_def new_mempool_def with_byte_limit_def)

lemma new_fields: "entries (new_mempool n) = fmempty" "spent_inputs (new_mempool n) = fmempty"
    "pending_claims (new_mempool n) = fmempty" "max_bytes (new_mempool n) = DEFAULT_MAX_MEMPOOL_BYTES"
  by (simp_all add: new_mempool_def with_byte_limit_def)

lemma first_add: "add_transaction_with_fee sample_lib 7 sample_tx 5000 (new_mempool 10) = Some (first_pool, Ok ())"
proof -
  have "replace_conflicts sample_tx rate fee (new_mempool 10) = Some (new_mempool 10, Ok ())" for rate fee
    by (simp add: replace_conflicts_def find_conflicts_def sample_tx_def new_fields)
  then show ?thesis
    by (simp add: add_transaction_with_fee_def sample_relay Let_def new_fields pool_tx_sizes then_run_def room_in_new
        no_decay_in_new first_pool_def DEFAULT_MAX_MEMPOOL_BYTES_def)
qed

lemma sample_ids_differ: "txid sample_lib bump_tx \<noteq> txid sample_lib sample_tx"
proof
  assume "txid sample_lib bump_tx = txid sample_lib sample_tx"
  then have "take 4 (pad_to 32 (tx_enc bump_tx)) = take 4 (pad_to 32 (tx_enc sample_tx))" by (simp add: sample_txid)
  then have "u32_le 2 = u32_le 1" by (simp add: pad_to_def tx_enc_def bump_tx_def sample_tx_def)
  then show False by (simp add: u32c.enc_inject)
qed

lemma first_removed: "remove_entry (txid sample_lib sample_tx) first_pool = new_mempool 10"
  by (simp add: remove_entry_def first_pool_def insert_entry_def new_mempool_def with_byte_limit_def
      sample_tx_def claimed_by_def is_legacy_claim_def new_entry_def fmdrop_fmupd_same)

lemma first_replaced:
  "replace_conflicts bump_tx (rate_of 50000 96) 50000 first_pool = Some (new_mempool 10, Ok ())"
proof -
  have cs: "find_conflicts bump_tx first_pool = [txid sample_lib sample_tx]"
    by (simp add: find_conflicts_def first_pool_def insert_entry_def bump_tx_def sample_tx_def new_entry_def)
  have bid: "check_outbids (rate_of 50000 96) 50000 first_pool (txid sample_lib sample_tx) = Ok ()"
    by (simp add: check_outbids_def first_pool_def fee_rate_def pool_tx_sizes rate_of_def
        MIN_RBF_FEE_BUMP_def sat_add_def)
  have "evict_descendants [txid sample_lib sample_tx] (new_mempool 10) = Some (new_mempool 10)"
    by (subst evict_descendants.simps)
      (simp add: owners_def new_fields sorted_list_of_fmap_def sorted_list_of_fset.rep_eq)
  moreover have "signals_rbf bump_tx" by (simp add: signals_rbf_def bump_tx_def sample_tx_def)
  ultimately show ?thesis by (simp add: replace_conflicts_def cs bid first_removed)
qed

lemma second_add: "add_transaction_with_fee sample_lib 9 bump_tx 50000 first_pool =
    Some (insert_entry (txid sample_lib bump_tx) (new_entry sample_lib 9 bump_tx 50000) (new_mempool 10), Ok ())"
proof -
  have "txid sample_lib bump_tx |\<notin>| fmdom (entries first_pool)"
    using sample_ids_differ by (simp add: first_pool_def new_fields)
  then show ?thesis
    by (simp add: add_transaction_with_fee_def sample_relay Let_def pool_tx_sizes then_run_def first_replaced
        new_fields room_in_new no_decay_in_new DEFAULT_MAX_MEMPOOL_BYTES_def)
qed

lemma new_reach: "pool_reach lib (new_mempool 10)"
  unfolding new_mempool_def by (rule pool_reach.start) (simp add: DEFAULT_MAX_MEMPOOL_BYTES_def)

lemma first_reach: "pool_reach sample_lib first_pool"
  by (rule pool_reach.add [OF new_reach first_add])

section \<open>What a reachable pool promises\<close>

text \<open>
  C8: in every pool a node can reach, by admitting, removing and confirming transactions, by
  reorganisations and by eviction, no two transactions spend the same output or claim the same
  address, every transaction is stored under its identifier, the number of transactions is at most
  the limit (one, when the limit is zero), and their total size is computed without overflow and is
  at most the byte budget.
\<close>

theorem reachable_pool:
  assumes "pool_reach lib mp"
  shows "(\<forall>t t' e e'. fmlookup (entries mp) t = Some e \<and> fmlookup (entries mp) t' = Some e' \<and> t \<noteq> t' \<longrightarrow>
      outpoint ` set (inputs (e_tx e)) \<inter> outpoint ` set (inputs (e_tx e')) = {} \<and>
      (claimed_by (e_tx e) = None \<or> claimed_by (e_tx e) \<noteq> claimed_by (e_tx e'))) \<and>
    (\<forall>t e. fmlookup (entries mp) t = Some e \<longrightarrow> t = txid lib (e_tx e)) \<and>
    mempool_size mp \<le> max 1 (max_size mp) \<and> (\<exists>n \<le> max_bytes mp. total_bytes mp = Ok n)"
proof (intro conjI)
  have ok: "keys_ok lib mp" "index_ok mp" "claims_ok mp" and lim: "limits_ok mp"
    using reach_safe [OF assms] by (simp_all add: safe_pool_def pool_ok_def)
  show "\<forall>t t' e e'. fmlookup (entries mp) t = Some e \<and> fmlookup (entries mp) t' = Some e' \<and> t \<noteq> t' \<longrightarrow>
      outpoint ` set (inputs (e_tx e)) \<inter> outpoint ` set (inputs (e_tx e')) = {} \<and>
      (claimed_by (e_tx e) = None \<or> claimed_by (e_tx e) \<noteq> claimed_by (e_tx e'))"
  proof (intro allI impI, elim conjE)
    fix t t' e e'
    assume e: "fmlookup (entries mp) t = Some e" "fmlookup (entries mp) t' = Some e'" "t \<noteq> t'"
    have "spent_by e \<inter> spent_by e' = {}" using index_unique [OF ok(2) e(1,2)] e(3) by blast
    moreover have "claimed_by (e_tx e) = None \<or> claimed_by (e_tx e) \<noteq> claimed_by (e_tx e')"
      using claim_unique [OF ok(3) e(1,2)] e(3) by (cases "claimed_by (e_tx e)") auto
    ultimately show "outpoint ` set (inputs (e_tx e)) \<inter> outpoint ` set (inputs (e_tx e')) = {} \<and>
        (claimed_by (e_tx e) = None \<or> claimed_by (e_tx e) \<noteq> claimed_by (e_tx e'))"
      by (simp add: spent_by_def)
  qed
  show "\<forall>t e. fmlookup (entries mp) t = Some e \<longrightarrow> t = txid lib (e_tx e)" using ok(1) by (simp add: keys_ok_def)
  show "mempool_size mp \<le> max 1 (max_size mp)" using lim by (simp add: limits_ok_def)
  have "unat (max_bytes mp) < 2 ^ LENGTH(64)" by (rule unsigned_less)
  then have "bytes_in mp < 2 ^ 64" "bytes_in mp \<le> unat (max_bytes mp)" using lim by (simp_all add: limits_ok_def)
  then have "total_bytes mp = Ok (of_nat (bytes_in mp))" "(of_nat (bytes_in mp) :: u64) \<le> max_bytes mp"
    by (simp_all add: total_bytes_Ok word_le_nat_alt unsigned_of_nat take_bit_nat_eq_self)
  then show "\<exists>n \<le> max_bytes mp. total_bytes mp = Ok n" by blast
qed

theorem reachable_pool_witness:
  "mempool_size first_pool = 1 \<and> mempool_size first_pool \<le> max 1 (max_size first_pool) \<and>
     (\<exists>n \<le> max_bytes first_pool. total_bytes first_pool = Ok n)"
  using reachable_pool [OF first_reach]
  by (simp add: first_pool_def new_fields mempool_size_def fcard_finsert_disjoint fcard_fempty)

text \<open>
  C10: admitting a transaction to a reachable pool always returns, without a panic. The pool loses
  only transactions that the newcomer outbids, by a rate at least one higher (or the highest there
  is), and the descendants of such transactions; no transaction that stays has lost a parent. An
  accepted newcomer is in the pool, with its fee, size and time of arrival; a rejected one is not
  added.
\<close>

theorem admission_outbids:
  assumes "pool_reach lib mp"
  shows "\<exists>mp' r mp1. add_transaction_with_fee lib now tx fee mp = Some (mp', r) \<and> \<not> panics r \<and>
     displaces (outbid (rate_of fee (serialized_size lib tx))) mp mp1 \<and>
     entries mp' = (if r = Ok () \<and> txid lib tx |\<notin>| fmdom (entries mp)
       then fmupd (txid lib tx) (new_entry lib now tx fee) (entries mp1) else entries mp1)"
proof -
  have "pool_ok lib mp" "limits_ok mp" using reach_safe [OF assms] by (simp_all add: safe_pool_def)
  from add_transaction_returns [OF this, of now tx fee] obtain mp' r where
    add: "add_transaction_with_fee lib now tx fee mp = Some (mp', r)" and
    adm: "admission lib now tx fee mp mp' r" by blast
  show ?thesis
  proof (cases "r = Ok () \<and> txid lib tx |\<in>| fmdom (entries mp)")
    case True
    then have "entries mp' = entries mp"
      using add by (auto simp: add_transaction_with_fee_def Let_def split: result.splits)
    then show ?thesis using add True displaces_refl by fastforce
  next
    case False
    have "\<not> panics r" using adm by (rule admissionD)
    moreover obtain mp1 where "displaces (outbid (rate_of fee (serialized_size lib tx))) mp mp1"
        "entries mp' = (if r = Ok () \<and> txid lib tx |\<notin>| fmdom (entries mp)
          then fmupd (txid lib tx) (new_entry lib now tx fee) (entries mp1) else entries mp1)"
      using adm False unfolding admission_def by (cases r) auto
    ultimately show ?thesis using add by blast
  qed
qed

text \<open>The second transaction displaces the first, whose output it spends.\<close>

theorem admission_outbids_witness:
  "\<exists>mp' mp1. add_transaction_with_fee sample_lib 9 bump_tx 50000 first_pool = Some (mp', Ok ()) \<and>
     displaces (outbid (rate_of 50000 96)) first_pool mp1 \<and>
     entries mp' = fmupd (txid sample_lib bump_tx) (new_entry sample_lib 9 bump_tx 50000) (entries mp1)"
proof -
  have "txid sample_lib bump_tx |\<notin>| fmdom (entries first_pool)"
    using sample_ids_differ by (simp add: first_pool_def new_fields)
  then show ?thesis
    using admission_outbids [OF first_reach, of 9 bump_tx 50000] second_add by (auto simp: pool_tx_sizes)
qed

text \<open>
  C11: after a reorganisation the pool is brought in line with the new chain: the operation returns
  without a panic, whatever transactions it is given back, and every transaction left in the pool
  passes the script checks at the new tip and is recorded with the fee the new chain gives it.
\<close>

theorem reorg_valid:
  assumes "pool_reach lib mp"
  shows "\<exists>mp'. handle_reorg lib bal now c txs mp = Some (mp', Ok ()) \<and>
     (\<forall>t e. fmlookup (entries mp') t = Some e \<longrightarrow> compute_tx_fee c (e_tx e) = Some (e_fee e) \<and>
        verify_tx_scripts lib bal c (e_tx e) (best_height c) (tip_time c) = Ok ())"
proof -
  from handle_reorg_returns [OF reach_safe [OF assms], of bal now c txs] obtain mp' where
    mp': "handle_reorg lib bal now c txs mp = Some (mp', Ok ())" "valid_pool lib bal c mp'" by blast
  have "compute_tx_fee c (e_tx e) = Some (e_fee e) \<and>
      verify_tx_scripts lib bal c (e_tx e) (best_height c) (tip_time c) = Ok ()"
    if "fmlookup (entries mp') t = Some e" for t e
  proof -
    have "\<not> invalid_after_reorg lib bal c e" using mp'(2) that unfolding valid_pool_def by blast
    then show ?thesis
      by (cases "verify_tx_scripts lib bal c (e_tx e) (best_height c) (tip_time c)")
        (simp_all add: invalid_after_reorg_def)
  qed
  then show ?thesis using mp'(1) by blast
qed

theorem reorg_valid_witness:
  "\<exists>mp'. handle_reorg sample_lib (\<lambda>_. 0) 9 small_chain [spend_tx [1]] first_pool = Some (mp', Ok ()) \<and>
     (\<forall>t e. fmlookup (entries mp') t = Some e \<longrightarrow> compute_tx_fee small_chain (e_tx e) = Some (e_fee e))"
  using reorg_valid [OF first_reach, of "\<lambda>_. 0" 9 small_chain "[spend_tx [1]]"] by blast

end
