(* ===== verification/MempoolOrder.thy ===== *)
theory MempoolOrder
  imports MempoolProps "HOL-Library.Multiset"
begin

text \<open>
  The order in which \<open>get_transactions\<close> of \<open>vtorrent-node/src/mempool.rs\<close> hands the pool to a
  staker: every transaction once, parents before children, and at each place the highest fee rate
  among the transactions whose parents are placed.
\<close>

section \<open>Specification\<close>

abbreviation known :: "mempool \<Rightarrow> bytes set" where
  "known mp \<equiv> fset (fmdom (entries mp))"

definition entry_of :: "mempool \<Rightarrow> bytes \<Rightarrow> mempool_entry" where
  "entry_of mp t = the (fmlookup (entries mp) t)"

text \<open>The inputs of an entry that spend outputs of entries not yet placed.\<close>

definition waiting :: "mempool \<Rightarrow> bytes list \<Rightarrow> bytes \<Rightarrow> nat" where
  "waiting mp os t = length (filter (\<lambda>inp. prev_txid inp \<notin> set os) (pool_inputs mp (entry_of mp t)))"

definition parents_first :: "mempool \<Rightarrow> bytes list \<Rightarrow> bool" where
  "parents_first mp os \<longleftrightarrow> (\<forall>xs t ys. os = xs @ t # ys \<longrightarrow> waiting mp xs t = 0)"

definition greedy :: "mempool \<Rightarrow> bytes list \<Rightarrow> bool" where
  "greedy mp os \<longleftrightarrow> (\<forall>xs t ys u. os = xs @ t # ys \<longrightarrow> u \<in> known mp - set xs \<longrightarrow> waiting mp xs u = 0 \<longrightarrow>
     fee_rate (entry_of mp u) \<le> fee_rate (entry_of mp t))"

lemma known_lookup: "t \<in> known mp \<Longrightarrow> fmlookup (entries mp) t = Some (entry_of mp t)"
  by (auto simp: entry_of_def fmlookup_dom_iff)

lemma waiting_append:
  "waiting mp (os @ [t]) u =
     waiting mp os u - (if t \<in> set os then 0 else length (filter (\<lambda>inp. prev_txid inp = t) (pool_inputs mp (entry_of mp u))))"
proof -
  have "length (filter (\<lambda>inp. prev_txid inp \<notin> set os) is) =
      length (filter (\<lambda>inp. prev_txid inp \<notin> set (os @ [t])) is) +
      (if t \<in> set os then 0 else length (filter (\<lambda>inp. prev_txid inp = t) is))" for "is" :: "tx_input list"
    by (induction "is") auto
  then show ?thesis by (simp add: waiting_def)
qed

lemma snoc_split: "os @ [x] = xs @ t # ys \<longleftrightarrow> (\<exists>zs. os = xs @ t # zs \<and> ys = zs @ [x]) \<or> os = xs \<and> x = t \<and> ys = []"
  by (cases ys rule: rev_cases) auto

lemma parents_first_snoc: "parents_first mp os \<Longrightarrow> waiting mp os t = 0 \<Longrightarrow> parents_first mp (os @ [t])"
  unfolding parents_first_def snoc_split by auto

lemma greedy_snoc:
  assumes "greedy mp os"
    and "\<And>u. u \<in> known mp - set os \<Longrightarrow> waiting mp os u = 0 \<Longrightarrow> fee_rate (entry_of mp u) \<le> fee_rate (entry_of mp t)"
  shows "greedy mp (os @ [t])"
  using assms unfolding greedy_def snoc_split by blast

lemma waiting_mono: "set os \<subseteq> set os' \<Longrightarrow> waiting mp os' t \<le> waiting mp os t"
proof -
  assume sub: "set os \<subseteq> set os'"
  have "length (filter (\<lambda>inp. prev_txid inp \<notin> set os') is) \<le> length (filter (\<lambda>inp. prev_txid inp \<notin> set os) is)"
    for "is" :: "tx_input list" using sub by (induction "is") auto
  then show ?thesis by (simp add: waiting_def)
qed

section \<open>The ready set\<close>

definition tag :: "mempool \<Rightarrow> bytes \<Rightarrow> u64 reverse \<times> bytes" where
  "tag mp t = (Reverse (fee_rate (entry_of mp t)), t)"

lemma make_ready_known: "t \<in> known mp \<Longrightarrow> make_ready mp t ready = insort_insert (tag mp t) ready"
  by (simp add: make_ready_def tag_def known_lookup)

text \<open>The ready set is the sorted list of the tags of a set of entries.\<close>

definition ready_is :: "mempool \<Rightarrow> bytes set \<Rightarrow> ready_set \<Rightarrow> bool" where
  "ready_is mp S ready \<longleftrightarrow> set ready = tag mp ` S \<and> sorted ready \<and> distinct ready"

lemma tag_inj: "tag mp t = tag mp u \<longleftrightarrow> t = u"
  by (auto simp: tag_def)

lemma ready_insert:
  "ready_is mp S ready \<Longrightarrow> t \<in> known mp \<Longrightarrow> ready_is mp (insert t S) (make_ready mp t ready)"
  by (simp add: ready_is_def make_ready_known set_insort_insert sorted_insort_insert distinct_insort_insert)

lemma ready_pop:
  assumes "ready_is mp S ((k, t) # rest)"
  shows "t \<in> S" "ready_is mp (S - {t}) rest"
    "\<And>u. u \<in> S \<Longrightarrow> fee_rate (entry_of mp u) \<le> fee_rate (entry_of mp t)"
proof -
  have s: "insert (k, t) (set rest) = tag mp ` S" "(k, t) \<notin> set rest" "sorted rest" "distinct rest"
      "\<forall>x\<in>set rest. (k, t) \<le> x"
    using assms by (auto simp: ready_is_def)
  have "(k, t) \<in> tag mp ` S" using s(1) by blast
  then have t: "t \<in> S" "(k, t) = tag mp t" by (auto simp: tag_def)
  then show "t \<in> S" by simp
  have "set rest = tag mp ` S - {tag mp t}" using s(1,2) t(2) by auto
  also have "\<dots> = tag mp ` (S - {t})" by (auto simp: tag_inj)
  finally show "ready_is mp (S - {t}) rest" using s(3,4) by (simp add: ready_is_def)
  fix u
  assume "u \<in> S"
  then have "tag mp t \<le> tag mp u" using s(1,5) t(2) by (metis image_eqI insert_iff order_refl)
  then show "fee_rate (entry_of mp u) \<le> fee_rate (entry_of mp t)"
    by (auto simp: tag_def less_eq_prod_def less_eq_reverse_def less_reverse_def)
qed

text \<open>Releasing children: the degrees go down by the occurrences, and those that reach zero are ready.\<close>

lemma release_children:
  assumes "\<And>u. u \<in> set ks \<Longrightarrow> u \<in> known mp \<and> (\<exists>d. fmlookup degrees u = Some d \<and> count_list ks u \<le> d)"
    and "ready_is mp S ready"
  shows "\<exists>degrees' ready'. fold (release_child mp) ks (degrees, ready) = (degrees', ready') \<and>
     (\<forall>u. fmlookup degrees' u = map_option (\<lambda>d. d - count_list ks u) (fmlookup degrees u)) \<and>
     ready_is mp (S \<union> {u \<in> set ks. fmlookup degrees u = Some (count_list ks u)}) ready'"
  using assms
proof (induction ks arbitrary: degrees ready S)
  case Nil
  then show ?case by (simp add: option.map_ident)
next
  case (Cons k ks)
  from Cons.prems(1) [of k] obtain d where d: "k \<in> known mp" "fmlookup degrees k = Some d" "Suc (count_list ks k) \<le> d"
    by auto
  define D where "D = fmupd k (d - 1) degrees"
  define Q where "Q = (if d - 1 = 0 then make_ready mp k ready else ready)"
  define T where "T = (if d - 1 = 0 then insert k S else S)"
  have step: "fold (release_child mp) (k # ks) (degrees, ready) = fold (release_child mp) ks (D, Q)"
    using d(2) by (simp add: release_child_def D_def Q_def)
  have Q: "ready_is mp T Q" using ready_insert [OF Cons.prems(2) d(1)] Cons.prems(2) by (simp add: T_def Q_def)
  have "u \<in> known mp \<and> (\<exists>d. fmlookup D u = Some d \<and> count_list ks u \<le> d)" if "u \<in> set ks" for u
    using Cons.prems(1) [of u] that d by (auto simp: D_def split: if_splits)
  from Cons.IH [OF this Q] obtain D' Q' where 1: "fold (release_child mp) ks (D, Q) = (D', Q')"
      "\<forall>u. fmlookup D' u = map_option (\<lambda>d. d - count_list ks u) (fmlookup D u)"
      "ready_is mp (T \<union> {u \<in> set ks. fmlookup D u = Some (count_list ks u)}) Q'" by blast
  have "T \<union> {u \<in> set ks. fmlookup D u = Some (count_list ks u)} =
      S \<union> {u \<in> set (k # ks). fmlookup degrees u = Some (count_list (k # ks) u)}"
  proof -
    have "d - 1 = 0 \<or> k \<in> set ks \<and> d - 1 = count_list ks k \<longleftrightarrow> d = Suc (count_list ks k)"
      using d(3) count_list_0_iff [of ks k] by auto
    then show ?thesis using d(2) by (auto simp: T_def D_def split: if_splits)
  qed
  moreover have "fmlookup D' u = map_option (\<lambda>d. d - count_list (k # ks) u) (fmlookup degrees u)" for u
    using 1(2) d(2) by (cases "k = u") (auto simp: D_def)
  ultimately show ?case using 1 step by auto
qed

section \<open>The graph\<close>

definition ids_in :: "(bytes \<Rightarrow> nat) \<Rightarrow> mempool \<Rightarrow> bytes list" where
  "ids_in order mp = sort_key order (sorted_list_of_fset (fmdom (entries mp)))"

lemma ids_in: "set (ids_in order mp) = known mp" "distinct (ids_in order mp)"
  by (simp_all add: ids_in_def sorted_list_of_fset.rep_eq)

lemma entries_in_ids: "entries_in order mp = map (entry_of mp) (ids_in order mp)"
  by (simp add: entries_in_def ids_in_def entry_of_def)

lemma entry_txid: "keys_ok lib mp \<Longrightarrow> t \<in> known mp \<Longrightarrow> txid lib (e_tx (entry_of mp t)) = t"
  using known_lookup [of t mp] by (simp add: keys_ok_def)

lemma degrees_fold:
  assumes "distinct ts"
  shows "fmlookup (fold (\<lambda>t m. fmupd t ((case fmlookup m t of None \<Rightarrow> 0 | Some d \<Rightarrow> d) + w t) m) ts m) u =
     (if u \<in> set ts then Some ((case fmlookup m u of None \<Rightarrow> 0 | Some d \<Rightarrow> d) + w u) else fmlookup m u)"
  using assms by (induction ts arbitrary: m) auto

lemma in_degrees_lookup:
  assumes "keys_ok lib mp"
  shows "fmlookup (in_degrees lib mp (entries_in order mp)) t = (if t \<in> known mp then Some (waiting mp [] t) else None)"
proof -
  let ?w = "\<lambda>t. length (pool_inputs mp (entry_of mp t))"
  have "in_degrees lib mp (entries_in order mp) =
      fold (\<lambda>t m. fmupd t ((case fmlookup m t of None \<Rightarrow> 0 | Some d \<Rightarrow> d) + ?w t) m) (ids_in order mp) fmempty"
    unfolding in_degrees_def entries_in_ids fold_map comp_def
    by (rule fold_cong) (simp_all add: ids_in entry_txid [OF assms])
  then show ?thesis by (simp add: degrees_fold ids_in waiting_def)
qed

lemma count_list_concat: "count_list (concat xss) x = sum_list (map (\<lambda>xs. count_list xs x) xss)"
  by (induction xss) (simp_all add: count_list_append)

lemma sum_list_single: "distinct xs \<Longrightarrow> sum_list (map (\<lambda>y. if y = x then f y else (0 :: nat)) xs) = (if x \<in> set xs then f x else 0)"
  by (induction xs) auto

lemma count_children:
  assumes "keys_ok lib mp"
  shows "count_list (children_of lib mp (entries_in order mp) p) u =
     (if u \<in> known mp then length (filter (\<lambda>inp. prev_txid inp = p) (pool_inputs mp (entry_of mp u))) else 0)"
proof -
  let ?n = "\<lambda>t. length (filter (\<lambda>inp. prev_txid inp = p) (pool_inputs mp (entry_of mp t)))"
  have "count_list (map (\<lambda>_. y) zs) u = (if y = u then length zs else 0)" for y and zs :: "tx_input list"
    by (induction zs) auto
  then have "count_list (children_of lib mp (entries_in order mp) p) u =
      sum_list (map (\<lambda>t. if txid lib (e_tx (entry_of mp t)) = u then ?n t else 0) (ids_in order mp))"
    by (simp add: children_of_def entries_in_ids count_list_concat o_def)
  also have "\<dots> = sum_list (map (\<lambda>t. if t = u then ?n t else 0) (ids_in order mp))"
    by (rule arg_cong [of _ _ sum_list], rule map_cong) (simp_all add: ids_in entry_txid [OF assms])
  also have "\<dots> = (if u \<in> known mp then ?n u else 0)"
    using sum_list_single [OF ids_in(2), of u ?n order mp] by (simp add: ids_in)
  finally show ?thesis .
qed

lemma ready_fold:
  assumes "ready_is mp S ready" "\<And>t d. (t, d) \<in> set xs \<Longrightarrow> t \<in> known mp"
  shows "ready_is mp (S \<union> {t. (t, 0) \<in> set xs})
     (fold (\<lambda>(t, d) ready. if d = 0 then make_ready mp t ready else ready) xs ready)"
  using assms
proof (induction xs arbitrary: S ready)
  case (Cons x xs)
  let ?f = "\<lambda>(t, d) ready. if d = 0 then make_ready mp t ready else ready"
  obtain t d where x: "x = (t, d)" by (cases x)
  let ?S = "if d = 0 then insert t S else S"
  have "ready_is mp ?S (?f x ready)"
    using Cons.prems ready_insert [of mp S ready t] by (auto simp: x)
  then have "ready_is mp (?S \<union> {t. (t, 0) \<in> set xs}) (fold ?f xs (?f x ready))"
    using Cons.prems(2) by (intro Cons.IH) auto
  moreover have "?S \<union> {t. (t, 0) \<in> set xs} = S \<union> {t. (t, 0) \<in> set (x # xs)}" by (auto simp: x)
  ultimately show ?case by simp
qed simp

lemma first_ready_is:
  assumes "\<And>t. fmlookup degrees t = (if t \<in> known mp then Some (w t) else None)"
  shows "ready_is mp {t \<in> known mp. w t = 0} (first_ready mp degrees)"
proof -
  have mem: "(t, d) \<in> set (sorted_list_of_fmap degrees) \<longleftrightarrow> t \<in> known mp \<and> w t = d" for t d
    unfolding set_sorted_list_of_fmap assms by simp
  have "ready_is mp {} []" by (simp add: ready_is_def)
  from ready_fold [OF this, of "sorted_list_of_fmap degrees"]
  show ?thesis unfolding first_ready_def mem by simp
qed

section \<open>The loop\<close>

definition ready_ids :: "mempool \<Rightarrow> bytes list \<Rightarrow> bytes set" where
  "ready_ids mp os = {t \<in> known mp - set os. waiting mp os t = 0}"

definition placing :: "mempool \<Rightarrow> bytes list \<Rightarrow> bool" where
  "placing mp os \<longleftrightarrow> distinct os \<and> set os \<subseteq> known mp \<and> parents_first mp os \<and> greedy mp os \<and>
     (\<forall>t\<in>set os. waiting mp os t = 0)"

lemma placing_snoc:
  assumes "placing mp os" "t \<in> ready_ids mp os"
    and "\<And>u. u \<in> ready_ids mp os \<Longrightarrow> fee_rate (entry_of mp u) \<le> fee_rate (entry_of mp t)"
  shows "placing mp (os @ [t])"
proof -
  have t: "t \<in> known mp" "t \<notin> set os" "waiting mp os t = 0" using assms(2) by (auto simp: ready_ids_def)
  have "parents_first mp (os @ [t])" using assms(1) t(3) parents_first_snoc by (auto simp: placing_def)
  moreover have "greedy mp (os @ [t])"
    using assms(1,3) by (intro greedy_snoc) (auto simp: placing_def ready_ids_def)
  moreover have "waiting mp (os @ [t]) u = 0" if "u \<in> set (os @ [t])" for u
  proof -
    have "waiting mp os u = 0" using that t(3) assms(1) by (auto simp: placing_def)
    moreover have "waiting mp (os @ [t]) u \<le> waiting mp os u" by (rule waiting_mono) auto
    ultimately show ?thesis by simp
  qed
  ultimately show ?thesis using assms(1) t by (auto simp: placing_def)
qed

lemma ready_ids_snoc:
  assumes ord: "placing mp os" and t: "t \<in> ready_ids mp os"
    and cnt: "\<And>u. count_list ks u = (if u \<in> known mp
      then length (filter (\<lambda>inp. prev_txid inp = t) (pool_inputs mp (entry_of mp u))) else 0)"
  shows "ready_ids mp (os @ [t]) =
     (ready_ids mp os - {t}) \<union> {u \<in> set ks. u \<in> known mp \<and> waiting mp os u = count_list ks u}"
proof -
  have new: "t \<notin> set os" "waiting mp os t = 0" using t by (auto simp: ready_ids_def)
  have w: "waiting mp (os @ [t]) u = waiting mp os u - count_list ks u" if "u \<in> known mp" for u
    using that new by (simp add: waiting_append cnt)
  have le: "count_list ks u \<le> waiting mp os u" if "u \<in> known mp" for u
  proof -
    have "length (filter (\<lambda>inp. prev_txid inp = t) is) \<le> length (filter (\<lambda>inp. prev_txid inp \<notin> set os) is)"
      for "is" :: "tx_input list" using new(1) by (induction "is") auto
    then show ?thesis using that by (simp add: cnt waiting_def)
  qed
  have pos: "u \<in> set ks \<longleftrightarrow> 0 < count_list ks u" for u by (metis count_list_0_iff gr0I less_numeral_extra(3))
  have placed: "waiting mp os u = 0" if "u \<in> set os" for u using ord that by (simp add: placing_def)
  show ?thesis
  proof (rule set_eqI)
    fix u
    show "u \<in> ready_ids mp (os @ [t]) \<longleftrightarrow>
        u \<in> (ready_ids mp os - {t}) \<union> {u \<in> set ks. u \<in> known mp \<and> waiting mp os u = count_list ks u}"
      using w [of u] le [of u] pos [of u] placed [of u] new by (auto simp: ready_ids_def)
  qed
qed

lemma children_bounded:
  assumes keys: "keys_ok lib mp" and t: "t \<notin> set os"
    and deg: "\<And>u. fmlookup degrees u = (if u \<in> known mp then Some (waiting mp os u) else None)"
    and u: "u \<in> set (children_of lib mp (entries_in order mp) t)"
  shows "u \<in> known mp \<and> (\<exists>d. fmlookup degrees u = Some d \<and>
     count_list (children_of lib mp (entries_in order mp) t) u \<le> d)"
proof -
  have "count_list (children_of lib mp (entries_in order mp) t) u \<noteq> 0" using u by (simp add: count_list_0_iff)
  then have k: "u \<in> known mp" by (auto simp: count_children [OF keys] split: if_splits)
  have "length (filter (\<lambda>inp. prev_txid inp = t) is) \<le> length (filter (\<lambda>inp. prev_txid inp \<notin> set os) is)"
    for "is" :: "tx_input list" using t by (induction "is") auto
  then have "count_list (children_of lib mp (entries_in order mp) t) u \<le> waiting mp os u"
    using k by (simp add: count_children [OF keys] waiting_def)
  then show ?thesis using k deg by simp
qed

lemma emit_ready_returns:
  assumes keys: "keys_ok lib mp" and "placing mp os" "ready_is mp (ready_ids mp os) ready"
    "\<And>t. fmlookup degrees t = (if t \<in> known mp then Some (waiting mp os t) else None)"
  shows "\<exists>os'. emit_ready mp (children_of lib mp (entries_in order mp)) degrees ready
      (map (\<lambda>t. e_tx (entry_of mp t)) os) = Some (map (\<lambda>t. e_tx (entry_of mp t)) os') \<and>
      placing mp os' \<and> ready_ids mp os' = {}"
  using assms(2-)
proof (induction "card (known mp - set os)" arbitrary: os ready degrees rule: less_induct)
  case less
  let ?ch = "children_of lib mp (entries_in order mp)" and ?tx = "\<lambda>t. e_tx (entry_of mp t)"
  show ?case
  proof (cases ready)
    case Nil
    then have "ready_ids mp os = {}" using less.prems(2) by (simp add: ready_is_def)
    moreover have "emit_ready mp ?ch degrees ready (map ?tx os) = Some (map ?tx os)"
      using Nil by (subst emit_ready.simps) simp
    ultimately show ?thesis using less.prems(1) by blast
  next
    case (Cons kt rest)
    obtain k t where kt: "kt = (k, t)" by (cases kt)
    note pop = ready_pop [OF less.prems(2) [unfolded Cons kt]]
    have t: "t \<in> known mp" "t \<notin> set os" using pop(1) by (auto simp: ready_ids_def)
    note cnt = count_children [OF keys, of order t]
    note next_ids = ready_ids_snoc [OF less.prems(1) pop(1) cnt]
    have w: "waiting mp (os @ [t]) u = waiting mp os u - count_list (?ch t) u" if "u \<in> known mp" for u
      using that t(2) by (simp add: waiting_append cnt)
    have "u \<in> known mp \<and> (\<exists>d. fmlookup degrees u = Some d \<and> count_list (?ch t) u \<le> d)" if "u \<in> set (?ch t)" for u
      using that by (rule children_bounded [OF keys t(2) less.prems(3)])
    from release_children [OF this pop(2)] obtain D' Q' where
      rel: "fold (release_child mp) (?ch t) (degrees, rest) = (D', Q')"
        "\<And>u. fmlookup D' u = map_option (\<lambda>d. d - count_list (?ch t) u) (fmlookup degrees u)"
        "ready_is mp (ready_ids mp os - {t} \<union> {u \<in> set (?ch t). fmlookup degrees u = Some (count_list (?ch t) u)}) Q'"
      by blast
    have "{u \<in> set (?ch t). fmlookup degrees u = Some (count_list (?ch t) u)} =
        {u \<in> set (?ch t). u \<in> known mp \<and> waiting mp os u = count_list (?ch t) u}"
      unfolding less.prems(3) by auto
    then have "ready_is mp (ready_ids mp (os @ [t])) Q'" using rel(3) unfolding next_ids by simp
    moreover have "fmlookup D' u = (if u \<in> known mp then Some (waiting mp (os @ [t]) u) else None)" for u
      unfolding rel(2) less.prems(3) using w [of u] by simp
    moreover have "placing mp (os @ [t])" using less.prems(1) pop(1,3) by (rule placing_snoc)
    moreover have "card (known mp - set (os @ [t])) < card (known mp - set os)"
      using t by (intro psubset_card_mono) auto
    ultimately have "\<exists>os'. emit_ready mp ?ch D' Q' (map ?tx (os @ [t])) = Some (map ?tx os') \<and>
        placing mp os' \<and> ready_ids mp os' = {}"
      by (intro less.hyps)
    moreover have "emit_ready mp ?ch degrees ready (map ?tx os) = emit_ready mp ?ch D' Q' (map ?tx (os @ [t]))"
      using Cons kt rel(1) t(1) by (subst emit_ready.simps) (simp add: known_lookup)
    ultimately show ?thesis by simp
  qed
qed

section \<open>Completeness\<close>

lemma waiting_zero:
  assumes "t \<in> known mp"
  shows "waiting mp os t = 0 \<longleftrightarrow> (\<forall>p. spends mp t p \<longrightarrow> p \<in> known mp \<longrightarrow> p \<in> set os)"
  using known_lookup [OF assms]
  by (auto simp: waiting_def pool_inputs_def spends_def spent_by_def outpoint_def filter_empty_conv image_image)

text \<open>Without a cycle nothing is left over.\<close>

lemma placing_complete:
  assumes "acyclic {(p, t). p \<in> known mp \<and> spends mp t p}" "ready_ids mp os = {}"
  shows "known mp \<subseteq> set os"
proof (rule ccontr)
  let ?R = "{(p, t). p \<in> known mp \<and> spends mp t p}"
  assume "\<not> known mp \<subseteq> set os"
  then obtain t0 where t0: "t0 \<in> known mp - set os" by blast
  have "?R \<subseteq> known mp \<times> known mp" by (auto simp: spends_def fmlookup_dom_iff)
  then have "finite ?R" by (rule finite_subset) simp
  with assms(1) have "wf ?R" by (simp add: finite_acyclic_wf)
  from wfE_min [OF this t0] obtain t where t: "t \<in> known mp - set os"
      "\<And>p. (p, t) \<in> ?R \<Longrightarrow> p \<notin> known mp - set os" by blast
  have "t \<in> known mp" using t(1) by blast
  then have "waiting mp os t = 0" using t(2) by (auto simp: waiting_zero)
  with t(1) have "t \<in> ready_ids mp os" by (simp add: ready_ids_def)
  with assms(2) show False by simp
qed

lemma insort_key_map: "insort_key f (g x) (map g ys) = map g (insort_key (\<lambda>y. f (g y)) x ys)"
  by (induction ys) auto

lemma sort_key_map: "sort_key f (map g xs) = map g (sort_key (\<lambda>y. f (g y)) xs)"
  by (induction xs) (simp_all add: insort_key_map)

lemma leftovers_complete:
  assumes keys: "keys_ok lib mp" and os: "distinct os" "set os \<subseteq> known mp"
  shows "\<exists>ls. add_leftovers lib mp (entries_in order mp) (map (\<lambda>t. e_tx (entry_of mp t)) os) =
      map (\<lambda>t. e_tx (entry_of mp t)) (os @ ls) \<and> distinct (os @ ls) \<and> set (os @ ls) = known mp"
proof (cases "known mp \<subseteq> set os")
  case True
  then have "set os = known mp" using os(2) by blast
  moreover have "length os = mempool_size mp"
    using distinct_card [OF os(1)] calculation by (simp add: mempool_size_def fcard.rep_eq)
  ultimately show ?thesis using os(1) by (intro exI [of _ "[]"]) (simp add: add_leftovers_def)
next
  case False
  let ?ls = "filter (\<lambda>t. t \<notin> set os) (ids_in order mp)"
  let ?ls' = "sort_key (\<lambda>t. Reverse (fee_rate (entry_of mp t))) ?ls"
  have "length os < mempool_size mp"
    using psubset_card_mono [of "known mp" "set os"] False os distinct_card [OF os(1)]
    by (auto simp: mempool_size_def fcard.rep_eq)
  moreover have "txid lib ` set (map (\<lambda>t. e_tx (entry_of mp t)) os) = set os"
    using os(2) entry_txid [OF keys] by (force simp: image_iff)
  moreover have "filter (\<lambda>e. txid lib (e_tx e) \<notin> set os) (entries_in order mp) = map (entry_of mp) ?ls"
    unfolding entries_in_ids filter_map comp_def
    by (rule arg_cong [of _ _ "map (entry_of mp)"], rule filter_cong) (simp_all add: ids_in entry_txid [OF keys])
  ultimately have "add_leftovers lib mp (entries_in order mp) (map (\<lambda>t. e_tx (entry_of mp t)) os) =
      map (\<lambda>t. e_tx (entry_of mp t)) (os @ ?ls')"
    by (simp add: add_leftovers_def sort_key_map)
  moreover have "distinct (os @ ?ls')" "set (os @ ?ls') = known mp"
    using os by (auto simp: ids_in)
  ultimately show ?thesis by blast
qed

lemma get_transactions_returns:
  assumes keys: "keys_ok lib mp"
  shows "\<exists>os ls. get_transactions lib order mp = Some (map (\<lambda>t. e_tx (entry_of mp t)) (os @ ls)) \<and>
     placing mp os \<and> ready_ids mp os = {} \<and> distinct (os @ ls) \<and> set (os @ ls) = known mp"
proof -
  let ?es = "entries_in order mp"
  note deg = in_degrees_lookup [OF keys, of order]
  have "placing mp []" by (simp add: placing_def parents_first_def greedy_def)
  moreover have "ready_is mp (ready_ids mp []) (first_ready mp (in_degrees lib mp ?es))"
    using first_ready_is [OF deg] by (simp add: ready_ids_def)
  ultimately obtain os where os: "emit_ready mp (children_of lib mp ?es) (in_degrees lib mp ?es)
      (first_ready mp (in_degrees lib mp ?es)) [] = Some (map (\<lambda>t. e_tx (entry_of mp t)) os)"
      "placing mp os" "ready_ids mp os = {}"
    using emit_ready_returns [where os = "[]" and order = order, OF keys _ _ deg] by auto
  then have "distinct os" "set os \<subseteq> known mp" by (simp_all add: placing_def)
  from leftovers_complete [OF keys this] os show ?thesis
    by (fastforce simp: get_transactions_def Let_def)
qed

text \<open>
  C9: in a reachable pool, the list a staker fills a block from is always produced and holds every
  transaction of the pool exactly once. When no transaction depends on itself through others, every
  transaction stands after all transactions of the pool whose outputs it spends, and at each place
  stands one of the highest fee rate among those whose parents stand before that place.
\<close>

theorem block_order:
  assumes "pool_reach lib mp"
  shows "\<exists>ts. get_transactions lib order mp = Some (map (\<lambda>t. e_tx (entry_of mp t)) ts) \<and>
     distinct ts \<and> set ts = known mp \<and>
     (acyclic {(p, t). p \<in> known mp \<and> spends mp t p} \<longrightarrow> parents_first mp ts \<and> greedy mp ts)"
proof -
  have "keys_ok lib mp" using reach_safe [OF assms] by (simp add: safe_pool_def pool_ok_def)
  from get_transactions_returns [OF this, of order] obtain os ls where
    run: "get_transactions lib order mp = Some (map (\<lambda>t. e_tx (entry_of mp t)) (os @ ls))" and
    os: "placing mp os" "ready_ids mp os = {}" and all: "distinct (os @ ls)" "set (os @ ls) = known mp" by blast
  have "parents_first mp (os @ ls) \<and> greedy mp (os @ ls)"
    if "acyclic {(p, t). p \<in> known mp \<and> spends mp t p}"
  proof -
    have "known mp \<subseteq> set os" using that os(2) by (rule placing_complete)
    then have "set ls \<subseteq> set os" using all(2) by auto
    then have "ls = []" using all(1) by (cases ls) auto
    then show ?thesis using os(1) by (simp add: placing_def)
  qed
  with run all show ?thesis by blast
qed

text \<open>A child that pays ten times the rate of its parent is placed after it.\<close>

definition parent_id :: bytes where
  "parent_id = txid sample_lib sample_tx"

lemma length_parent_id [simp]: "length parent_id = 32"
  by (simp add: parent_id_def sample_txid)

definition child_tx :: transaction where
  "child_tx = sample_tx\<lparr>tx_version := 3, inputs :=
     [\<lparr>prev_txid = parent_id, prev_vout = 0, script_sig = [1], sequence = 0\<rparr>]\<rparr>"

definition child_id :: bytes where
  "child_id = txid sample_lib child_tx"

definition family_pool :: mempool where
  "family_pool = insert_entry child_id (new_entry sample_lib 8 child_tx 50000) first_pool"

lemma child_size: "serialized_size sample_lib child_tx = 96"
proof -
  have "serialized_size sample_lib child_tx = of_nat (length (tx_enc child_tx))"
    by (simp add: serialized_size_def sample_lib_def)
  also have "length (tx_enc child_tx) = 96"
    by (simp add: tx_enc_def vec_enc_def input_enc_def output_enc_def bytes_enc_def child_tx_def sample_tx_def)
  finally show ?thesis by simp
qed

lemma child_relay: "relay_checks sample_lib child_tx 50000 first_pool = Ok ()"
proof -
  have "validate_transaction child_tx = Ok ()" "claimed_by child_tx = None" "\<not> is_legacy_claim child_tx"
      "check_each check_dust (outputs child_tx) = Ok ()" "min_fee_rate first_pool = 1"
    by (simp_all add: validate_transaction_def claimed_by_def check_dust_def is_legacy_claim_def
        is_coinstake_def is_coinbase_def child_tx_def sample_tx_def DUST_SATOSHIS_def MAX_MONEY_def
        MAX_SUPPLY_def COIN_def first_pool_def insert_entry_def new_mempool_def with_byte_limit_def)
  then show ?thesis
    by (simp add: relay_checks_def check_pending_claim_def check_fee_def MIN_RELAY_FEE_def rate_of_def child_size)
qed

lemma family_ids: "child_id \<noteq> parent_id" "parent_id \<noteq> replicate 32 9" "child_id \<noteq> replicate 32 9"
proof -
  have "take 4 (txid sample_lib tx) = u32_le (tx_version tx)" for tx
    by (simp add: sample_txid pad_to_def tx_enc_def)
  then have v: "take 4 parent_id = u32_le 1" "take 4 child_id = u32_le 3"
    by (simp_all add: parent_id_def child_id_def child_tx_def sample_tx_def)
  have "u32_le 3 \<noteq> u32_le 1" by (simp add: u32c.enc_inject)
  with v show "child_id \<noteq> parent_id" by auto
  have "u32_le 3 \<noteq> replicate 4 9" "u32_le 1 \<noteq> replicate 4 9" by code_simp+
  moreover have "take 4 (replicate 32 9) = replicate 4 (9 :: byte)" by (simp only: take_replicate) simp
  ultimately show "parent_id \<noteq> replicate 32 9" "child_id \<noteq> replicate 32 9" using v by metis+
qed

lemma family_add: "add_transaction_with_fee sample_lib 8 child_tx 50000 first_pool = Some (family_pool, Ok ())"
proof -
  have "find_conflicts child_tx first_pool = []"
    using family_ids by (simp add: find_conflicts_def first_pool_def insert_entry_def new_fields child_tx_def
        sample_tx_def outpoint_def)
  then have "replace_conflicts child_tx rate fee first_pool = Some (first_pool, Ok ())" for rate fee
    by (simp add: replace_conflicts_def)
  moreover have "bytes_in first_pool = 96"
    by (simp add: bytes_in_def first_pool_def new_fields fm_sum_upd_new pool_tx_sizes)
  then have "total_bytes first_pool = Ok 96" by (simp add: total_bytes_Ok)
  then have "make_room sample_lib 96 rate first_pool = Some (first_pool, Ok ())" for rate
    by (subst make_room.simps)
      (simp add: pool_fits_def first_pool_def mempool_size_def new_mempool_def with_byte_limit_def sat_add_def
        DEFAULT_MAX_MEMPOOL_BYTES_def fcard_finsert_disjoint fcard_fempty)
  moreover have "decay_fee_rate first_pool = first_pool" "max_bytes first_pool = DEFAULT_MAX_MEMPOOL_BYTES"
      "child_id |\<notin>| fmdom (entries first_pool)"
    using family_ids(1) by (simp_all add: decay_fee_rate_def first_pool_def new_mempool_def with_byte_limit_def
        insert_entry_def parent_id_def)
  ultimately show ?thesis
    by (simp add: add_transaction_with_fee_def child_relay Let_def child_size then_run_def
        child_id_def [symmetric] family_pool_def DEFAULT_MAX_MEMPOOL_BYTES_def)
qed

lemma family_known: "known family_pool = {parent_id, child_id}"
  by (auto simp: family_pool_def first_pool_def new_fields parent_id_def)

lemma family_lookup:
  "fmlookup (entries family_pool) t =
     (if t = child_id then Some (new_entry sample_lib 8 child_tx 50000)
      else if t = parent_id then Some (new_entry sample_lib 7 sample_tx 5000) else None)"
  by (auto simp: family_pool_def first_pool_def new_fields parent_id_def)

lemma family_inputs: "outpoint ` set (inputs sample_tx) = {(replicate 32 9, 0)}"
    "outpoint ` set (inputs child_tx) = {(parent_id, 0)}"
  by (simp_all add: outpoint_def sample_tx_def child_tx_def)

lemma family_spends: "spends family_pool t p \<longleftrightarrow> t = parent_id \<and> p = replicate 32 9 \<or> t = child_id \<and> p = parent_id"
  using family_ids(1) by (auto simp: spends_def family_lookup spent_by_def family_inputs)

lemma family_acyclic: "acyclic {(p, t). p \<in> known family_pool \<and> spends family_pool t p}"
proof -
  have "{(p, t). p \<in> known family_pool \<and> spends family_pool t p} = {(parent_id, child_id)}"
    using family_ids by (auto simp: family_known family_spends)
  then show ?thesis using family_ids(1) by (simp add: acyclic_def trancl_insert)
qed

theorem block_order_witness:
  "get_transactions sample_lib (\<lambda>_. 0) family_pool = Some [sample_tx, child_tx]"
proof -
  have "pool_reach sample_lib family_pool" by (rule pool_reach.add [OF first_reach family_add])
  from block_order [OF this, of "\<lambda>_. 0"] family_acyclic obtain ts where
    run: "get_transactions sample_lib (\<lambda>_. 0) family_pool = Some (map (\<lambda>t. e_tx (entry_of family_pool t)) ts)" and
    ts: "distinct ts" "set ts = {parent_id, child_id}" "parents_first family_pool ts"
    by (auto simp: family_known)
  have "length ts = 2" using distinct_card [OF ts(1)] ts(2) family_ids(1) by simp
  then obtain a b where ab: "ts = [a, b]" by (auto simp: numeral_2_eq_2 length_Suc_conv)
  have "waiting family_pool [] a = 0" using ts(3) ab by (auto simp: parents_first_def)
  moreover have "a \<in> known family_pool" using ts(2) ab by (auto simp: family_known)
  ultimately have "a \<noteq> child_id" by (auto simp: waiting_zero family_spends family_known)
  then have "a = parent_id" "b = child_id" using ts(1,2) ab by auto
  then show ?thesis using run ab family_ids(1)
    by (simp add: entry_of_def family_lookup)
qed

end
