(* ===== verification/Spec2Isabelle.thy ===== *)
theory Spec2Isabelle
  imports Opcode ConsensusProps Deployments Voting ChainStaked Template MempoolOrder
begin

text \<open>
  Verification library of vTorrent-NG, a proof-of-stake cryptocurrency node written in Rust.

  \<^bold>\<open>The program.\<close> A node keeps a chain of blocks and the set of unspent outputs. A peer or the
  local staker hands it a block; \<open>Chain::add_block\<close> checks it against its parent
  (\<open>consensus.rs\<close>), applies its transactions one by one (\<open>chain_reorg.rs\<close>), which runs the script of
  every spent output (\<open>vtorrent-script\<close>), mints rewards, pays out balances of the old chain
  (\<open>genesis.rs\<close>) and counts governance votes (\<open>governance.rs\<close>), and writes a journal with which the
  block can be undone. A block on another branch is stored; once its branch has more work the main
  chain is rolled back to the fork point and the branch is applied. Transactions wait in a pool
  (\<open>mempool.rs\<close>), from which \<open>select_block_transactions\<close> fills the next block.

  \<^bold>\<open>Theories and sources.\<close> Paths are under \<open>src/\<close>.

  \<^item> \<open>Prelude\<close>, \<open>Effects\<close>, \<open>Codec\<close>: the \<open>Result\<close> type, bytes and little-endian codecs (locale
    \<open>le_codec\<close>), saturating and checked words; stateful code that keeps its effects on an early
    return, with the locales \<open>step_relation\<close> (a reflexive and transitive relation that every step
    keeps) and \<open>keyed_undo\<close>; prefix-free encodings (locale \<open>prefix_code\<close>).
  \<^item> \<open>Script\<close>, \<open>Opcode\<close>, \<open>ScriptNum\<close>, \<open>Engine\<close>, \<open>Standard\<close>: \<open>vtorrent-script/src\<close>, the byte format,
    the opcode table, numbers, the interpreter with every opcode, the builders and the classifier.
    \<open>EngineProps\<close>, \<open>Standard\<close> and \<open>Contracts\<close> hold their lemmas: for every standard output, exactly
    which unlocking scripts spend it.
  \<^item> \<open>Block\<close>: \<open>vtorrent-node/src/block.rs\<close>. \<open>Merkle\<close> and \<open>BlockProps\<close>: the in-place Merkle reduction
    is the recursive tree, and what the hashes commit to.
  \<^item> \<open>Address\<close>: \<open>vtorrent-core/src/address.rs\<close>. \<open>Consensus\<close>, \<open>ConsensusProps\<close>:
    \<open>vtorrent-node/src/consensus.rs\<close>, rewards, kernels, block checks and claims. \<open>Deployments\<close>:
    \<open>deployments.rs\<close>. \<open>Genesis\<close>: \<open>genesis.rs\<close>.
  \<^item> \<open>Governance\<close>: \<open>governance.rs\<close>. \<open>GovernanceProps\<close>: its undo records. \<open>Voting\<close>: its reachable
    states, as an inductive relation.
  \<^item> \<open>Ledger\<close>: the record \<open>chain\<close> is \<open>struct Chain\<close> of \<open>chain.rs\<close>, and one definition per phase of
    \<open>apply_transaction_journaled\<close> and \<open>apply_block_journaled\<close> of \<open>chain/chain_reorg.rs\<close>.
    \<open>LedgerProps\<close>: a journal undoes its block. \<open>Supply\<close>: a block conserves coins and the staked sum.
  \<^item> \<open>Chain\<close>: \<open>add_block\<close>, reorganisation, pruning and construction. \<open>ChainApi\<close>: the other methods of
    \<open>Chain\<close>. \<open>ChainUndo\<close>, \<open>ChainProps\<close>, \<open>ChainSupply\<close>: the reachable chains (the inductive relation
    \<open>chain_reach\<close>) and the properties that span all of the above. \<open>ChainStaked\<close>: the staked supply along
    the runs whose blocks create new outpoints (\<open>fresh_reach\<close>). \<open>Template\<close>: the selection of
    transactions for a block, tried on the chain and taken back.
  \<^item> \<open>Mempool\<close>: \<open>mempool.rs\<close>, the record \<open>mempool\<close> and its operations. \<open>MempoolProps\<close>: the reachable
    pools (the inductive relation \<open>pool_reach\<close>), exact indexes, limits, replacement and eviction, with
    \<open>step_relation\<close> for what a pool may lose. \<open>MempoolOrder\<close>: the order for a block, a topological sort
    by fee rate.
  \<^item> \<open>Samples\<close>, \<open>LedgerSamples\<close>: the concrete library, chain and blocks of the witnesses.

  \<^bold>\<open>How code becomes definitions.\<close> A \<open>w\<close>-bit integer is a word of that width, \<open>i64\<close> is an \<open>int\<close> with
  its range check, \<open>usize\<close> is \<open>nat\<close>. A \<open>HashMap\<close> or \<open>BTreeMap\<close> is a finite map, iterated in key order;
  where the order of a hash map matters it is an argument. \<open>&mut self\<close> methods return the new state and a
  \<open>result\<close>. Formatted error texts keep their fixed part. Overflow checks are on in the release
  profile: an addition that overflows is the error \<open>Panic\<close>, as are failed \<open>expect\<close>s and indexing.
  Hashes, ECDSA, bincode, Base58 and hex are fields of a library record and so arguments of every
  definition; the clock is an argument. What a property needs of them is a named hypothesis
  (\<open>bincode_layout\<close>, \<open>bs58_ok\<close>). No hash is assumed injective: a property on what a hash commits to
  ends in equal contents or in two different messages, both hashed by the code, with the same hash.

  \<^bold>\<open>Loops.\<close> The interpreter runs at most \<open>MAX_SCRIPT_EXEC_STEPS\<close> items, the limit of the source; every
  other loop is structural or has a termination proof, except the two walks over parent links and the
  three loops of the memory pool, which are partial functions: \<open>None\<close> is a run that never returns.
  \<open>parent_walks_end\<close>, \<open>admission_outbids\<close> and \<open>block_order\<close> show that it does not occur in a reachable
  chain or pool.

  \<^bold>\<open>Not modelled.\<close> The asynchronous node loop, peer-to-peer messages, the RPC server, daemon, command
  line and desktop application (I/O around the components above); the block store, a wrapper of the
  database crate; the producer of blocks, whose blocks \<open>add_block\<close> checks as it checks any other, and
  the stake proofs it serves; the snapshot tool, the light client, the wallet, atomic swaps, the
  Bitcoin client and the BitTorrent engine, which use the node or stand beside it. Log lines, the file
  the pool is saved to and the reused buffers of the unspent-output root are left out; they do not
  change results.
\<close>

end
